(* ===== verification/Home_Prelude.thy ===== *)
theory Home_Prelude
  imports Complex_Main "HOL-Library.Char_ord" "HOL-Library.List_Lexorder" "HOL-Library.AList"
begin

text \<open>
  What every component of the Home service shares: results of fallible Python code
  (\<open>Inl\<close> an exception, \<open>Inr\<close> a value) with their sequencing, the loops the source
  writes over arrays, the values a JSON document decodes to, Python's numbers and strings
  as far as the service inspects them, \<open>min\<close> with a key, and the invariant rule for a
  component driven by a list of operations.
\<close>

section \<open>Named collections\<close>

named_theorems result_simps \<open>equations that invert a successful or failing result\<close>
named_theorems decode_simps \<open>equations that evaluate the decoding of a Python value\<close>
named_theorems step_inv \<open>facts that an operation keeps its component's invariant\<close>

section \<open>Results\<close>

type_synonym ('e, 'a) result = "'e + 'a"

definition bindE :: "('e, 'a) result \<Rightarrow> ('a \<Rightarrow> ('e, 'b) result) \<Rightarrow> ('e, 'b) result" where
  "bindE m f = (case m of Inl e \<Rightarrow> Inl e | Inr x \<Rightarrow> f x)"

definition checkE :: "bool \<Rightarrow> 'e \<Rightarrow> ('e, unit) result" where
  "checkE ok e = (if ok then Inr () else Inl e)"

text \<open>A comprehension whose body may raise, and a loop that threads a state.\<close>

fun mapE :: "('a \<Rightarrow> ('e, 'b) result) \<Rightarrow> 'a list \<Rightarrow> ('e, 'b list) result" where
  "mapE f [] = Inr []"
| "mapE f (x # xs) = bindE (f x) (\<lambda>y. bindE (mapE f xs) (\<lambda>ys. Inr (y # ys)))"

fun foldE :: "('s \<Rightarrow> 'a \<Rightarrow> ('e, 's) result) \<Rightarrow> 's \<Rightarrow> 'a list \<Rightarrow> ('e, 's) result" where
  "foldE f s [] = Inr s"
| "foldE f s (x # xs) = bindE (f s x) (\<lambda>s'. foldE f s' xs)"

text \<open>
  The validation loop \<open>for index, item in enumerate(value)\<close>: each turn sees the index and
  what the earlier turns remembered, raises or appends one output.
\<close>

fun scanE :: "(nat \<Rightarrow> 's \<Rightarrow> 'a \<Rightarrow> ('e, 'b \<times> 's) result) \<Rightarrow> nat \<Rightarrow> 's \<Rightarrow> 'a list
    \<Rightarrow> ('e, 'b list) result" where
  "scanE f i s [] = Inr []"
| "scanE f i s (x # xs) =
     bindE (f i s x) (\<lambda>(y, s'). bindE (scanE f (Suc i) s' xs) (\<lambda>ys. Inr (y # ys)))"

section \<open>Python numbers\<close>

text \<open>
  A float is a rational or one of the three special values; sums and differences of clock
  readings are exact here, where the hardware rounds them. The conversion of an integer to
  a float does round, to 53 significant bits and to even, and overflows from \<open>2 ^ 1024\<close>.
\<close>

datatype pyfloat = Fin rat | PosInf | NegInf | NaN

fun isfinite :: "pyfloat \<Rightarrow> bool" where
  "isfinite (Fin _) = True"
| "isfinite _ = False"

fun bit_length :: "nat \<Rightarrow> nat" where
  "bit_length n = (if n = 0 then 0 else Suc (bit_length (n div 2)))"

declare bit_length.simps [simp del]

definition round_to_53 :: "nat \<Rightarrow> nat" where
  "round_to_53 n =
     (if n < 2 ^ 53 then n
      else let e = bit_length n - 53; q = n div 2 ^ e; r = n mod 2 ^ e; half = 2 ^ (e - 1)
        in if r < half \<or> (r = half \<and> even q) then q * 2 ^ e else (q + 1) * 2 ^ e)"

definition float_of_int :: "int \<Rightarrow> rat option" where
  "float_of_int n =
     (let m = round_to_53 (nat \<bar>n\<bar>)
      in if 2 ^ 1024 \<le> m then None else Some (of_int (sgn n * int m)))"

section \<open>Python values of a decoded document\<close>

text \<open>
  A mapping's keys are strings in every decoded JSON document; the source guards against
  other keys, so a key that is not a string is kept as \<open>KOther\<close>. A \<open>bool\<close> is not
  an \<open>int\<close> for \<open>type(x) is int\<close>.
\<close>

datatype pykey = KStr string | KOther int

datatype pyval =
    PNone
  | PBool bool
  | PInt int
  | PFloat pyfloat
  | PStr string
  | PList "pyval list"
  | PDict "(pykey \<times> pyval) list"

type_synonym pydict = "(pykey \<times> pyval) list"

fun is_str_key :: "pykey \<Rightarrow> bool" where
  "is_str_key (KStr _) = True"
| "is_str_key (KOther _) = False"

definition dget :: "pydict \<Rightarrow> string \<Rightarrow> pyval option" where
  "dget d k = map_of d (KStr k)"

definition dhas :: "pydict \<Rightarrow> string \<Rightarrow> bool" where
  "dhas d k \<longleftrightarrow> dget d k \<noteq> None"

definition dget_or :: "pydict \<Rightarrow> string \<Rightarrow> pyval \<Rightarrow> pyval" where
  "dget_or d k v = (case dget d k of None \<Rightarrow> v | Some w \<Rightarrow> w)"

text \<open>Reading \<open>d[k]\<close> once the keys have been checked.\<close>

definition dfield :: "pydict \<Rightarrow> string \<Rightarrow> pyval" where
  "dfield d k = dget_or d k PNone"

text \<open>A dictionary display with string keys.\<close>

definition obj :: "(string \<times> pyval) list \<Rightarrow> pyval" where
  "obj kvs = PDict (map (\<lambda>(k, v). (KStr k, v)) kvs)"

section \<open>Python strings\<close>

text \<open>Characters are code points below 256; \<open>str.isspace\<close> on that range.\<close>

definition ord_of :: "char \<Rightarrow> nat" where
  "ord_of c = of_char c"

definition py_isspace :: "char \<Rightarrow> bool" where
  "py_isspace c =
     (let n = ord_of c
      in (9 \<le> n \<and> n \<le> 13) \<or> (28 \<le> n \<and> n \<le> 32) \<or> n = 133 \<or> n = 160)"

definition py_strip :: "string \<Rightarrow> string" where
  "py_strip s = rev (dropWhile py_isspace (rev (dropWhile py_isspace s)))"

text \<open>\<open>str.split()\<close>: the maximal runs without white space, in order.\<close>

function py_split :: "string \<Rightarrow> string list" where
  "py_split s =
     (case dropWhile py_isspace s of
        [] \<Rightarrow> []
      | c # cs \<Rightarrow> (c # takeWhile (\<lambda>x. \<not> py_isspace x) cs)
                  # py_split (dropWhile (\<lambda>x. \<not> py_isspace x) cs))"
  by pat_completeness auto
termination
proof (relation "measure length", simp)
  fix s c cs
  assume "dropWhile py_isspace s = c # cs"
  then have "length cs < length s"
    by (metis impossible_Cons le_trans length_dropWhile_le not_le)
  then show "(dropWhile (\<lambda>x. \<not> py_isspace x) cs, s) \<in> measure length"
    using length_dropWhile_le [of "\<lambda>x. \<not> py_isspace x" cs] by simp
qed

declare py_split.simps [simp del]

fun join_with :: "string \<Rightarrow> string list \<Rightarrow> string" where
  "join_with sep [] = []"
| "join_with sep [w] = w"
| "join_with sep (w # ws) = w @ sep @ join_with sep ws"

definition bounded_text_128 :: "string \<Rightarrow> bool" where
  "bounded_text_128 s \<longleftrightarrow> 1 \<le> length s \<and> length s \<le> 128"

section \<open>Selection\<close>

text \<open>\<open>min(xs, key=k)\<close>: the first element whose key no other is below.\<close>

fun min_by :: "('a \<Rightarrow> 'k::linorder) \<Rightarrow> 'a \<Rightarrow> 'a list \<Rightarrow> 'a" where
  "min_by k best [] = best"
| "min_by k best (x # xs) = (if k x < k best then min_by k x xs else min_by k best xs)"

text \<open>The first record of a list that satisfies a test, and a change to it in place.\<close>

fun update_first :: "('a \<Rightarrow> bool) \<Rightarrow> ('a \<Rightarrow> 'a) \<Rightarrow> 'a list \<Rightarrow> 'a list" where
  "update_first p f [] = []"
| "update_first p f (x # xs) = (if p x then f x # xs else x # update_first p f xs)"

text \<open>
  A dictionary that is iterated or popped keeps its insertion order: \<open>AList.update\<close> writes
  in place or appends, as Python does. \<open>dict.update\<close> and a comprehension over a list of
  pairs write one entry after the other; an index over records keeps the last per key.
\<close>

definition dict_update :: "('k \<times> 'v) list \<Rightarrow> ('k \<times> 'v) list \<Rightarrow> ('k \<times> 'v) list" where
  "dict_update d new = foldl (\<lambda>acc (k, v). AList.update k v acc) d new"

definition index_by :: "('a \<Rightarrow> 'k) \<Rightarrow> 'a list \<Rightarrow> 'k \<Rightarrow> 'a option" where
  "index_by key xs k = find (\<lambda>x. key x = k) (rev xs)"

section \<open>Lemmas on results and loops\<close>

lemma bindE_Inl [simp]: "bindE (Inl e) f = Inl e"
  by (simp add: bindE_def)

lemma bindE_Inr [simp]: "bindE (Inr x) f = f x"
  by (simp add: bindE_def)

lemma bindE_eq_Inr [result_simps]: "bindE m f = Inr y \<longleftrightarrow> (\<exists>x. m = Inr x \<and> f x = Inr y)"
  by (cases m) auto

lemma bindE_eq_Inl [result_simps]:
  "bindE m f = Inl e \<longleftrightarrow> m = Inl e \<or> (\<exists>x. m = Inr x \<and> f x = Inl e)"
  by (cases m) auto

lemma bindE_assoc: "bindE (bindE m f) g = bindE m (\<lambda>x. bindE (f x) g)"
  by (cases m) auto

lemma checkE_eq_Inr [result_simps]: "checkE b e = Inr u \<longleftrightarrow> b"
  by (simp add: checkE_def)

lemma checkE_eq_Inl [result_simps]: "checkE b e = Inl e' \<longleftrightarrow> \<not> b \<and> e = e'"
  by (auto simp: checkE_def)

lemma checkE_True [simp]: "checkE True e = Inr ()"
  by (simp add: checkE_def)

lemma checkE_False [simp]: "checkE False e = Inl e"
  by (simp add: checkE_def)

lemma mapE_eq_Inr: "mapE f xs = Inr ys \<longleftrightarrow> list_all2 (\<lambda>x y. f x = Inr y) xs ys"
proof (induction xs arbitrary: ys)
  case Nil
  then show ?case by auto
next
  case (Cons x xs)
  then show ?case by (cases ys) (auto simp: result_simps)
qed

lemma mapE_total: "(\<And>x. x \<in> set xs \<Longrightarrow> f x = Inr (g x)) \<Longrightarrow> mapE f xs = Inr (map g xs)"
  by (induction xs) auto

text \<open>
  A loop invariant over the outputs produced so far and the remembered state; and the
  converse, that a loop accepts the encoding of outputs which satisfy the invariant.
\<close>

lemma scanE_invariant:
  assumes "scanE f i s xs = Inr ys" and "P acc s"
    and "\<And>i acc s x y s'. P acc s \<Longrightarrow> f i s x = Inr (y, s') \<Longrightarrow> P (acc @ [y]) s'"
  shows "\<exists>s'. P (acc @ ys) s'"
  using assms(1,2)
proof (induction xs arbitrary: i s acc ys)
  case Nil
  then show ?case by auto
next
  case (Cons x xs)
  from Cons.prems(1) obtain y s' ys' where
    step: "f i s x = Inr (y, s')" and rest: "scanE f (Suc i) s' xs = Inr ys'" and ys: "ys = y # ys'"
    by (auto simp: result_simps)
  from assms(3) [OF Cons.prems(2) step] have "P (acc @ [y]) s'" .
  from Cons.IH [OF rest this] show ?case by (simp add: ys)
qed

lemma scanE_encoded:
  assumes "P [] s"
    and "\<And>i acc s y rest. P acc s \<Longrightarrow> acc @ y # rest = ys \<Longrightarrow>
      \<exists>s'. f i s (enc y) = Inr (y, s') \<and> P (acc @ [y]) s'"
  shows "scanE f i s (map enc ys) = Inr ys"
proof -
  have "P acc s \<Longrightarrow> acc @ zs = ys \<Longrightarrow> scanE f i s (map enc zs) = Inr zs" for acc zs s i
  proof (induction zs arbitrary: acc s i)
    case Nil
    then show ?case by simp
  next
    case (Cons z zs)
    from assms(2) [OF Cons.prems] obtain s' where
      "f i s (enc z) = Inr (z, s')" and "P (acc @ [z]) s'" by blast
    with Cons.IH [of "acc @ [z]" s' "Suc i"] Cons.prems(2) show ?case by simp
  qed
  from this [OF assms(1)] show ?thesis by simp
qed

lemma foldE_invariant:
  assumes "foldE f s xs = Inr t" and "P s"
    and step: "\<And>s x s'. P s \<Longrightarrow> x \<in> set xs \<Longrightarrow> f s x = Inr s' \<Longrightarrow> P s'"
  shows "P t"
  using assms
proof (induction xs arbitrary: s)
  case Nil
  then show ?case by simp
next
  case (Cons x xs)
  from Cons.prems(1) obtain s' where s': "f s x = Inr s'" "foldE f s' xs = Inr t"
    by (auto simp: result_simps)
  have "P s'" using Cons.prems(3) [OF Cons.prems(2) _ s'(1)] by simp
  with s'(2) show ?case by (rule Cons.IH) (meson Cons.prems(3) list.set_intros(2))
qed

section \<open>Lemmas on values\<close>

lemma dget_Nil [decode_simps]: "dget [] k = None"
  by (simp add: dget_def)

lemma dget_Cons [decode_simps]: "dget ((k', v) # d) k = (if k' = KStr k then Some v else dget d k)"
  by (simp add: dget_def)

lemma dhas_iff [decode_simps]: "dhas d k \<longleftrightarrow> KStr k \<in> set (map fst d)"
  by (auto simp: dhas_def dget_def map_of_eq_None_iff)

lemmas value_simps = dget_Nil dget_Cons dhas_iff dget_or_def dfield_def obj_def

lemma float_of_int_exact: "\<bar>n\<bar> < 2 ^ 53 \<Longrightarrow> float_of_int n = Some (of_int n)"
proof -
  assume small: "\<bar>n\<bar> < 2 ^ 53"
  then have nat_small: "nat \<bar>n\<bar> < 2 ^ 53"
    by (simp add: nat_less_iff)
  then have "round_to_53 (nat \<bar>n\<bar>) = nat \<bar>n\<bar>"
    by (simp add: round_to_53_def)
  moreover have "\<not> (2::nat) ^ 1024 \<le> nat \<bar>n\<bar>"
  proof -
    have "(2::nat) ^ 53 \<le> 2 ^ 1024"
      by (rule power_increasing) auto
    with nat_small show ?thesis by linarith
  qed
  ultimately show ?thesis
    by (simp add: float_of_int_def sgn_mult_abs)
qed

section \<open>Lemmas on selection\<close>

lemma min_by_in: "min_by k b xs \<in> set (b # xs)"
  by (induction xs arbitrary: b) auto

lemma min_by_le: "x \<in> set (b # xs) \<Longrightarrow> k (min_by k b xs) \<le> k x"
proof (induction xs arbitrary: b x)
  case Nil
  then show ?case by simp
next
  case (Cons y ys)
  have b: "k (min_by k b ys) \<le> k b" and y: "k (min_by k y ys) \<le> k y"
    using Cons.IH [of b b] Cons.IH [of y y] by auto
  show ?case
  proof (cases "k y < k b")
    case True
    then have "k (min_by k y ys) \<le> k b" using y by simp
    with True Cons.prems y Cons.IH [of x y] show ?thesis by auto
  next
    case False
    then have "k (min_by k b ys) \<le> k y" using b by simp
    with False Cons.prems b Cons.IH [of x b] show ?thesis by auto
  qed
qed

lemma update_first_none: "(\<And>x. x \<in> set xs \<Longrightarrow> \<not> p x) \<Longrightarrow> update_first p f xs = xs"
  by (induction xs) auto

lemma update_first_map: "(\<And>x. p x \<Longrightarrow> g (f x) = g x) \<Longrightarrow> map g (update_first p f xs) = map g xs"
  by (induction xs) auto

lemma length_update_first [simp]: "length (update_first p f xs) = length xs"
  by (induction xs) auto

lemma in_update_first:
  "y \<in> set (update_first p f xs) \<Longrightarrow> y \<in> set xs \<or> (\<exists>x \<in> set xs. p x \<and> y = f x)"
  by (induction xs) (auto split: if_splits)

lemma find_in: "find p xs = Some x \<Longrightarrow> x \<in> set xs \<and> p x"
  by (metis find_Some_iff nth_mem)

lemma find_none: "find p xs = None \<Longrightarrow> x \<in> set xs \<Longrightarrow> \<not> p x"
  by (simp add: find_None_iff)

lemma distinct_map_unique: "distinct (map f xs) \<Longrightarrow> x \<in> set xs \<Longrightarrow> y \<in> set xs \<Longrightarrow> f x = f y \<Longrightarrow> x = y"
  by (meson distinct_map inj_onD)

lemma dict_update_Nil [simp]: "dict_update d [] = d"
  by (simp add: dict_update_def)

lemma dict_update_Cons: "dict_update d ((k, v) # new) = dict_update (AList.update k v d) new"
  by (simp add: dict_update_def)

lemma map_of_dict_update: "map_of (dict_update d new) = map_of d ++ map_of (rev new)"
proof (induction new arbitrary: d)
  case Nil
  then show ?case by simp
next
  case (Cons kv new)
  then show ?case
    by (cases kv) (auto simp: dict_update_Cons update_conv' map_add_def split: option.splits)
qed

lemma keys_dict_update: "fst ` set (dict_update d new) = fst ` set d \<union> fst ` set new"
proof -
  have "dom (map_of (dict_update d new)) = dom (map_of d) \<union> dom (map_of (rev new))"
    by (auto simp: map_of_dict_update)
  then show ?thesis by (simp add: dom_map_of_conv_image_fst)
qed

lemma distinct_dict_update: "distinct (map fst d) \<Longrightarrow> distinct (map fst (dict_update d new))"
  by (induction new arbitrary: d) (auto simp: dict_update_Cons distinct_update)

lemma map_of_dict_update_distinct:
  "distinct (map fst new) \<Longrightarrow> map_of (dict_update d new) = map_of d ++ map_of new"
proof -
  assume "distinct (map fst new)"
  then have "map_of (rev new) = map_of new"
    by (subst map_of_inject_set) (auto simp: rev_map [symmetric])
  then show ?thesis by (simp add: map_of_dict_update)
qed

lemma map_of_dict_update_keys:
  "distinct (map fst new) \<Longrightarrow>
     map_of (dict_update d new) k = (if k \<in> fst ` set new then map_of new k else map_of d k)"
  using map_of_eq_None_iff [of new k]
  by (auto simp: map_of_dict_update_distinct map_add_def split: option.splits)

lemma index_by_in: "index_by key xs k = Some x \<Longrightarrow> x \<in> set xs \<and> key x = k"
  unfolding index_by_def by (drule find_in) simp

lemma index_by_distinct:
  "distinct (map key xs) \<Longrightarrow> x \<in> set xs \<Longrightarrow> index_by key xs (key x) = Some x"
proof -
  assume "distinct (map key xs)" and "x \<in> set xs"
  then show ?thesis
    unfolding index_by_def
    by (cases "find (\<lambda>y. key y = key x) (rev xs)")
      (auto simp: find_None_iff dest!: find_in dest: distinct_map_unique)
qed

section \<open>Components driven by operations\<close>

text \<open>
  A component is a state, operations that change it and an invariant every operation
  keeps when it is allowed; whatever the invariant implies then holds after every run.
\<close>

primrec run_ops :: "('s \<Rightarrow> 'op \<Rightarrow> 's) \<Rightarrow> 's \<Rightarrow> 'op list \<Rightarrow> 's" where
  "run_ops exec s [] = s"
| "run_ops exec s (p # ps) = run_ops exec (exec s p) ps"

primrec allowed_run :: "('s \<Rightarrow> 'op \<Rightarrow> 's) \<Rightarrow> ('s \<Rightarrow> 'op \<Rightarrow> bool) \<Rightarrow> 's \<Rightarrow> 'op list \<Rightarrow> bool" where
  "allowed_run exec ok s [] = True"
| "allowed_run exec ok s (p # ps) = (ok s p \<and> allowed_run exec ok (exec s p) ps)"

lemma run_ops_append: "run_ops exec s (ps @ qs) = run_ops exec (run_ops exec s ps) qs"
  by (induction ps arbitrary: s) auto

lemma allowed_run_append:
  "allowed_run exec ok s (ps @ qs) \<longleftrightarrow>
     allowed_run exec ok s ps \<and> allowed_run exec ok (run_ops exec s ps) qs"
  by (induction ps arbitrary: s) auto

locale machine =
  fixes exec :: "'s \<Rightarrow> 'op \<Rightarrow> 's" and inv :: "'s \<Rightarrow> bool" and ok :: "'s \<Rightarrow> 'op \<Rightarrow> bool"
  assumes exec_inv: "inv s \<Longrightarrow> ok s p \<Longrightarrow> inv (exec s p)"
begin

lemma run_inv: "inv s \<Longrightarrow> allowed_run exec ok s ps \<Longrightarrow> inv (run_ops exec s ps)"
  by (induction ps arbitrary: s) (auto intro: exec_inv)

text \<open>A property that every allowed operation keeps under the invariant survives a run.\<close>

lemma run_stable:
  assumes "inv s" and "allowed_run exec ok s ps" and "Q s"
    and "\<And>s p. inv s \<Longrightarrow> ok s p \<Longrightarrow> Q s \<Longrightarrow> Q (exec s p)"
  shows "Q (run_ops exec s ps)"
  using assms(1-3)
proof (induction ps arbitrary: s)
  case Nil
  then show ?case by simp
next
  case (Cons p ps)
  then show ?case using assms(4) exec_inv by simp
qed

end

end
