(* ===== verification/Configuration.thy ===== *)
theory Configuration
  imports Home_Prelude
begin

text \<open>
  The canonical Home configuration (\<open>domain/configuration.py\<close>): the validation that
  turns a decoded document into Rooms, Profiles, wake mappings, Devices and paired-client
  allowances. A validated configuration is a record here; \<open>candidate_record\<close> and
  \<open>snapshot_record\<close> are the dictionaries the source builds for it, with the optional
  keys left out as the source leaves them out. Every \<open>raise\<close> is a reason at a path.
\<close>

section \<open>Validated data\<close>

record room =
  room_id :: string
  room_name :: string

record profile =
  profile_id :: string
  profile_name :: string
  profile_available :: bool
  profile_shared :: bool

record wake_mapping =
  mapping_id :: string
  mapping_phrase :: string
  mapping_profile :: string
  mapping_active :: bool

record capabilities =
  wake_claim :: bool
  interactive_choice :: bool
  sensitive_entry :: bool
  consequence_confirm :: bool

record wake_admission =
  admission_endpoint :: string
  admission_mappings :: "string list"

record device =
  device_id :: string
  device_name :: string
  device_room :: string
  device_priority :: int
  device_caps :: capabilities
  device_admission :: "wake_admission option"

record client_device =
  client_id :: string
  client_choice :: bool

record configuration =
  cfg_rooms :: "room list"
  cfg_profiles :: "profile list"
  cfg_mappings :: "wake_mapping list"
  cfg_devices :: "device list"
  cfg_clients :: "client_device list"

record snapshot =
  snap_revision :: int
  snap_config :: configuration

section \<open>Errors\<close>

datatype path_step = Fld string | Idx nat

type_synonym path = "path_step list"

datatype config_reason =
    MustBeObject
  | MustBeArray
  | MustBeNonemptyArray
  | InvalidFields
  | MissingOrUnknown "string list" "string list"
  | BadText
  | MustBeBoolean
  | MustBePositiveInteger
  | MustBeNonNegativeInteger
  | DuplicateId string
  | UnknownProfile string
  | UnknownRoom string
  | BlankPhrase
  | DuplicatePhrase
  | DuplicatePriority int string
  | SecondApproval
  | AdmissionNeedsWakeClaim
  | BadAdmissionMode
  | UnavailableMapping string
  | AlsoRoomDevice string

datatype config_error = ConfigurationValidationError path config_reason

type_synonym 'a validated = "(config_error, 'a) result"

abbreviation bad :: "path \<Rightarrow> config_reason \<Rightarrow> 'a validated" where
  "bad p r \<equiv> Inl (ConfigurationValidationError p r)"

section \<open>Unicode\<close>

text \<open>
  The two Unicode tables the source asks the library for: \<open>unicodedata.normalize("NFKC", s)\<close>
  and \<open>str.casefold\<close>. They are parameters; nothing below depends on what they compute.
\<close>

record unicode =
  nfkc :: "string \<Rightarrow> string"
  casefold :: "string \<Rightarrow> string"

definition normalize_phrase :: "unicode \<Rightarrow> string \<Rightarrow> string" where
  "normalize_phrase U v = casefold U (join_with '' '' (py_split (nfkc U v)))"

section \<open>Field checks\<close>

definition CONFIGURATION_KEYS :: "string list" where
  "CONFIGURATION_KEYS = [''rooms'', ''profiles'', ''wake_mappings'', ''devices'']"

definition OPTIONAL_CONFIGURATION_KEYS :: "string list" where
  "OPTIONAL_CONFIGURATION_KEYS = [''client_devices'']"

definition SNAPSHOT_KEYS :: "string list" where
  "SNAPSHOT_KEYS = CONFIGURATION_KEYS @ [''revision'']"

fun require_mapping :: "pyval \<Rightarrow> path \<Rightarrow> pydict validated" where
  "require_mapping (PDict d) p = Inr d"
| "require_mapping v p = bad p MustBeObject"

fun require_list :: "pyval \<Rightarrow> path \<Rightarrow> pyval list validated" where
  "require_list (PList xs) p = Inr xs"
| "require_list v p = bad p MustBeArray"

definition str_keys :: "pydict \<Rightarrow> string list" where
  "str_keys d = concat (map (\<lambda>(k, v). case k of KStr s \<Rightarrow> [s] | KOther n \<Rightarrow> []) d)"

definition require_keys :: "pydict \<Rightarrow> string list \<Rightarrow> path \<Rightarrow> string list \<Rightarrow> unit validated" where
  "require_keys d expected p optional =
     (let actual = str_keys d
      in if list_ex (\<lambda>(k, v). \<not> is_str_key k) d then bad p InvalidFields
         else if \<not> (list_all (\<lambda>k. k \<in> set actual) expected
                   \<and> list_all (\<lambda>k. k \<in> set expected \<or> k \<in> set optional) actual)
         then bad p (MissingOrUnknown
           (sort (remdups (filter (\<lambda>k. k \<notin> set actual) expected)))
           (sort (remdups (filter (\<lambda>k. k \<notin> set expected \<and> k \<notin> set optional) actual))))
         else Inr ())"

fun require_id :: "pyval \<Rightarrow> path \<Rightarrow> string validated" where
  "require_id (PStr s) p = (if bounded_text_128 s then Inr s else bad p BadText)"
| "require_id v p = bad p BadText"

fun require_name :: "pyval \<Rightarrow> path \<Rightarrow> string validated" where
  "require_name (PStr s) p = (if bounded_text_128 s then Inr s else bad p BadText)"
| "require_name v p = bad p BadText"

fun require_bool :: "pyval \<Rightarrow> path \<Rightarrow> bool validated" where
  "require_bool (PBool b) p = Inr b"
| "require_bool v p = bad p MustBeBoolean"

section \<open>Rooms\<close>

definition validate_entity :: "string \<Rightarrow> nat \<Rightarrow> string list \<Rightarrow> pyval
    \<Rightarrow> (room \<times> string list) validated" where
  "validate_entity fld i seen entity =
     (let p = [Fld fld, Idx i]
      in bindE (require_mapping entity p) (\<lambda>d.
         bindE (require_keys d [''id'', ''name''] p []) (\<lambda>_.
         bindE (require_id (dfield d ''id'') (p @ [Fld ''id''])) (\<lambda>eid.
         bindE (require_name (dfield d ''name'') (p @ [Fld ''name''])) (\<lambda>nm.
         if eid \<in> set seen then bad [Fld fld] (DuplicateId eid)
         else Inr (\<lparr>room_id = eid, room_name = nm\<rparr>, eid # seen))))))"

definition validate_named_entities :: "pyval \<Rightarrow> string \<Rightarrow> room list validated" where
  "validate_named_entities v fld =
     bindE (require_list v [Fld fld]) (\<lambda>xs. scanE (validate_entity fld) 0 [] xs)"

section \<open>Profiles\<close>

definition validate_profile :: "nat \<Rightarrow> string list \<Rightarrow> pyval \<Rightarrow> (profile \<times> string list) validated" where
  "validate_profile i seen v =
     (let p = [Fld ''profiles'', Idx i]
      in bindE (require_mapping v p) (\<lambda>d.
         let keys = [''id'', ''name'', ''available''] @ (if dhas d ''shared'' then [''shared''] else [])
         in bindE (require_keys d keys p []) (\<lambda>_.
         bindE (require_id (dfield d ''id'') (p @ [Fld ''id''])) (\<lambda>pid.
         bindE (require_name (dfield d ''name'') (p @ [Fld ''name''])) (\<lambda>nm.
         bindE (require_bool (dfield d ''available'') (p @ [Fld ''available''])) (\<lambda>avail.
         bindE (require_bool (dget_or d ''shared'' (PBool False)) (p @ [Fld ''shared''])) (\<lambda>shar.
         if pid \<in> set seen then bad [Fld ''profiles''] (DuplicateId pid)
         else Inr (\<lparr>profile_id = pid, profile_name = nm, profile_available = avail,
                    profile_shared = shar\<rparr>, pid # seen))))))))"

definition validate_profiles :: "pyval \<Rightarrow> profile list validated" where
  "validate_profiles v =
     bindE (require_list v [Fld ''profiles'']) (\<lambda>xs. scanE validate_profile 0 [] xs)"

section \<open>Wake mappings\<close>

text \<open>The loop remembers the seen IDs and the normalised phrases of active mappings.\<close>

definition validate_wake_mapping :: "unicode \<Rightarrow> string list \<Rightarrow> nat
    \<Rightarrow> string list \<times> (string \<times> string) list \<Rightarrow> pyval
    \<Rightarrow> (wake_mapping \<times> string list \<times> (string \<times> string) list) validated" where
  "validate_wake_mapping U profile_ids i st v =
     (let p = [Fld ''wake_mappings'', Idx i]; seen = fst st; phrases = snd st
      in bindE (require_mapping v p) (\<lambda>d.
         bindE (require_keys d [''id'', ''phrase'', ''profile_id'', ''active''] p []) (\<lambda>_.
         bindE (require_id (dfield d ''id'') (p @ [Fld ''id''])) (\<lambda>mid.
         bindE (require_name (dfield d ''phrase'') (p @ [Fld ''phrase''])) (\<lambda>phr.
         bindE (require_id (dfield d ''profile_id'') (p @ [Fld ''profile_id''])) (\<lambda>pid.
         bindE (require_bool (dfield d ''active'') (p @ [Fld ''active''])) (\<lambda>act.
         if mid \<in> set seen then bad [Fld ''wake_mappings''] (DuplicateId mid)
         else if pid \<notin> set profile_ids then bad (p @ [Fld ''profile_id'']) (UnknownProfile pid)
         else let norm = normalize_phrase U phr
           in if norm = [] then bad (p @ [Fld ''phrase'']) BlankPhrase
              else if act \<and> map_of phrases norm \<noteq> None then bad (p @ [Fld ''phrase'']) DuplicatePhrase
              else Inr (\<lparr>mapping_id = mid, mapping_phrase = phr, mapping_profile = pid,
                         mapping_active = act\<rparr>,
                        mid # seen, if act then (norm, pid) # phrases else phrases))))))))"

definition validate_wake_mappings :: "unicode \<Rightarrow> pyval \<Rightarrow> profile list \<Rightarrow> wake_mapping list validated" where
  "validate_wake_mappings U v profiles =
     bindE (require_list v [Fld ''wake_mappings'']) (\<lambda>xs.
       scanE (validate_wake_mapping U (map profile_id profiles)) 0 ([], []) xs)"

section \<open>Devices\<close>

definition available_mapping_ids :: "wake_mapping list \<Rightarrow> profile list \<Rightarrow> string list" where
  "available_mapping_ids mappings profiles =
     (let avail = map profile_id (filter profile_available profiles)
      in map mapping_id (filter (\<lambda>m. mapping_active m \<and> mapping_profile m \<in> set avail) mappings))"

definition validate_admission_mapping :: "path \<Rightarrow> string list \<Rightarrow> nat \<Rightarrow> string list \<Rightarrow> pyval
    \<Rightarrow> (string \<times> string list) validated" where
  "validate_admission_mapping p avail i seen v =
     bindE (require_id v (p @ [Fld ''wake_mapping_ids'', Idx i])) (\<lambda>mid.
       if mid \<in> set seen then bad (p @ [Fld ''wake_mapping_ids'']) (DuplicateId mid)
       else if mid \<notin> set avail then bad (p @ [Fld ''wake_mapping_ids'']) (UnavailableMapping mid)
       else Inr (mid, mid # seen))"

fun require_nonempty_list :: "pyval \<Rightarrow> path \<Rightarrow> pyval list validated" where
  "require_nonempty_list (PList (x # xs)) p = Inr (x # xs)"
| "require_nonempty_list v p = bad p MustBeNonemptyArray"

definition validate_wake_admission :: "pyval \<Rightarrow> path \<Rightarrow> wake_mapping list \<Rightarrow> profile list
    \<Rightarrow> wake_admission validated" where
  "validate_wake_admission v p mappings profiles =
     bindE (require_mapping v p) (\<lambda>d.
     bindE (require_keys d [''mode'', ''endpoint_id'', ''wake_mapping_ids''] p []) (\<lambda>_.
     if dfield d ''mode'' \<noteq> PStr ''paired_room'' then bad (p @ [Fld ''mode'']) BadAdmissionMode
     else bindE (require_id (dfield d ''endpoint_id'') (p @ [Fld ''endpoint_id''])) (\<lambda>eid.
       bindE (require_nonempty_list (dfield d ''wake_mapping_ids'') (p @ [Fld ''wake_mapping_ids''])) (\<lambda>ids.
       bindE (scanE (validate_admission_mapping p (available_mapping_ids mappings profiles)) 0 [] ids) (\<lambda>mids.
       Inr \<lparr>admission_endpoint = eid, admission_mappings = mids\<rparr>)))))"

definition CAPABILITY_KEYS :: "string list" where
  "CAPABILITY_KEYS = [''consequence_confirm'', ''interactive_choice'', ''sensitive_entry'', ''wake_claim'']"

definition validate_capabilities :: "pyval \<Rightarrow> path \<Rightarrow> capabilities validated" where
  "validate_capabilities v p =
     bindE (require_mapping v p) (\<lambda>d.
     if list_ex (\<lambda>(k, v). \<not> is_str_key k) d \<or> ''wake_claim'' \<notin> set (str_keys d)
        \<or> \<not> list_all (\<lambda>k. k \<in> set CAPABILITY_KEYS) (str_keys d)
     then bad p InvalidFields
     else bindE (require_bool (dfield d ''wake_claim'') (p @ [Fld ''wake_claim''])) (\<lambda>wake.
       bindE (require_bool (dget_or d ''interactive_choice'' (PBool False)) (p @ [Fld ''interactive_choice''])) (\<lambda>choice.
       bindE (require_bool (dget_or d ''sensitive_entry'' (PBool False)) (p @ [Fld ''sensitive_entry''])) (\<lambda>sens.
       bindE (require_bool (dget_or d ''consequence_confirm'' (PBool False)) (p @ [Fld ''consequence_confirm''])) (\<lambda>conf.
       Inr \<lparr>wake_claim = wake, interactive_choice = choice, sensitive_entry = sens,
            consequence_confirm = conf\<rparr>)))))"

fun require_priority :: "pyval \<Rightarrow> path \<Rightarrow> int validated" where
  "require_priority (PInt n) p = (if n < 1 then bad p MustBePositiveInteger else Inr n)"
| "require_priority v p = bad p MustBePositiveInteger"

text \<open>The device loop remembers IDs, the (room, priority) pairs and whether an approval was seen.\<close>

record device_scan =
  scan_ids :: "string list"
  scan_priorities :: "(string \<times> int) list"
  scan_approval :: bool

definition validate_device :: "string list \<Rightarrow> wake_mapping list \<Rightarrow> profile list \<Rightarrow> nat
    \<Rightarrow> device_scan \<Rightarrow> pyval \<Rightarrow> (device \<times> device_scan) validated" where
  "validate_device room_ids mappings profiles i st v =
     (let p = [Fld ''devices'', Idx i]
      in bindE (require_mapping v p) (\<lambda>d.
         bindE (require_keys d [''id'', ''name'', ''room_id'', ''priority'', ''capabilities''] p
                 [''wake_admission'']) (\<lambda>_.
         bindE (require_id (dfield d ''id'') (p @ [Fld ''id''])) (\<lambda>did.
         bindE (require_name (dfield d ''name'') (p @ [Fld ''name''])) (\<lambda>nm.
         bindE (require_id (dfield d ''room_id'') (p @ [Fld ''room_id''])) (\<lambda>rid.
         bindE (require_priority (dfield d ''priority'') (p @ [Fld ''priority''])) (\<lambda>prio.
         bindE (validate_capabilities (dfield d ''capabilities'') (p @ [Fld ''capabilities''])) (\<lambda>caps.
         if did \<in> set (scan_ids st) then bad [Fld ''devices''] (DuplicateId did)
         else if rid \<notin> set room_ids then bad (p @ [Fld ''room_id'']) (UnknownRoom rid)
         else if (rid, prio) \<in> set (scan_priorities st)
         then bad [Fld ''devices''] (DuplicatePriority prio rid)
         else let st' = st\<lparr>scan_ids := did # scan_ids st,
                           scan_priorities := (rid, prio) # scan_priorities st\<rparr>;
                  dev = \<lparr>device_id = did, device_name = nm, device_room = rid,
                         device_priority = prio, device_caps = caps, device_admission = None\<rparr>
           in case dget d ''wake_admission'' of
                None \<Rightarrow> Inr (dev, st')
              | Some w \<Rightarrow>
                  if scan_approval st then bad [Fld ''devices''] SecondApproval
                  else if \<not> wake_claim caps
                  then bad (p @ [Fld ''wake_admission'']) AdmissionNeedsWakeClaim
                  else bindE (validate_wake_admission w (p @ [Fld ''wake_admission'']) mappings profiles)
                    (\<lambda>a. Inr (dev\<lparr>device_admission := Some a\<rparr>,
                             st'\<lparr>scan_approval := True\<rparr>))))))))))"

definition validate_devices :: "pyval \<Rightarrow> room list \<Rightarrow> wake_mapping list \<Rightarrow> profile list
    \<Rightarrow> device list validated" where
  "validate_devices v rooms mappings profiles =
     bindE (require_list v [Fld ''devices'']) (\<lambda>xs.
       scanE (validate_device (map room_id rooms) mappings profiles) 0
         \<lparr>scan_ids = [], scan_priorities = [], scan_approval = False\<rparr> xs)"

section \<open>Paired clients\<close>

definition validate_client_device :: "string list \<Rightarrow> nat \<Rightarrow> string list \<Rightarrow> pyval
    \<Rightarrow> (client_device \<times> string list) validated" where
  "validate_client_device room_device_ids i seen v =
     (let p = [Fld ''client_devices'', Idx i]
      in bindE (require_mapping v p) (\<lambda>d.
         bindE (require_keys d [''id'', ''capabilities''] p []) (\<lambda>_.
         bindE (require_id (dfield d ''id'') (p @ [Fld ''id''])) (\<lambda>cid.
         bindE (require_mapping (dfield d ''capabilities'') (p @ [Fld ''capabilities''])) (\<lambda>caps.
         bindE (require_keys caps [''interactive_choice''] (p @ [Fld ''capabilities'']) []) (\<lambda>_.
         bindE (require_bool (dfield caps ''interactive_choice'')
                  (p @ [Fld ''capabilities'', Fld ''interactive_choice''])) (\<lambda>choice.
         if cid \<in> set seen then bad [Fld ''client_devices''] (DuplicateId cid)
         else if cid \<in> set room_device_ids then bad (p @ [Fld ''id'']) (AlsoRoomDevice cid)
         else Inr (\<lparr>client_id = cid, client_choice = choice\<rparr>, cid # seen))))))))"

definition validate_client_devices :: "pyval \<Rightarrow> device list \<Rightarrow> client_device list validated" where
  "validate_client_devices v devices =
     bindE (require_list v [Fld ''client_devices'']) (\<lambda>xs.
       scanE (validate_client_device (map device_id devices)) 0 [] xs)"

section \<open>Candidates and snapshots\<close>

definition validate_candidate :: "unicode \<Rightarrow> pyval \<Rightarrow> configuration validated" where
  "validate_candidate U candidate =
     bindE (require_mapping candidate [Fld ''configuration'']) (\<lambda>d.
     bindE (require_keys d CONFIGURATION_KEYS [Fld ''configuration''] OPTIONAL_CONFIGURATION_KEYS) (\<lambda>_.
     bindE (validate_named_entities (dfield d ''rooms'') ''rooms'') (\<lambda>rooms.
     bindE (validate_profiles (dfield d ''profiles'')) (\<lambda>profiles.
     bindE (validate_wake_mappings U (dfield d ''wake_mappings'') profiles) (\<lambda>mappings.
     bindE (validate_devices (dfield d ''devices'') rooms mappings profiles) (\<lambda>devices.
     bindE (validate_client_devices (dget_or d ''client_devices'' (PList [])) devices) (\<lambda>clients.
     Inr \<lparr>cfg_rooms = rooms, cfg_profiles = profiles, cfg_mappings = mappings,
          cfg_devices = devices, cfg_clients = clients\<rparr>)))))))"

fun require_revision :: "pyval \<Rightarrow> int validated" where
  "require_revision (PInt n) =
     (if n < 0 then bad [Fld ''snapshot'', Fld ''revision''] MustBeNonNegativeInteger else Inr n)"
| "require_revision v = bad [Fld ''snapshot'', Fld ''revision''] MustBeNonNegativeInteger"

definition validate_snapshot :: "unicode \<Rightarrow> pyval \<Rightarrow> snapshot validated" where
  "validate_snapshot U v =
     bindE (require_mapping v [Fld ''snapshot'']) (\<lambda>d.
     bindE (require_keys d SNAPSHOT_KEYS [Fld ''snapshot''] OPTIONAL_CONFIGURATION_KEYS) (\<lambda>_.
     bindE (require_revision (dfield d ''revision'')) (\<lambda>rev.
     bindE (validate_candidate U (obj
        ([(''rooms'', dfield d ''rooms''), (''profiles'', dfield d ''profiles''),
          (''wake_mappings'', dfield d ''wake_mappings''), (''devices'', dfield d ''devices'')]
         @ (case dget d ''client_devices'' of None \<Rightarrow> [] | Some c \<Rightarrow> [(''client_devices'', c)])))) (\<lambda>cfg.
     Inr \<lparr>snap_revision = rev, snap_config = cfg\<rparr>))))"

section \<open>The dictionaries the source builds\<close>

definition room_record :: "room \<Rightarrow> pyval" where
  "room_record r = obj [(''id'', PStr (room_id r)), (''name'', PStr (room_name r))]"

definition profile_record :: "profile \<Rightarrow> pyval" where
  "profile_record p = obj
     ([(''id'', PStr (profile_id p)), (''name'', PStr (profile_name p)),
       (''available'', PBool (profile_available p))]
      @ (if profile_shared p then [(''shared'', PBool True)] else []))"

definition mapping_record :: "wake_mapping \<Rightarrow> pyval" where
  "mapping_record m = obj
     [(''id'', PStr (mapping_id m)), (''phrase'', PStr (mapping_phrase m)),
      (''profile_id'', PStr (mapping_profile m)), (''active'', PBool (mapping_active m))]"

definition capabilities_record :: "capabilities \<Rightarrow> pyval" where
  "capabilities_record c = obj
     ([(''wake_claim'', PBool (wake_claim c))]
      @ (if interactive_choice c then [(''interactive_choice'', PBool True)] else [])
      @ (if sensitive_entry c then [(''sensitive_entry'', PBool True)] else [])
      @ (if consequence_confirm c then [(''consequence_confirm'', PBool True)] else []))"

definition admission_record :: "wake_admission \<Rightarrow> pyval" where
  "admission_record a = obj
     [(''mode'', PStr ''paired_room''), (''endpoint_id'', PStr (admission_endpoint a)),
      (''wake_mapping_ids'', PList (map PStr (admission_mappings a)))]"

definition device_record :: "device \<Rightarrow> pyval" where
  "device_record d = obj
     ([(''id'', PStr (device_id d)), (''name'', PStr (device_name d)),
       (''room_id'', PStr (device_room d)), (''priority'', PInt (device_priority d)),
       (''capabilities'', capabilities_record (device_caps d))]
      @ (case device_admission d of None \<Rightarrow> [] | Some a \<Rightarrow> [(''wake_admission'', admission_record a)]))"

definition client_record :: "client_device \<Rightarrow> pyval" where
  "client_record c = obj
     [(''id'', PStr (client_id c)),
      (''capabilities'', obj [(''interactive_choice'', PBool (client_choice c))])]"

definition config_fields :: "configuration \<Rightarrow> (string \<times> pyval) list" where
  "config_fields c =
     [(''rooms'', PList (map room_record (cfg_rooms c))),
      (''profiles'', PList (map profile_record (cfg_profiles c))),
      (''wake_mappings'', PList (map mapping_record (cfg_mappings c))),
      (''devices'', PList (map device_record (cfg_devices c)))]
     @ (if cfg_clients c = [] then [] else [(''client_devices'', PList (map client_record (cfg_clients c)))])"

definition candidate_record :: "configuration \<Rightarrow> pyval" where
  "candidate_record c = obj (config_fields c)"

definition snapshot_record :: "snapshot \<Rightarrow> pyval" where
  "snapshot_record s = obj ((''revision'', PInt (snap_revision s)) # config_fields (snap_config s))"

section \<open>Well-formed configurations\<close>

text \<open>What the service may rely on once a document has been accepted.\<close>

definition wf_rooms :: "room list \<Rightarrow> bool" where
  "wf_rooms rs \<longleftrightarrow> distinct (map room_id rs)
     \<and> list_all (\<lambda>r. bounded_text_128 (room_id r) \<and> bounded_text_128 (room_name r)) rs"

definition wf_profiles :: "profile list \<Rightarrow> bool" where
  "wf_profiles ps \<longleftrightarrow> distinct (map profile_id ps)
     \<and> list_all (\<lambda>p. bounded_text_128 (profile_id p) \<and> bounded_text_128 (profile_name p)) ps"

definition wf_mapping :: "unicode \<Rightarrow> string set \<Rightarrow> wake_mapping \<Rightarrow> bool" where
  "wf_mapping U pids m \<longleftrightarrow> bounded_text_128 (mapping_id m) \<and> bounded_text_128 (mapping_phrase m)
     \<and> bounded_text_128 (mapping_profile m) \<and> mapping_profile m \<in> pids
     \<and> normalize_phrase U (mapping_phrase m) \<noteq> []"

definition active_phrases :: "unicode \<Rightarrow> wake_mapping list \<Rightarrow> string list" where
  "active_phrases U ms = map (\<lambda>m. normalize_phrase U (mapping_phrase m)) (filter mapping_active ms)"

definition wf_mappings :: "unicode \<Rightarrow> profile list \<Rightarrow> wake_mapping list \<Rightarrow> bool" where
  "wf_mappings U ps ms \<longleftrightarrow> distinct (map mapping_id ms) \<and> distinct (active_phrases U ms)
     \<and> list_all (wf_mapping U (set (map profile_id ps))) ms"

definition wf_admission :: "string list \<Rightarrow> wake_admission \<Rightarrow> bool" where
  "wf_admission avail a \<longleftrightarrow> bounded_text_128 (admission_endpoint a) \<and> admission_mappings a \<noteq> []
     \<and> distinct (admission_mappings a)
     \<and> list_all (\<lambda>m. bounded_text_128 m \<and> m \<in> set avail) (admission_mappings a)"

definition wf_device :: "string set \<Rightarrow> string list \<Rightarrow> device \<Rightarrow> bool" where
  "wf_device rids avail d \<longleftrightarrow> bounded_text_128 (device_id d) \<and> bounded_text_128 (device_name d)
     \<and> bounded_text_128 (device_room d) \<and> device_room d \<in> rids \<and> 1 \<le> device_priority d
     \<and> (case device_admission d of None \<Rightarrow> True
         | Some a \<Rightarrow> wake_claim (device_caps d) \<and> wf_admission avail a)"

definition room_priorities :: "device list \<Rightarrow> (string \<times> int) list" where
  "room_priorities ds = map (\<lambda>d. (device_room d, device_priority d)) ds"

definition approvals :: "device list \<Rightarrow> device list" where
  "approvals ds = filter (\<lambda>d. device_admission d \<noteq> None) ds"

definition wf_devices :: "room list \<Rightarrow> string list \<Rightarrow> device list \<Rightarrow> bool" where
  "wf_devices rs avail ds \<longleftrightarrow> distinct (map device_id ds) \<and> distinct (room_priorities ds)
     \<and> length (approvals ds) \<le> 1 \<and> list_all (wf_device (set (map room_id rs)) avail) ds"

definition wf_clients :: "device list \<Rightarrow> client_device list \<Rightarrow> bool" where
  "wf_clients ds cs \<longleftrightarrow> distinct (map client_id cs)
     \<and> list_all (\<lambda>c. bounded_text_128 (client_id c) \<and> client_id c \<notin> set (map device_id ds)) cs"

definition wf_configuration :: "unicode \<Rightarrow> configuration \<Rightarrow> bool" where
  "wf_configuration U c \<longleftrightarrow> wf_rooms (cfg_rooms c) \<and> wf_profiles (cfg_profiles c)
     \<and> wf_mappings U (cfg_profiles c) (cfg_mappings c)
     \<and> wf_devices (cfg_rooms c) (available_mapping_ids (cfg_mappings c) (cfg_profiles c)) (cfg_devices c)
     \<and> wf_clients (cfg_devices c) (cfg_clients c)"

section \<open>Field lemmas\<close>

lemma require_mapping_eq_Inr [result_simps]: "require_mapping v p = Inr d \<longleftrightarrow> v = PDict d"
  by (cases v) auto

lemma require_list_eq_Inr [result_simps]: "require_list v p = Inr xs \<longleftrightarrow> v = PList xs"
  by (cases v) auto

lemma require_id_eq_Inr [result_simps]: "require_id v p = Inr s \<longleftrightarrow> v = PStr s \<and> bounded_text_128 s"
  by (cases v) auto

lemma require_name_eq_Inr [result_simps]: "require_name v p = Inr s \<longleftrightarrow> v = PStr s \<and> bounded_text_128 s"
  by (cases v) auto

lemma require_bool_eq_Inr [result_simps]: "require_bool v p = Inr b \<longleftrightarrow> v = PBool b"
  by (cases v) auto

lemma require_priority_eq_Inr [result_simps]: "require_priority v p = Inr n \<longleftrightarrow> v = PInt n \<and> 1 \<le> n"
  by (cases v) auto

lemma require_revision_eq_Inr [result_simps]: "require_revision v = Inr n \<longleftrightarrow> v = PInt n \<and> 0 \<le> n"
  by (cases v) auto

lemma require_nonempty_list_eq_Inr [result_simps]:
  "require_nonempty_list v p = Inr xs \<longleftrightarrow> v = PList xs \<and> xs \<noteq> []"
  by (cases "(v, p)" rule: require_nonempty_list.cases) auto

lemma str_keys_simps [decode_simps]:
  "str_keys [] = []" "str_keys ((KStr k, v) # d) = k # str_keys d"
  "str_keys ((KOther n, v) # d) = str_keys d"
  by (simp_all add: str_keys_def)

section \<open>Accepted documents are well-formed\<close>

lemma validate_named_entities_wf:
  assumes "validate_named_entities v f = Inr rs"
  shows "wf_rooms rs"
proof -
  from assms obtain xs where loop: "scanE (validate_entity f) 0 [] xs = Inr rs"
    by (auto simp: validate_named_entities_def result_simps)
  let ?P = "\<lambda>acc seen. set seen = set (map room_id acc) \<and> wf_rooms acc"
  have "\<exists>s'. ?P ([] @ rs) s'"
    by (rule scanE_invariant [OF loop, where P = ?P])
      (auto simp: wf_rooms_def validate_entity_def Let_def result_simps split: if_splits)
  then show ?thesis by simp
qed

lemma validate_profiles_wf:
  assumes "validate_profiles v = Inr ps"
  shows "wf_profiles ps"
proof -
  from assms obtain xs where loop: "scanE validate_profile 0 [] xs = Inr ps"
    by (auto simp: validate_profiles_def result_simps)
  let ?P = "\<lambda>acc seen. set seen = set (map profile_id acc) \<and> wf_profiles acc"
  have "\<exists>s'. ?P ([] @ ps) s'"
    by (rule scanE_invariant [OF loop, where P = ?P])
      (auto simp: wf_profiles_def validate_profile_def Let_def result_simps split: if_splits)
  then show ?thesis by simp
qed

lemma validate_wake_mapping_step:
  assumes "validate_wake_mapping U pids i st v = Inr (m, st')"
  shows "wf_mapping U (set pids) m \<and> mapping_id m \<notin> set (fst st) \<and> fst st' = mapping_id m # fst st
    \<and> map fst (snd st') = (if mapping_active m then [normalize_phrase U (mapping_phrase m)] else [])
        @ map fst (snd st)
    \<and> (mapping_active m \<longrightarrow> normalize_phrase U (mapping_phrase m) \<notin> set (map fst (snd st)))"
  using assms
  by (auto simp: wf_mapping_def validate_wake_mapping_def Let_def result_simps map_of_eq_None_iff
      split: if_splits) force

lemma validate_wake_mappings_wf:
  assumes "validate_wake_mappings U v ps = Inr ms"
  shows "wf_mappings U ps ms"
proof -
  from assms obtain xs where
    loop: "scanE (validate_wake_mapping U (map profile_id ps)) 0 ([], []) xs = Inr ms"
    by (auto simp: validate_wake_mappings_def result_simps)
  let ?P = "\<lambda>acc (st :: string list \<times> (string \<times> string) list).
    set (fst st) = set (map mapping_id acc)
    \<and> set (map fst (snd st)) = set (active_phrases U acc) \<and> wf_mappings U ps acc"
  have "\<exists>s'. ?P ([] @ ms) s'"
  proof (rule scanE_invariant [OF loop, where P = ?P], goal_cases)
    case 1
    show ?case by (simp add: wf_mappings_def active_phrases_def)
  next
    case (2 i acc st x m st')
    from 2(1) validate_wake_mapping_step [OF 2(2)] show ?case
      by (cases "mapping_active m") (auto simp: wf_mappings_def active_phrases_def)
  qed
  then show ?thesis by auto
qed

lemma validate_wake_admission_wf:
  assumes "validate_wake_admission v p ms ps = Inr a"
  shows "wf_admission (available_mapping_ids ms ps) a"
proof -
  from assms obtain ids mids where
    loop: "scanE (validate_admission_mapping p (available_mapping_ids ms ps)) 0 [] ids = Inr mids"
    and ids: "ids \<noteq> []" and mids: "admission_mappings a = mids"
    and eid: "bounded_text_128 (admission_endpoint a)"
    by (auto simp: validate_wake_admission_def result_simps split: if_splits)
  let ?P = "\<lambda>acc seen. set seen = set acc \<and> distinct acc
    \<and> list_all (\<lambda>m. bounded_text_128 m \<and> m \<in> set (available_mapping_ids ms ps)) acc"
  have "\<exists>s'. ?P ([] @ mids) s'"
  proof (rule scanE_invariant [OF loop, where P = ?P], goal_cases)
    case 1
    show ?case by simp
  next
    case (2 i acc seen x m seen')
    from 2(2) have "bounded_text_128 m" "m \<notin> set seen"
      "m \<in> set (available_mapping_ids ms ps)" "seen' = m # seen"
      by (auto simp: validate_admission_mapping_def result_simps split: if_splits)
    with 2(1) show ?case by auto
  qed
  moreover have "mids \<noteq> []"
    using loop ids by (cases ids) (auto simp: result_simps)
  ultimately show ?thesis using mids eid by (simp add: wf_admission_def)
qed

lemma validate_device_step:
  assumes "validate_device rids ms ps i st v = Inr (d, st')"
  shows "wf_device (set rids) (available_mapping_ids ms ps) d
    \<and> device_id d \<notin> set (scan_ids st) \<and> scan_ids st' = device_id d # scan_ids st
    \<and> (device_room d, device_priority d) \<notin> set (scan_priorities st)
    \<and> scan_priorities st' = (device_room d, device_priority d) # scan_priorities st
    \<and> (device_admission d \<noteq> None \<longrightarrow> \<not> scan_approval st)
    \<and> scan_approval st' = (scan_approval st \<or> device_admission d \<noteq> None)"
  using assms
  by (auto simp: validate_device_def Let_def result_simps wf_device_def
      split: if_splits option.splits dest: validate_wake_admission_wf)

lemma validate_devices_wf:
  assumes "validate_devices v rs ms ps = Inr ds"
  shows "wf_devices rs (available_mapping_ids ms ps) ds"
proof -
  let ?f = "validate_device (map room_id rs) ms ps"
  from assms obtain xs where
    loop: "scanE ?f 0 \<lparr>scan_ids = [], scan_priorities = [], scan_approval = False\<rparr> xs = Inr ds"
    by (auto simp: validate_devices_def result_simps)
  let ?P = "\<lambda>acc (st :: device_scan). set (scan_ids st) = set (map device_id acc)
    \<and> set (scan_priorities st) = set (room_priorities acc)
    \<and> (approvals acc \<noteq> [] \<longrightarrow> scan_approval st)
    \<and> wf_devices rs (available_mapping_ids ms ps) acc"
  have "\<exists>s'. ?P ([] @ ds) s'"
  proof (rule scanE_invariant [OF loop, where P = ?P], goal_cases)
    case 1
    show ?case by (simp add: wf_devices_def room_priorities_def approvals_def)
  next
    case (2 i acc st x d st')
    note step = validate_device_step [OF 2(2)]
    from 2(1) step show ?case
      by (auto simp: wf_devices_def room_priorities_def approvals_def)
  qed
  then show ?thesis by auto
qed

lemma validate_client_devices_wf:
  assumes "validate_client_devices v ds = Inr cs"
  shows "wf_clients ds cs"
proof -
  from assms obtain xs where
    loop: "scanE (validate_client_device (map device_id ds)) 0 [] xs = Inr cs"
    by (auto simp: validate_client_devices_def result_simps)
  let ?P = "\<lambda>acc seen. set seen = set (map client_id acc) \<and> wf_clients ds acc"
  have "\<exists>s'. ?P ([] @ cs) s'"
    by (rule scanE_invariant [OF loop, where P = ?P])
      (auto simp: wf_clients_def validate_client_device_def Let_def result_simps split: if_splits)
  then show ?thesis by simp
qed

lemma validate_candidate_sound:
  assumes "validate_candidate U v = Inr c"
  shows "wf_configuration U c"
  using assms
  by (auto simp: validate_candidate_def wf_configuration_def result_simps
      dest: validate_named_entities_wf validate_profiles_wf validate_wake_mappings_wf
        validate_devices_wf validate_client_devices_wf)

section \<open>Well-formed configurations are accepted\<close>

lemma require_bool_PBool [simp]: "require_bool (PBool b) p = Inr b"
  by simp

lemmas encoded_simps = obj_def require_keys_def str_keys_simps dget_Nil dget_Cons dhas_iff
  dget_or_def dfield_def Let_def

lemma validate_named_entities_encoded:
  assumes "wf_rooms rs"
  shows "validate_named_entities (PList (map room_record rs)) f = Inr rs"
proof -
  let ?P = "\<lambda>acc seen. set seen = set (map room_id acc)"
  have "scanE (validate_entity f) 0 [] (map room_record rs) = Inr rs"
    by (rule scanE_encoded [where P = ?P])
      (use assms in \<open>auto simp: wf_rooms_def room_record_def validate_entity_def encoded_simps\<close>)
  then show ?thesis by (simp add: validate_named_entities_def)
qed

lemma validate_profiles_encoded:
  assumes "wf_profiles ps"
  shows "validate_profiles (PList (map profile_record ps)) = Inr ps"
proof -
  let ?P = "\<lambda>acc seen. set seen = set (map profile_id acc)"
  have "scanE validate_profile 0 [] (map profile_record ps) = Inr ps"
    by (rule scanE_encoded [where P = ?P])
      (use assms in \<open>auto simp: wf_profiles_def profile_record_def validate_profile_def encoded_simps\<close>)
  then show ?thesis by (simp add: validate_profiles_def)
qed

lemma validate_wake_mappings_encoded:
  assumes "wf_mappings U ps ms"
  shows "validate_wake_mappings U (PList (map mapping_record ms)) ps = Inr ms"
proof -
  let ?P = "\<lambda>acc (st :: string list \<times> (string \<times> string) list).
    set (fst st) = set (map mapping_id acc) \<and> set (map fst (snd st)) = set (active_phrases U acc)"
  have "scanE (validate_wake_mapping U (map profile_id ps)) 0 ([], []) (map mapping_record ms) = Inr ms"
    by (rule scanE_encoded [where P = ?P])
      (use assms in \<open>auto simp: wf_mappings_def wf_mapping_def active_phrases_def mapping_record_def
         validate_wake_mapping_def encoded_simps map_of_eq_None_iff\<close>)
  then show ?thesis by (simp add: validate_wake_mappings_def)
qed

lemma validate_wake_admission_encoded:
  assumes "wf_admission (available_mapping_ids ms ps) a"
  shows "validate_wake_admission (admission_record a) p ms ps = Inr a"
proof -
  obtain eid mids where a: "a = \<lparr>admission_endpoint = eid, admission_mappings = mids\<rparr>"
    by (cases a)
  let ?P = "\<lambda>acc seen. set seen = set acc"
  have "scanE (validate_admission_mapping p (available_mapping_ids ms ps)) 0 [] (map PStr mids)
      = Inr mids"
    by (rule scanE_encoded [where P = ?P])
      (use assms in \<open>auto simp: a wf_admission_def validate_admission_mapping_def\<close>)
  moreover have "require_nonempty_list (PList (map PStr mids)) q = Inr (map PStr mids)" for q
    using assms by (simp add: a wf_admission_def require_nonempty_list_eq_Inr)
  ultimately show ?thesis using assms
    by (simp add: a validate_wake_admission_def admission_record_def encoded_simps wf_admission_def)
qed

lemma validate_capabilities_encoded: "validate_capabilities (capabilities_record c) p = Inr c"
  by (cases c) (simp add: validate_capabilities_def capabilities_record_def encoded_simps CAPABILITY_KEYS_def)

lemma validate_device_encoded:
  assumes "wf_device (set rids) (available_mapping_ids ms ps) d"
    and "device_id d \<notin> set (scan_ids st)"
    and "(device_room d, device_priority d) \<notin> set (scan_priorities st)"
    and "device_admission d \<noteq> None \<longrightarrow> \<not> scan_approval st"
  shows "\<exists>st'. validate_device rids ms ps i st (device_record d) = Inr (d, st')
    \<and> scan_ids st' = device_id d # scan_ids st
    \<and> scan_priorities st' = (device_room d, device_priority d) # scan_priorities st
    \<and> scan_approval st' = (scan_approval st \<or> device_admission d \<noteq> None)"
proof (cases "device_admission d")
  case None
  with assms show ?thesis
    by (cases d) (simp add: validate_device_def device_record_def encoded_simps wf_device_def
        validate_capabilities_encoded)
next
  case (Some a)
  with assms show ?thesis
    by (cases d) (simp add: validate_device_def device_record_def encoded_simps wf_device_def
        validate_capabilities_encoded validate_wake_admission_encoded)
qed

lemma validate_devices_encoded:
  assumes "wf_devices rs (available_mapping_ids ms ps) ds"
  shows "validate_devices (PList (map device_record ds)) rs ms ps = Inr ds"
proof -
  let ?P = "\<lambda>acc (st :: device_scan). set (scan_ids st) = set (map device_id acc)
    \<and> set (scan_priorities st) = set (room_priorities acc)
    \<and> (scan_approval st \<longleftrightarrow> approvals acc \<noteq> [])"
  have "scanE (validate_device (map room_id rs) ms ps) 0
      \<lparr>scan_ids = [], scan_priorities = [], scan_approval = False\<rparr> (map device_record ds) = Inr ds"
  proof (rule scanE_encoded [where P = ?P], goal_cases)
    case 1
    show ?case by (simp add: room_priorities_def approvals_def)
  next
    case (2 i acc st d rest)
    have "device_admission d \<noteq> None \<longrightarrow> \<not> scan_approval st"
      using assms 2 by (auto simp: wf_devices_def approvals_def)
    moreover have "wf_device (set (map room_id rs)) (available_mapping_ids ms ps) d"
      "device_id d \<notin> set (scan_ids st)" "(device_room d, device_priority d) \<notin> set (scan_priorities st)"
      using assms 2 by (auto simp: wf_devices_def room_priorities_def)
    ultimately show ?case
      using validate_device_encoded [of "map room_id rs" ms ps d st i] 2(1)
      by (auto simp: room_priorities_def approvals_def)
  qed
  then show ?thesis by (simp add: validate_devices_def)
qed

lemma validate_client_devices_encoded:
  assumes "wf_clients ds cs"
  shows "validate_client_devices (PList (map client_record cs)) ds = Inr cs"
proof -
  let ?P = "\<lambda>acc seen. set seen = set (map client_id acc)"
  have "scanE (validate_client_device (map device_id ds)) 0 [] (map client_record cs) = Inr cs"
    by (rule scanE_encoded [where P = ?P])
      (use assms in \<open>auto simp: wf_clients_def client_record_def validate_client_device_def encoded_simps\<close>)
  then show ?thesis by (simp add: validate_client_devices_def)
qed

lemma config_fields_keys:
  "dget (map (\<lambda>(k, v). (KStr k, v)) (config_fields c)) ''client_devices'' =
     (if cfg_clients c = [] then None else Some (PList (map client_record (cfg_clients c))))"
  by (simp add: config_fields_def decode_simps)

lemmas encoded_validators = validate_named_entities_encoded validate_profiles_encoded
  validate_wake_mappings_encoded validate_devices_encoded validate_client_devices_encoded

lemma validate_candidate_complete:
  assumes "wf_configuration U c"
  shows "validate_candidate U (candidate_record c) = Inr c"
proof -
  have clients: "validate_client_devices (PList []) (cfg_devices c) = Inr []"
    by (simp add: validate_client_devices_def)
  show ?thesis
    using assms
    by (cases "cfg_clients c = []")
      (simp_all add: validate_candidate_def candidate_record_def config_fields_def encoded_simps
        CONFIGURATION_KEYS_def OPTIONAL_CONFIGURATION_KEYS_def wf_configuration_def
        encoded_validators clients)
qed

lemma validate_snapshot_sound:
  "validate_snapshot U v = Inr s \<Longrightarrow> wf_configuration U (snap_config s) \<and> 0 \<le> snap_revision s"
  by (auto simp: validate_snapshot_def result_simps dest: validate_candidate_sound)

lemma validate_snapshot_complete:
  assumes "wf_configuration U (snap_config s)" and "0 \<le> snap_revision s"
  shows "validate_snapshot U (snapshot_record s) = Inr s"
proof -
  obtain rev c where s: "s = \<lparr>snap_revision = rev, snap_config = c\<rparr>" by (cases s)
  have "validate_candidate U (obj (config_fields c)) = Inr c"
    using validate_candidate_complete [OF assms(1)] s by (simp add: candidate_record_def)
  then show ?thesis
    using assms(2)
    by (cases "cfg_clients c = []")
      (simp_all add: s validate_snapshot_def snapshot_record_def config_fields_def encoded_simps
        SNAPSHOT_KEYS_def CONFIGURATION_KEYS_def OPTIONAL_CONFIGURATION_KEYS_def)
qed

section \<open>An example household\<close>

definition demo_unicode :: unicode where
  "demo_unicode = \<lparr>nfkc = id, casefold = id\<rparr>"

definition demo_config :: configuration where
  "demo_config = \<lparr>cfg_rooms = [\<lparr>room_id = ''kitchen'', room_name = ''Kitchen''\<rparr>],
     cfg_profiles = [\<lparr>profile_id = ''ada'', profile_name = ''Ada'', profile_available = True, profile_shared = True\<rparr>],
     cfg_mappings = [\<lparr>mapping_id = ''wake'', mapping_phrase = ''ada'', mapping_profile = ''ada'', mapping_active = True\<rparr>],
     cfg_devices = [\<lparr>device_id = ''puck'', device_name = ''Puck'', device_room = ''kitchen'', device_priority = 1,
       device_caps = \<lparr>wake_claim = True, interactive_choice = False, sensitive_entry = False,
         consequence_confirm = False\<rparr>,
       device_admission = Some \<lparr>admission_endpoint = ''ep'', admission_mappings = [''wake'']\<rparr>\<rparr>],
     cfg_clients = [\<lparr>client_id = ''phone'', client_choice = True\<rparr>]\<rparr>"

definition demo_snapshot :: snapshot where
  "demo_snapshot = \<lparr>snap_revision = 1, snap_config = demo_config\<rparr>"

lemma demo_phrase: "normalize_phrase demo_unicode ''ada'' = ''ada''"
  by (simp add: normalize_phrase_def demo_unicode_def py_split.simps py_isspace_def ord_of_def)

lemma demo_config_wf: "wf_configuration demo_unicode demo_config"
  by (simp add: wf_configuration_def demo_config_def wf_rooms_def wf_profiles_def wf_mappings_def
      wf_mapping_def active_phrases_def demo_phrase wf_devices_def wf_device_def wf_admission_def
      room_priorities_def approvals_def wf_clients_def bounded_text_128_def available_mapping_ids_def)

lemma demo_snapshot_valid: "validate_snapshot demo_unicode (snapshot_record demo_snapshot) = Inr demo_snapshot"
  by (rule validate_snapshot_complete) (simp_all add: demo_snapshot_def demo_config_wf)

section \<open>What validation guarantees\<close>


text \<open>
  C32. Validating a snapshot is idempotent: the dictionary built for an accepted snapshot is
  accepted again and gives the same revision and configuration.
\<close>

theorem snapshot_revalidates:
  assumes "validate_snapshot U v = Inr s"
  shows "validate_snapshot U (snapshot_record s) = Inr s"
  using validate_snapshot_sound [OF assms] by (simp add: validate_snapshot_complete)

theorem snapshot_revalidates_witness:
  "validate_snapshot demo_unicode (snapshot_record demo_snapshot) = Inr demo_snapshot"
  by (rule snapshot_revalidates [OF demo_snapshot_valid])

lemma ex1_key: "distinct (map f xs) \<Longrightarrow> k \<in> f ` set xs \<Longrightarrow> \<exists>!x. x \<in> set xs \<and> f x = k"
  using distinct_map_unique by (metis imageE)

lemma at_most_one: "length (filter p xs) \<le> 1 \<Longrightarrow> x \<in> set xs \<Longrightarrow> p x \<Longrightarrow> y \<in> set xs \<Longrightarrow> p y \<Longrightarrow> x = y"
  by (induction xs) (auto simp: Suc_le_eq filter_empty_conv split: if_splits)

text \<open>
  In an accepted configuration every Device lies in exactly one configured Room and
  every wake mapping leads to exactly one Profile; two Devices of a Room never share a
  priority, so arbitration by priority is decisive between them; two active mappings never
  share a normalised phrase; at most one Device has a paired-room approval, and its approved
  mappings are active mappings whose Profile is available.
\<close>

lemma accepted_references_resolve:
  assumes "validate_candidate U v = Inr c"
  shows "(\<forall>d \<in> set (cfg_devices c). \<exists>!r. r \<in> set (cfg_rooms c) \<and> room_id r = device_room d)
    \<and> (\<forall>m \<in> set (cfg_mappings c). \<exists>!p. p \<in> set (cfg_profiles c) \<and> profile_id p = mapping_profile m)
    \<and> (\<forall>d \<in> set (cfg_devices c). \<forall>d' \<in> set (cfg_devices c).
         device_room d = device_room d' \<longrightarrow> device_priority d = device_priority d' \<longrightarrow> d = d')
    \<and> (\<forall>m \<in> set (cfg_mappings c). \<forall>m' \<in> set (cfg_mappings c). mapping_active m \<longrightarrow> mapping_active m' \<longrightarrow>
         normalize_phrase U (mapping_phrase m) = normalize_phrase U (mapping_phrase m') \<longrightarrow> m = m')
    \<and> (\<forall>d \<in> set (cfg_devices c). \<forall>d' \<in> set (cfg_devices c).
         device_admission d \<noteq> None \<longrightarrow> device_admission d' \<noteq> None \<longrightarrow> d = d')
    \<and> (\<forall>d \<in> set (cfg_devices c). \<forall>a. device_admission d = Some a \<longrightarrow> wake_claim (device_caps d)
         \<and> (\<forall>i \<in> set (admission_mappings a). \<exists>m \<in> set (cfg_mappings c). \<exists>p \<in> set (cfg_profiles c).
              mapping_id m = i \<and> mapping_active m \<and> profile_id p = mapping_profile m \<and> profile_available p))"
proof -
  from validate_candidate_sound [OF assms] have
    rooms: "distinct (map room_id (cfg_rooms c))" and profs: "distinct (map profile_id (cfg_profiles c))"
    and maps: "wf_mappings U (cfg_profiles c) (cfg_mappings c)"
    and devs: "wf_devices (cfg_rooms c) (available_mapping_ids (cfg_mappings c) (cfg_profiles c)) (cfg_devices c)"
    by (auto simp: wf_configuration_def wf_rooms_def wf_profiles_def)
  show ?thesis
  proof (intro conjI ballI allI impI)
    fix d assume d: "d \<in> set (cfg_devices c)"
    with devs have wf: "wf_device (set (map room_id (cfg_rooms c)))
        (available_mapping_ids (cfg_mappings c) (cfg_profiles c)) d"
      by (auto simp: wf_devices_def list_all_iff)
    then show "\<exists>!r. r \<in> set (cfg_rooms c) \<and> room_id r = device_room d"
      using ex1_key [OF rooms] by (simp add: wf_device_def)
    show "d = d'" if "d' \<in> set (cfg_devices c)" "device_room d = device_room d'"
      "device_priority d = device_priority d'" for d'
      using distinct_map_unique [of _ "cfg_devices c" d d'] devs d that
      by (auto simp: wf_devices_def room_priorities_def)
    show "d = d'" if "d' \<in> set (cfg_devices c)" "device_admission d \<noteq> None" "device_admission d' \<noteq> None" for d'
      using at_most_one [of _ "cfg_devices c" d d'] devs d that
      by (auto simp: wf_devices_def approvals_def)
    fix a assume a: "device_admission d = Some a"
    with wf show "wake_claim (device_caps d)" by (simp add: wf_device_def)
    fix i assume "i \<in> set (admission_mappings a)"
    with wf a show "\<exists>m \<in> set (cfg_mappings c). \<exists>p \<in> set (cfg_profiles c).
        mapping_id m = i \<and> mapping_active m \<and> profile_id p = mapping_profile m \<and> profile_available p"
      by (fastforce simp: wf_device_def wf_admission_def list_all_iff available_mapping_ids_def)
  next
    fix m assume m: "m \<in> set (cfg_mappings c)"
    with maps show "\<exists>!p. p \<in> set (cfg_profiles c) \<and> profile_id p = mapping_profile m"
      using ex1_key [OF profs] by (auto simp: wf_mappings_def wf_mapping_def list_all_iff)
    show "m = m'" if "m' \<in> set (cfg_mappings c)" "mapping_active m" "mapping_active m'"
      "normalize_phrase U (mapping_phrase m) = normalize_phrase U (mapping_phrase m')" for m'
      using distinct_map_unique [of _ "filter mapping_active (cfg_mappings c)" m m'] maps m that
      by (auto simp: wf_mappings_def active_phrases_def)
  qed
qed

lemma accepted_references_resolve_witness:
  "\<exists>!r. r \<in> set (cfg_rooms demo_config) \<and> room_id r = ''kitchen''"
  using accepted_references_resolve [OF validate_candidate_complete [OF demo_config_wf]]
  by (simp add: demo_config_def)

end
