(* ===== verification/Arbitration.thy ===== *)
theory Arbitration
  imports Configuration
begin

text \<open>
  Wake-claim arbitration (\<open>domain/arbitration.py\<close>): claims of one Room collect in a bounded
  round, and a finalised round grants exactly one of them. The engine's lock makes every
  method one step, so each is a function on the engine state. The clock reading, the
  value the configuration source returned and the \<open>n\<close>-th value of
  \<open>arbitration_id_factory\<close> are arguments.
\<close>

section \<open>Data\<close>

datatype claim_decision = Granted | Denied

datatype claim_kind = WakeClaim | TouchClaim | PairedRoomClaim

record claim_submission =
  sub_claim_id :: string
  sub_accepted :: bool
  sub_deadline :: "rat option"
  sub_reason :: "string option"
  sub_current_revision :: "int option"

record wake_decision =
  dec_claim_id :: string
  dec_decision :: claim_decision
  dec_arbitration_id :: string
  dec_revision :: int
  dec_reason :: "string option"
  dec_device :: string
  dec_room :: string
  dec_mapping :: string
  dec_profile :: string
  dec_kind :: claim_kind

record eligible_claim =
  ec_claim_id :: string
  ec_device :: string
  ec_room :: string
  ec_mapping :: string
  ec_profile :: string
  ec_score :: rat
  ec_priority :: int
  ec_sequence :: nat

record pending_round =
  round_config :: snapshot
  round_deadline :: rat
  round_claims :: "eligible_claim list"

record engine =
  eng_pending :: "(string \<times> pending_round) list"
  eng_resolved :: "(string \<times> wake_decision) list"
  eng_accepted :: "string set"
  eng_sequence :: nat
  eng_arbitrations :: nat

definition new_engine :: engine where
  "new_engine = \<lparr>eng_pending = [], eng_resolved = [], eng_accepted = {}, eng_sequence = 0,
     eng_arbitrations = 0\<rparr>"

text \<open>What calling the configuration source gives.\<close>

datatype config_source = SourceOk pyval | SourceMigration int | SourceError

text \<open>The authenticated caller and its credential scope.\<close>

record caller =
  authenticated_device_id :: "string option"
  authorized_rooms :: "string list option"
  authorized_wake_claim :: "bool option"
  authorized_wake_mappings :: "string list option"

datatype py_exn = ValueError

definition ARBITRATION_WINDOW_SECONDS :: rat where
  "ARBITRATION_WINDOW_SECONDS = 1 / 4"

section \<open>The selection key\<close>

text \<open>The tuple \<open>(-acoustic_score, priority, sequence)\<close>, compared component by component.\<close>

datatype claim_key = ClaimKey rat int nat

instantiation claim_key :: linorder
begin

fun less_eq_claim_key :: "claim_key \<Rightarrow> claim_key \<Rightarrow> bool" where
  "less_eq_claim_key (ClaimKey s p q) (ClaimKey s' p' q') \<longleftrightarrow>
     s < s' \<or> (s = s' \<and> (p < p' \<or> (p = p' \<and> q \<le> q')))"

definition less_claim_key :: "claim_key \<Rightarrow> claim_key \<Rightarrow> bool" where
  "less_claim_key k k' \<longleftrightarrow> k \<le> k' \<and> \<not> k' \<le> k"

instance
proof
  fix x y z :: claim_key
  show "(x < y) = (x \<le> y \<and> \<not> y \<le> x)" by (simp add: less_claim_key_def)
  show "x \<le> x" by (cases x) simp
  show "x \<le> y \<Longrightarrow> y \<le> z \<Longrightarrow> x \<le> z" by (cases x; cases y; cases z) auto
  show "x \<le> y \<Longrightarrow> y \<le> x \<Longrightarrow> x = y" by (cases x; cases y) auto
  show "x \<le> y \<or> y \<le> x" by (cases x; cases y) auto
qed

end

definition selection_key :: "eligible_claim \<Rightarrow> claim_key" where
  "selection_key c = ClaimKey (- ec_score c) (ec_priority c) (ec_sequence c)"

section \<open>Claim validation\<close>

type_synonym 'a claim_result = "(string, 'a) result"

definition CLAIM_KEYS :: "string list" where
  "CLAIM_KEYS = [''schema'', ''claim_id'', ''device_id'', ''wake_mapping_id'', ''configuration_revision'',
     ''observation'', ''acoustic_evidence'', ''availability'']"

definition keys_exactly :: "pydict \<Rightarrow> string list \<Rightarrow> bool" where
  "keys_exactly d ks \<longleftrightarrow> \<not> list_ex (\<lambda>(k, v). \<not> is_str_key k) d
     \<and> list_all (\<lambda>k. k \<in> set (str_keys d)) ks \<and> list_all (\<lambda>k. k \<in> set ks) (str_keys d)"

fun require_identifier :: "pyval \<Rightarrow> string claim_result" where
  "require_identifier (PStr s) = (if bounded_text_128 s then Inr s else Inl ''invalid_request'')"
| "require_identifier v = Inl ''invalid_request''"

fun require_claim_revision :: "pyval \<Rightarrow> int claim_result" where
  "require_claim_revision (PInt n) = (if n < 0 then Inl ''invalid_request'' else Inr n)"
| "require_claim_revision v = Inl ''invalid_request''"

fun require_evidence :: "pyval \<Rightarrow> pydict claim_result" where
  "require_evidence (PDict (kv # d)) = Inr (kv # d)"
| "require_evidence v = Inl ''invalid_request''"

fun require_ready :: "pyval \<Rightarrow> unit claim_result" where
  "require_ready (PStr s) = (if s = ''ready'' then Inr () else Inl ''claim_denied'')"
| "require_ready v = Inl ''invalid_request''"

fun acoustic_score :: "pyval option \<Rightarrow> rat claim_result" where
  "acoustic_score (Some (PInt n)) =
     (case float_of_int n of None \<Rightarrow> Inl ''invalid_request'' | Some q \<Rightarrow> Inr q)"
| "acoustic_score (Some (PFloat (Fin q))) = Inr q"
| "acoustic_score v = Inl ''invalid_request''"

definition scope_allows_claim :: "caller \<Rightarrow> device \<Rightarrow> string \<Rightarrow> bool" where
  "scope_allows_claim who dev mid \<longleftrightarrow>
     (case authorized_wake_claim who of
        None \<Rightarrow> True
      | Some wake \<Rightarrow> wake \<and> (case authorized_rooms who of
            None \<Rightarrow> False | Some rooms \<Rightarrow> device_room dev \<in> set rooms))
     \<and> (case authorized_wake_mappings who of None \<Rightarrow> True | Some ms \<Rightarrow> mid \<in> set ms)"

text \<open>The lookups in the configuration, from the Device to the acoustic score.\<close>

definition claim_eligibility :: "configuration \<Rightarrow> caller \<Rightarrow> string \<Rightarrow> string \<Rightarrow> string \<Rightarrow> pydict
    \<Rightarrow> eligible_claim claim_result" where
  "claim_eligibility cfg who cid did mid evidence =
     (case index_by device_id (cfg_devices cfg) did of
        None \<Rightarrow> Inl ''not_found''
      | Some dev \<Rightarrow>
          bindE (checkE (wake_claim (device_caps dev)) ''claim_denied'') (\<lambda>_.
          bindE (checkE (scope_allows_claim who dev mid) ''forbidden'') (\<lambda>_.
          case index_by mapping_id (cfg_mappings cfg) mid of
            None \<Rightarrow> Inl ''not_found''
          | Some m \<Rightarrow>
              bindE (checkE (mapping_active m) ''stale_mapping'') (\<lambda>_.
              case index_by profile_id (cfg_profiles cfg) (mapping_profile m) of
                None \<Rightarrow> Inl ''claim_denied''
              | Some pr \<Rightarrow>
                  bindE (checkE (profile_available pr) ''claim_denied'') (\<lambda>_.
                  bindE (acoustic_score (dget evidence ''value'')) (\<lambda>score.
                  Inr \<lparr>ec_claim_id = cid, ec_device = did, ec_room = device_room dev,
                       ec_mapping = mid, ec_profile = profile_id pr, ec_score = score,
                       ec_priority = device_priority dev, ec_sequence = 0\<rparr>))))))"

definition validate_claim_fields :: "snapshot \<Rightarrow> string set \<Rightarrow> caller \<Rightarrow> pydict
    \<Rightarrow> eligible_claim claim_result" where
  "validate_claim_fields snap existing who d =
     bindE (checkE (keys_exactly d CLAIM_KEYS) ''invalid_request'') (\<lambda>_.
     bindE (checkE (dfield d ''schema'' = PInt 1) ''invalid_request'') (\<lambda>_.
     bindE (require_claim_revision (dfield d ''configuration_revision'')) (\<lambda>revno.
     bindE (checkE (revno = snap_revision snap) ''stale_configuration'') (\<lambda>_.
     bindE (require_identifier (dfield d ''claim_id'')) (\<lambda>cid.
     bindE (require_identifier (dfield d ''device_id'')) (\<lambda>did.
     bindE (require_identifier (dfield d ''wake_mapping_id'')) (\<lambda>mid.
     bindE (checkE (cid \<notin> existing) ''duplicate_claim'') (\<lambda>_.
     bindE (checkE (authenticated_device_id who = Some did) ''unauthorized'') (\<lambda>_.
     bindE (require_evidence (dfield d ''observation'')) (\<lambda>_.
     bindE (require_evidence (dfield d ''acoustic_evidence'')) (\<lambda>evidence.
     bindE (require_ready (dfield d ''availability'')) (\<lambda>_.
     claim_eligibility (snap_config snap) who cid did mid evidence))))))))))))"

fun validate_claim :: "snapshot \<Rightarrow> string set \<Rightarrow> caller \<Rightarrow> pyval \<Rightarrow> eligible_claim claim_result" where
  "validate_claim snap existing who (PDict d) = validate_claim_fields snap existing who d"
| "validate_claim snap existing who v = Inl ''invalid_request''"

text \<open>The claim's own ID, for the answer; the empty string when there is none.\<close>

definition claim_id_of :: "pyval \<Rightarrow> string" where
  "claim_id_of claim = (case claim of
     PDict d \<Rightarrow> (case dget d ''claim_id'' of Some (PStr s) \<Rightarrow> s | _ \<Rightarrow> [])
   | _ \<Rightarrow> [])"

definition claim_device_id :: "pyval \<Rightarrow> string option" where
  "claim_device_id claim = (case claim of
     PDict d \<Rightarrow> (case dget d ''device_id'' of Some (PStr s) \<Rightarrow> Some s | _ \<Rightarrow> None)
   | _ \<Rightarrow> None)"

section \<open>Finalising a round\<close>

definition decide :: "pending_round \<Rightarrow> string \<Rightarrow> eligible_claim \<Rightarrow> eligible_claim \<Rightarrow> wake_decision" where
  "decide rnd arb winner c =
     \<lparr>dec_claim_id = ec_claim_id c,
      dec_decision = (if ec_claim_id c = ec_claim_id winner then Granted else Denied),
      dec_arbitration_id = arb,
      dec_revision = snap_revision (round_config rnd),
      dec_reason = (if ec_claim_id c = ec_claim_id winner then None else Some ''lost_arbitration''),
      dec_device = ec_device c, dec_room = ec_room c, dec_mapping = ec_mapping c,
      dec_profile = ec_profile c, dec_kind = WakeClaim\<rparr>"

definition finalize_room :: "(nat \<Rightarrow> string) \<Rightarrow> engine \<Rightarrow> string
    \<Rightarrow> (py_exn, engine \<times> (string \<times> wake_decision) list option) result" where
  "finalize_room arb_ids e r = (case map_of (eng_pending e) r of
     None \<Rightarrow> Inr (e, None)
   | Some rnd \<Rightarrow> (case round_claims rnd of
         [] \<Rightarrow> Inl ValueError
       | c # cs \<Rightarrow>
           let arb = arb_ids (eng_arbitrations e);
               winner = min_by selection_key c cs;
               decisions = dict_update []
                 (map (\<lambda>x. (ec_claim_id x, decide rnd arb winner x)) (round_claims rnd))
           in Inr (e\<lparr>eng_pending := AList.delete r (eng_pending e),
                     eng_arbitrations := Suc (eng_arbitrations e),
                     eng_resolved := dict_update (eng_resolved e) decisions\<rparr>, Some decisions)))"

text \<open>The loop over a copy of the pending rounds, finalising those whose deadline passed.\<close>

fun finalize_due :: "(nat \<Rightarrow> string) \<Rightarrow> rat \<Rightarrow> (string \<times> pending_round) list \<Rightarrow> engine
    \<Rightarrow> (string \<times> wake_decision) list
    \<Rightarrow> (py_exn, engine \<times> (string \<times> wake_decision) list) result" where
  "finalize_due arb_ids now [] e acc = Inr (e, acc)"
| "finalize_due arb_ids now ((r, rnd) # rest) e acc =
     (if round_deadline rnd \<le> now
      then bindE (finalize_room arb_ids e r) (\<lambda>(e', ds).
        finalize_due arb_ids now rest e' (dict_update acc (case ds of None \<Rightarrow> [] | Some xs \<Rightarrow> xs)))
      else finalize_due arb_ids now rest e acc)"

definition finalize :: "(nat \<Rightarrow> string) \<Rightarrow> rat \<Rightarrow> engine
    \<Rightarrow> (py_exn, engine \<times> (string \<times> wake_decision) list option) result" where
  "finalize arb_ids now e =
     bindE (finalize_due arb_ids now (eng_pending e) e []) (\<lambda>(e', ds).
       Inr (e', if ds = [] then None else Some ds))"

section \<open>Submitting a claim\<close>

definition refusal :: "string \<Rightarrow> string \<Rightarrow> claim_submission" where
  "refusal cid reason = \<lparr>sub_claim_id = cid, sub_accepted = False, sub_deadline = None,
     sub_reason = Some reason, sub_current_revision = None\<rparr>"

text \<open>Admission to the Room's round, once expired rounds are closed.\<close>

definition admit :: "engine \<Rightarrow> rat \<Rightarrow> string \<Rightarrow> snapshot \<Rightarrow> caller \<Rightarrow> pyval
    \<Rightarrow> engine \<times> claim_submission" where
  "admit e now r current who claim =
     (let open_round = map_of (eng_pending e) r;
          snap = (case open_round of None \<Rightarrow> current | Some rnd \<Rightarrow> round_config rnd);
          existing = (case open_round of None \<Rightarrow> {} | Some rnd \<Rightarrow> set (map ec_claim_id (round_claims rnd)))
            \<union> eng_accepted e
      in case validate_claim snap existing who claim of
           Inl reason \<Rightarrow> (e, refusal (claim_id_of claim) reason)
         | Inr c \<Rightarrow>
             let rnd = (case open_round of
                   None \<Rightarrow> \<lparr>round_config = snap, round_deadline = now + ARBITRATION_WINDOW_SECONDS,
                            round_claims = []\<rparr>
                 | Some rnd \<Rightarrow> rnd);
                 c' = c\<lparr>ec_sequence := eng_sequence e\<rparr>;
                 rnd' = rnd\<lparr>round_claims := round_claims rnd @ [c']\<rparr>
             in (e\<lparr>eng_pending := AList.update r rnd' (eng_pending e),
                   eng_sequence := Suc (eng_sequence e),
                   eng_accepted := insert (ec_claim_id c') (eng_accepted e)\<rparr>,
                 \<lparr>sub_claim_id = ec_claim_id c', sub_accepted = True,
                  sub_deadline = Some (round_deadline rnd), sub_reason = None,
                  sub_current_revision = None\<rparr>))"

definition submit :: "unicode \<Rightarrow> (nat \<Rightarrow> string) \<Rightarrow> engine \<Rightarrow> rat \<Rightarrow> config_source \<Rightarrow> caller \<Rightarrow> pyval
    \<Rightarrow> (py_exn, engine \<times> claim_submission) result" where
  "submit U arb_ids e now source who claim =
     (let cid = claim_id_of claim
      in case source of
        SourceMigration revno \<Rightarrow>
          Inr (e, (refusal cid ''configuration_migration_required'')\<lparr>sub_current_revision := Some revno\<rparr>)
      | SourceError \<Rightarrow> Inr (e, refusal cid ''service_unavailable'')
      | SourceOk v \<Rightarrow> (case validate_snapshot U v of
          Inl err \<Rightarrow> Inr (e, refusal cid ''service_unavailable'')
        | Inr current \<Rightarrow> (case claim_device_id claim of
            None \<Rightarrow> (case validate_claim current (eng_accepted e) who claim of
                Inl reason \<Rightarrow> Inr (e, refusal cid reason)
              | Inr c \<Rightarrow> Inr (e, refusal cid ''not_found''))
          | Some did \<Rightarrow> (case index_by device_id (cfg_devices (snap_config current)) did of
                None \<Rightarrow> Inr (e, refusal cid ''not_found'')
              | Some dev \<Rightarrow>
                  let r = device_room dev;
                      expired = map fst (filter (\<lambda>(r, rnd). round_deadline rnd \<le> now) (eng_pending e))
                  in bindE (finalize_due arb_ids now (eng_pending e) e []) (\<lambda>(e1, ds).
                     if r \<in> set expired then Inr (e1, refusal cid ''late'')
                     else bindE (case map_of (eng_pending e1) r of
                           None \<Rightarrow> Inr (e1, None)
                         | Some rnd \<Rightarrow>
                             if snap_revision (round_config rnd) \<noteq> snap_revision current
                             then finalize_room arb_ids e1 r else Inr (e1, None)) (\<lambda>(e2, ds2).
                       Inr (admit e2 now r current who claim)))))))"

section \<open>Reservations and results\<close>

definition reserve_claim_id :: "engine \<Rightarrow> string \<Rightarrow> engine \<times> bool" where
  "reserve_claim_id e cid =
     (if cid \<in> eng_accepted e then (e, False)
      else (e\<lparr>eng_accepted := insert cid (eng_accepted e)\<rparr>, True))"

definition decision_for :: "engine \<Rightarrow> string \<Rightarrow> engine \<times> wake_decision option" where
  "decision_for e cid =
     (e\<lparr>eng_resolved := AList.delete cid (eng_resolved e)\<rparr>, map_of (eng_resolved e) cid)"

section \<open>The engine as a machine\<close>

datatype engine_op =
    Submit rat config_source caller pyval
  | Finalize rat
  | Reserve string
  | TakeDecision string

text \<open>A raised exception would leave the caller without an answer; the invariant rules it out.\<close>

definition engine_exec :: "unicode \<Rightarrow> (nat \<Rightarrow> string) \<Rightarrow> engine \<Rightarrow> engine_op \<Rightarrow> engine" where
  "engine_exec U arb_ids e p = (case p of
     Submit now source who claim \<Rightarrow>
       (case submit U arb_ids e now source who claim of Inl x \<Rightarrow> e | Inr (e', s) \<Rightarrow> e')
   | Finalize now \<Rightarrow> (case finalize arb_ids now e of Inl x \<Rightarrow> e | Inr (e', ds) \<Rightarrow> e')
   | Reserve cid \<Rightarrow> fst (reserve_claim_id e cid)
   | TakeDecision cid \<Rightarrow> fst (decision_for e cid))"

text \<open>
  The configuration source never shows two configurations under one revision: what an
  open round was started with is still what that revision means.
\<close>

definition source_consistent :: "unicode \<Rightarrow> engine \<Rightarrow> config_source \<Rightarrow> bool" where
  "source_consistent U e source \<longleftrightarrow> (case source of
     SourceOk v \<Rightarrow> (case validate_snapshot U v of
         Inl err \<Rightarrow> True
       | Inr current \<Rightarrow> \<forall>r rnd. map_of (eng_pending e) r = Some rnd
           \<longrightarrow> snap_revision (round_config rnd) = snap_revision current \<longrightarrow> round_config rnd = current)
   | _ \<Rightarrow> True)"

definition engine_ok :: "unicode \<Rightarrow> engine \<Rightarrow> engine_op \<Rightarrow> bool" where
  "engine_ok U e p = (case p of Submit now source who claim \<Rightarrow> source_consistent U e source | _ \<Rightarrow> True)"

section \<open>Invariant\<close>

definition round_ok :: "engine \<Rightarrow> string \<Rightarrow> pending_round \<Rightarrow> bool" where
  "round_ok e r rnd \<longleftrightarrow> round_claims rnd \<noteq> [] \<and> distinct (map ec_claim_id (round_claims rnd))
     \<and> sorted_wrt (<) (map ec_sequence (round_claims rnd))
     \<and> (\<forall>c \<in> set (round_claims rnd). ec_sequence c < eng_sequence e \<and> ec_room c = r
           \<and> ec_claim_id c \<in> eng_accepted e \<and> ec_claim_id c \<notin> fst ` set (eng_resolved e))"

definition engine_inv :: "engine \<Rightarrow> bool" where
  "engine_inv e \<longleftrightarrow> distinct (map fst (eng_pending e))
     \<and> (\<forall>r rnd. map_of (eng_pending e) r = Some rnd \<longrightarrow> round_ok e r rnd)
     \<and> (\<forall>r r' rnd rnd' c c'. map_of (eng_pending e) r = Some rnd \<longrightarrow> map_of (eng_pending e) r' = Some rnd'
          \<longrightarrow> c \<in> set (round_claims rnd) \<longrightarrow> c' \<in> set (round_claims rnd')
          \<longrightarrow> ec_claim_id c = ec_claim_id c' \<longrightarrow> r = r')
     \<and> distinct (map fst (eng_resolved e)) \<and> fst ` set (eng_resolved e) \<subseteq> eng_accepted e"

lemma engine_invI:
  assumes "distinct (map fst (eng_pending e))"
    and "\<And>r rnd. map_of (eng_pending e) r = Some rnd \<Longrightarrow> round_ok e r rnd"
    and "\<And>r r' rnd rnd' c c'. map_of (eng_pending e) r = Some rnd \<Longrightarrow> map_of (eng_pending e) r' = Some rnd'
      \<Longrightarrow> c \<in> set (round_claims rnd) \<Longrightarrow> c' \<in> set (round_claims rnd')
      \<Longrightarrow> ec_claim_id c = ec_claim_id c' \<Longrightarrow> r = r'"
    and "distinct (map fst (eng_resolved e))" and "fst ` set (eng_resolved e) \<subseteq> eng_accepted e"
  shows "engine_inv e"
  unfolding engine_inv_def using assms by meson

lemma engine_invD:
  assumes "engine_inv e"
  shows "distinct (map fst (eng_pending e))"
    and "map_of (eng_pending e) r = Some rnd \<Longrightarrow> round_ok e r rnd"
    and "map_of (eng_pending e) r = Some rnd \<Longrightarrow> map_of (eng_pending e) r' = Some rnd'
      \<Longrightarrow> c \<in> set (round_claims rnd) \<Longrightarrow> c' \<in> set (round_claims rnd')
      \<Longrightarrow> ec_claim_id c = ec_claim_id c' \<Longrightarrow> r = r'"
    and "distinct (map fst (eng_resolved e))" and "fst ` set (eng_resolved e) \<subseteq> eng_accepted e"
  using assms unfolding engine_inv_def by meson+

lemma engine_inv_new: "engine_inv new_engine"
  by (simp add: engine_inv_def new_engine_def)

section \<open>Claim validation\<close>

lemma require_identifier_eq_Inr [result_simps]:
  "require_identifier v = Inr s \<longleftrightarrow> v = PStr s \<and> bounded_text_128 s"
  by (cases v) auto

lemma require_claim_revision_eq_Inr [result_simps]:
  "require_claim_revision v = Inr n \<longleftrightarrow> v = PInt n \<and> 0 \<le> n"
  by (cases v) auto

lemma dfield_eq_PStr: "dfield d k = PStr s \<longleftrightarrow> dget d k = Some (PStr s)"
  by (auto simp: dfield_def dget_or_def split: option.splits)

lemma validate_claim_accepts:
  assumes "validate_claim snap existing who claim = Inr c"
  shows "ec_claim_id c \<notin> existing \<and> claim_id_of claim = ec_claim_id c
    \<and> claim_device_id claim = Some (ec_device c) \<and> authenticated_device_id who = Some (ec_device c)
    \<and> (\<exists>dev m pr. index_by device_id (cfg_devices (snap_config snap)) (ec_device c) = Some dev
      \<and> wake_claim (device_caps dev) \<and> scope_allows_claim who dev (ec_mapping c)
      \<and> ec_room c = device_room dev \<and> ec_priority c = device_priority dev
      \<and> index_by mapping_id (cfg_mappings (snap_config snap)) (ec_mapping c) = Some m \<and> mapping_active m
      \<and> index_by profile_id (cfg_profiles (snap_config snap)) (mapping_profile m) = Some pr
      \<and> profile_available pr \<and> ec_profile c = profile_id pr)"
proof -
  from assms obtain d where d: "claim = PDict d" by (cases claim) auto
  from assms obtain cid did mid evidence where
    ids: "dget d ''claim_id'' = Some (PStr cid)" "dget d ''device_id'' = Some (PStr did)"
      "cid \<notin> existing" "authenticated_device_id who = Some did"
    and elig: "claim_eligibility (snap_config snap) who cid did mid evidence = Inr c"
    by (auto simp: d validate_claim_fields_def result_simps dfield_eq_PStr)
  from ids elig show ?thesis
    by (auto simp: d claim_id_of_def claim_device_id_def claim_eligibility_def result_simps
        split: option.splits)
qed

section \<open>Finalising\<close>

text \<open>The best claim of a round: highest score, then lowest priority, then first to arrive.\<close>

definition beats :: "eligible_claim \<Rightarrow> eligible_claim \<Rightarrow> bool" where
  "beats w c \<longleftrightarrow> ec_score c < ec_score w
     \<or> (ec_score w = ec_score c \<and> (ec_priority w < ec_priority c
         \<or> (ec_priority w = ec_priority c \<and> ec_sequence w < ec_sequence c)))"

text \<open>A dictionary of decisions settles a round: one winner, which beats every other claim.\<close>

definition settles :: "(string \<times> wake_decision) list \<Rightarrow> pending_round \<Rightarrow> bool" where
  "settles ds rnd \<longleftrightarrow> (\<exists>arb w. w \<in> set (round_claims rnd)
     \<and> (\<forall>c \<in> set (round_claims rnd). c = w \<or> beats w c)
     \<and> (\<forall>c \<in> set (round_claims rnd). map_of ds (ec_claim_id c) = Some (decide rnd arb w c)))"

definition round_ids :: "pending_round \<Rightarrow> string set" where
  "round_ids rnd = ec_claim_id ` set (round_claims rnd)"

lemma settles_cong:
  "(\<And>k. k \<in> round_ids rnd \<Longrightarrow> map_of ds' k = map_of ds k) \<Longrightarrow> settles ds rnd \<Longrightarrow> settles ds' rnd"
  by (auto simp: settles_def round_ids_def)

lemma winner_beats:
  assumes "round_ok e r rnd" and "round_claims rnd = c # cs"
    and "w = min_by selection_key c cs" and "x \<in> set (round_claims rnd)"
  shows "x = w \<or> beats w x"
proof -
  have w: "w \<in> set (round_claims rnd)" and le: "selection_key w \<le> selection_key x"
    using min_by_in [of selection_key c cs] min_by_le [of x c cs selection_key] assms by auto
  have "distinct (map ec_sequence (round_claims rnd))"
    using assms(1) by (auto simp: round_ok_def strict_sorted_iff)
  then have "ec_sequence x = ec_sequence w \<Longrightarrow> x = w"
    by (rule distinct_map_unique [OF _ assms(4) w])
  moreover have "ec_score x < ec_score w \<or> (ec_score w = ec_score x \<and> (ec_priority w < ec_priority x
      \<or> (ec_priority w = ec_priority x \<and> ec_sequence w \<le> ec_sequence x)))"
    using le by (simp add: selection_key_def)
  ultimately show ?thesis unfolding beats_def by linarith
qed

lemma finalize_room_settles:
  assumes inv: "engine_inv e" and rnd: "map_of (eng_pending e) r = Some rnd"
  obtains ds e' where "finalize_room arb_ids e r = Inr (e', Some ds)"
    and "e' = e\<lparr>eng_pending := AList.delete r (eng_pending e),
      eng_arbitrations := Suc (eng_arbitrations e), eng_resolved := dict_update (eng_resolved e) ds\<rparr>"
    and "distinct (map fst ds)" and "fst ` set ds = round_ids rnd" and "settles ds rnd"
proof -
  from inv rnd have ok: "round_ok e r rnd" by (auto simp: engine_inv_def)
  then obtain c cs where cs: "round_claims rnd = c # cs" by (auto simp: round_ok_def neq_Nil_conv)
  define w where "w = min_by selection_key c cs"
  define pairs where "pairs = map (\<lambda>x. (ec_claim_id x, decide rnd (arb_ids (eng_arbitrations e)) w x))
    (round_claims rnd)"
  have dist: "distinct (map fst pairs)"
    using ok by (simp add: pairs_def round_ok_def comp_def)
  let ?ds = "dict_update [] pairs"
  have map_ds: "map_of ?ds = map_of pairs"
    using dist by (simp add: map_of_dict_update_distinct)
  have "settles ?ds rnd"
    unfolding settles_def
  proof (intro exI conjI ballI)
    show "w \<in> set (round_claims rnd)"
      using min_by_in [of selection_key c cs] by (simp add: w_def cs)
    show "x = w \<or> beats w x" if "x \<in> set (round_claims rnd)" for x
      using winner_beats [OF ok cs w_def that] .
    show "map_of ?ds (ec_claim_id x) = Some (decide rnd (arb_ids (eng_arbitrations e)) w x)"
      if "x \<in> set (round_claims rnd)" for x
      unfolding map_ds by (rule map_of_is_SomeI [OF dist]) (use that in \<open>auto simp: pairs_def\<close>)
  qed
  moreover have "finalize_room arb_ids e r = Inr (e\<lparr>eng_pending := AList.delete r (eng_pending e),
      eng_arbitrations := Suc (eng_arbitrations e), eng_resolved := dict_update (eng_resolved e) ?ds\<rparr>, Some ?ds)"
    by (simp add: finalize_room_def rnd cs Let_def w_def pairs_def)
  moreover have "distinct (map fst ?ds)" by (rule distinct_dict_update) simp
  moreover have "fst ` set ?ds = round_ids rnd"
    by (auto simp: keys_dict_update pairs_def round_ids_def image_comp comp_def)
  ultimately show thesis using that by blast
qed

lemma finalize_room_inv:
  assumes inv: "engine_inv e" and rnd: "map_of (eng_pending e) r = Some rnd"
    and fin: "finalize_room arb_ids e r = Inr (e', ds)"
  shows "engine_inv e' \<and> map_of (eng_pending e') = (map_of (eng_pending e))(r := None)
    \<and> eng_accepted e' = eng_accepted e \<and> eng_sequence e' = eng_sequence e"
proof -
  obtain xs e1 where fin1: "finalize_room arb_ids e r = Inr (e1, Some xs)"
    and e1: "e1 = e\<lparr>eng_pending := AList.delete r (eng_pending e),
      eng_arbitrations := Suc (eng_arbitrations e), eng_resolved := dict_update (eng_resolved e) xs\<rparr>"
    and keys: "fst ` set xs = round_ids rnd"
    by (rule finalize_room_settles [OF inv rnd, of arb_ids])
  from fin fin1 e1 have e': "e' = e\<lparr>eng_pending := AList.delete r (eng_pending e),
      eng_arbitrations := Suc (eng_arbitrations e), eng_resolved := dict_update (eng_resolved e) xs\<rparr>"
    by simp
  have pend: "map_of (eng_pending e') = (map_of (eng_pending e))(r := None)"
    by (simp add: e' delete_conv')
  have ids: "round_ids rnd \<subseteq> eng_accepted e"
    using inv rnd by (force simp: engine_inv_def round_ok_def round_ids_def)
  have others: "c \<in> set (round_claims rnd') \<Longrightarrow> map_of (eng_pending e) r' = Some rnd' \<Longrightarrow> r' \<noteq> r
      \<Longrightarrow> ec_claim_id c \<notin> round_ids rnd" for c r' rnd'
    using inv rnd unfolding engine_inv_def round_ids_def by blast
  have "engine_inv e'"
  proof (rule engine_invI)
    show "distinct (map fst (eng_pending e'))"
      using engine_invD(1) [OF inv] by (simp add: e' distinct_delete)
    show "distinct (map fst (eng_resolved e'))"
      using engine_invD(4) [OF inv] by (simp add: e' distinct_dict_update)
    show "fst ` set (eng_resolved e') \<subseteq> eng_accepted e'"
      using engine_invD(5) [OF inv] ids by (simp add: e' keys_dict_update keys)
  next
    fix r' rnd' assume "map_of (eng_pending e') r' = Some rnd'"
    then have old: "map_of (eng_pending e) r' = Some rnd'" "r' \<noteq> r"
      by (auto simp: pend split: if_splits)
    from engine_invD(2) [OF inv old(1)] others old show "round_ok e' r' rnd'"
      by (auto simp: round_ok_def e' keys_dict_update keys)
  next
    fix r1 r2 rnd1 rnd2 c c'
    assume "map_of (eng_pending e') r1 = Some rnd1" "map_of (eng_pending e') r2 = Some rnd2"
      "c \<in> set (round_claims rnd1)" "c' \<in> set (round_claims rnd2)" "ec_claim_id c = ec_claim_id c'"
    then show "r1 = r2" using engine_invD(3) [OF inv] by (simp add: pend split: if_splits)
  qed
  then show ?thesis using pend by (simp add: e')
qed

text \<open>
  Running the loop over the due rounds of a list: it never raises, keeps the invariant,
  removes exactly the due rounds and settles each of them, both in the returned dictionary
  and in the stored one.
\<close>

definition due :: "rat \<Rightarrow> (string \<times> pending_round) list \<Rightarrow> (string \<times> pending_round) list" where
  "due now xs = filter (\<lambda>(r, rnd). round_deadline rnd \<le> now) xs"

lemma due_simps [simp]:
  "due now [] = []"
  "due now ((r, rnd) # xs) = (if round_deadline rnd \<le> now then (r, rnd) # due now xs else due now xs)"
  by (auto simp: due_def)

lemma rounds_disjoint:
  "engine_inv e \<Longrightarrow> map_of (eng_pending e) r = Some rnd \<Longrightarrow> map_of (eng_pending e) r' = Some rnd'
    \<Longrightarrow> k \<in> round_ids rnd' \<Longrightarrow> r' \<noteq> r \<Longrightarrow> k \<notin> round_ids rnd"
  using engine_invD(3) [of e r rnd r' rnd'] unfolding round_ids_def by (metis imageE)

lemma finalize_due_settles:
  assumes "engine_inv e" and "distinct (map fst xs)"
    and "\<And>r rnd. (r, rnd) \<in> set xs \<Longrightarrow> map_of (eng_pending e) r = Some rnd"
  shows "\<exists>e' ds. finalize_due arb_ids now xs e acc = Inr (e', ds) \<and> engine_inv e'
    \<and> eng_accepted e' = eng_accepted e \<and> eng_sequence e' = eng_sequence e
    \<and> (\<forall>r. map_of (eng_pending e') r =
          (if r \<in> fst ` set (due now xs) then None else map_of (eng_pending e) r))
    \<and> (\<forall>k. (\<forall>(r, rnd) \<in> set (due now xs). k \<notin> round_ids rnd)
          \<longrightarrow> map_of ds k = map_of acc k \<and> map_of (eng_resolved e') k = map_of (eng_resolved e) k)
    \<and> (\<forall>(r, rnd) \<in> set (due now xs). settles ds rnd \<and> settles (eng_resolved e') rnd)"
  using assms
proof (induction xs arbitrary: e acc)
  case Nil
  then show ?case by simp
next
  case (Cons x xs)
  obtain r rnd where x: "x = (r, rnd)" by (cases x)
  show ?case
  proof (cases "round_deadline rnd \<le> now")
    case False
    with Cons.IH [of e acc] Cons.prems show ?thesis by (simp add: x)
  next
    case True
    have rnd: "map_of (eng_pending e) r = Some rnd" using Cons.prems(3) by (simp add: x)
    obtain ds1 e1 where fin: "finalize_room arb_ids e r = Inr (e1, Some ds1)"
      and e1: "e1 = e\<lparr>eng_pending := AList.delete r (eng_pending e),
        eng_arbitrations := Suc (eng_arbitrations e), eng_resolved := dict_update (eng_resolved e) ds1\<rparr>"
      and dist: "distinct (map fst ds1)" and keys: "fst ` set ds1 = round_ids rnd"
      and settles: "settles ds1 rnd"
      by (rule finalize_room_settles [OF Cons.prems(1) rnd, of arb_ids])
    note inv1 = finalize_room_inv [OF Cons.prems(1) rnd fin]
    have rest: "map_of (eng_pending e1) r' = Some rnd'" if "(r', rnd') \<in> set xs" for r' rnd'
      using that Cons.prems(2,3) inv1 by (force simp: x)
    have disj: "k \<notin> round_ids rnd" if "(r', rnd') \<in> set (due now xs)" "k \<in> round_ids rnd'" for r' rnd' k
      using that rounds_disjoint [OF Cons.prems(1) rnd, of r' rnd' k] Cons.prems(2,3)
      by (force simp: x due_def)
    note frame = map_of_dict_update_keys [OF dist, unfolded keys]
    have settled: "settles (dict_update d ds1) rnd" for d
      by (rule settles_cong [OF _ settles]) (simp add: frame)
    from Cons.IH [of e1 "dict_update acc ds1", OF _ _ rest] Cons.prems(2) inv1
    obtain e' ds where IH: "finalize_due arb_ids now xs e1 (dict_update acc ds1) = Inr (e', ds)"
      "engine_inv e'" "eng_accepted e' = eng_accepted e" "eng_sequence e' = eng_sequence e"
      "\<And>r'. map_of (eng_pending e') r' =
        (if r' \<in> fst ` set (due now xs) then None else map_of (eng_pending e1) r')"
      "\<And>k. (\<forall>(r, rnd) \<in> set (due now xs). k \<notin> round_ids rnd) \<Longrightarrow>
        map_of ds k = map_of (dict_update acc ds1) k \<and> map_of (eng_resolved e') k = map_of (eng_resolved e1) k"
      "\<forall>(r, rnd) \<in> set (due now xs). settles ds rnd \<and> settles (eng_resolved e') rnd"
      by (auto simp: x)
    have new: "settles ds rnd" "settles (eng_resolved e') rnd"
    proof -
      have "map_of ds k = map_of (dict_update acc ds1) k \<and> map_of (eng_resolved e') k = map_of (eng_resolved e1) k"
        if "k \<in> round_ids rnd" for k
        by (rule IH(6)) (use disj that in blast)
      then show "settles ds rnd" "settles (eng_resolved e') rnd"
        using settles_cong [OF _ settled [of acc]] settles_cong [OF _ settled [of "eng_resolved e"]]
        by (auto simp: e1)
    qed
    have "finalize_due arb_ids now (x # xs) e acc = Inr (e', ds)"
      using True fin IH(1) by (simp add: x)
    moreover have "map_of (eng_pending e') r' =
        (if r' \<in> fst ` set (due now (x # xs)) then None else map_of (eng_pending e) r')" for r'
      using IH(5) inv1 True by (simp add: x)
    moreover have "map_of ds k = map_of acc k \<and> map_of (eng_resolved e') k = map_of (eng_resolved e) k"
      if "\<forall>(r, rnd) \<in> set (due now (x # xs)). k \<notin> round_ids rnd" for k
      using IH(6) [of k] that True by (simp add: x frame e1)
    ultimately show ?thesis using IH(2-4,7) new True by (auto simp: x)
  qed
qed

lemma pending_lookup:
  "engine_inv e \<Longrightarrow> (r, rnd) \<in> set (eng_pending e) \<longleftrightarrow> map_of (eng_pending e) r = Some rnd"
  using engine_invD(1) [of e] by (metis map_of_SomeD map_of_is_SomeI)

lemma finalize_pending:
  assumes "engine_inv e"
  obtains e' ds where "finalize_due arb_ids now (eng_pending e) e [] = Inr (e', ds)" and "engine_inv e'"
    and "eng_accepted e' = eng_accepted e" and "eng_sequence e' = eng_sequence e"
    and "\<And>r rnd. map_of (eng_pending e') r = Some rnd \<longleftrightarrow>
      map_of (eng_pending e) r = Some rnd \<and> now < round_deadline rnd"
    and "\<And>r rnd. map_of (eng_pending e) r = Some rnd \<Longrightarrow> round_deadline rnd \<le> now \<Longrightarrow>
      settles ds rnd \<and> settles (eng_resolved e') rnd"
proof -
  have due_iff: "r \<in> fst ` set (due now (eng_pending e)) \<longleftrightarrow>
      (\<exists>rnd. map_of (eng_pending e) r = Some rnd \<and> round_deadline rnd \<le> now)" for r
    using pending_lookup [OF assms] by (force simp: due_def)
  from finalize_due_settles [OF assms engine_invD(1) [OF assms], of arb_ids now "[]"]
  obtain e' ds where fin: "finalize_due arb_ids now (eng_pending e) e [] = Inr (e', ds)" "engine_inv e'"
    "eng_accepted e' = eng_accepted e" "eng_sequence e' = eng_sequence e"
    and pend: "\<And>r. map_of (eng_pending e') r =
      (if r \<in> fst ` set (due now (eng_pending e)) then None else map_of (eng_pending e) r)"
    and settled: "\<forall>(r, rnd) \<in> set (due now (eng_pending e)). settles ds rnd \<and> settles (eng_resolved e') rnd"
    using pending_lookup [OF assms] by auto
  show thesis
  proof (rule that [OF fin])
    show "map_of (eng_pending e') r = Some rnd \<longleftrightarrow>
        map_of (eng_pending e) r = Some rnd \<and> now < round_deadline rnd" for r rnd
      using pend [of r] due_iff [of r] by (auto simp: not_le)
    show "map_of (eng_pending e) r = Some rnd \<Longrightarrow> round_deadline rnd \<le> now \<Longrightarrow>
        settles ds rnd \<and> settles (eng_resolved e') rnd" for r rnd
      using settled pending_lookup [OF assms] by (force simp: due_def)
  qed
qed

section \<open>Admission\<close>

lemma round_ok_mono:
  "round_ok e r rnd \<Longrightarrow> eng_sequence e \<le> eng_sequence e' \<Longrightarrow> eng_accepted e \<subseteq> eng_accepted e'
    \<Longrightarrow> eng_resolved e' = eng_resolved e \<Longrightarrow> round_ok e' r rnd"
  by (auto simp: round_ok_def)

text \<open>An admitted claim joins the Room's round; every other part of the state is kept.\<close>

lemma admit_cases:
  obtains (refused) reason where "admit e now r current who claim = (e, refusal (claim_id_of claim) reason)"
  | (admitted) snap existing c rnd where
      "snap = (case map_of (eng_pending e) r of None \<Rightarrow> current | Some rnd \<Rightarrow> round_config rnd)"
      "validate_claim snap existing who claim = Inr c" "eng_accepted e \<subseteq> existing"
      "rnd = (case map_of (eng_pending e) r of
         None \<Rightarrow> \<lparr>round_config = snap, round_deadline = now + ARBITRATION_WINDOW_SECONDS, round_claims = []\<rparr>
       | Some rnd \<Rightarrow> rnd)"
      "admit e now r current who claim =
        (e\<lparr>eng_pending := AList.update r
             (rnd\<lparr>round_claims := round_claims rnd @ [c\<lparr>ec_sequence := eng_sequence e\<rparr>]\<rparr>) (eng_pending e),
           eng_sequence := Suc (eng_sequence e), eng_accepted := insert (ec_claim_id c) (eng_accepted e)\<rparr>,
         \<lparr>sub_claim_id = ec_claim_id c, sub_accepted = True, sub_deadline = Some (round_deadline rnd),
          sub_reason = None, sub_current_revision = None\<rparr>)"
proof -
  let ?snap = "case map_of (eng_pending e) r of None \<Rightarrow> current | Some rnd \<Rightarrow> round_config rnd"
  let ?existing = "(case map_of (eng_pending e) r of None \<Rightarrow> {}
      | Some rnd \<Rightarrow> set (map ec_claim_id (round_claims rnd))) \<union> eng_accepted e"
  show thesis
  proof (cases "validate_claim ?snap ?existing who claim")
    case (Inl reason)
    then show ?thesis using refused by (simp add: admit_def Let_def)
  next
    case (Inr c)
    then show ?thesis
      by (intro admitted [OF refl Inr _ refl]) (auto simp: admit_def Let_def)
  qed
qed

lemma admit_inv:
  assumes inv: "engine_inv e"
    and dev: "index_by device_id (cfg_devices (snap_config current)) did = Some dev"
    and did: "claim_device_id claim = Some did"
    and same: "\<And>rnd. map_of (eng_pending e) (device_room dev) = Some rnd \<Longrightarrow> round_config rnd = current"
  shows "engine_inv (fst (admit e now (device_room dev) current who claim))"
proof (cases rule: admit_cases [of e now "device_room dev" current who claim])
  case (refused reason)
  with inv show ?thesis by simp
next
  case (admitted snap existing c rnd)
  let ?r = "device_room dev"
  let ?c = "c\<lparr>ec_sequence := eng_sequence e\<rparr>"
  let ?rnd = "rnd\<lparr>round_claims := round_claims rnd @ [?c]\<rparr>"
  let ?e = "fst (admit e now ?r current who claim)"
  have "snap = current" using admitted(1) same by (auto split: option.splits)
  with validate_claim_accepts [OF admitted(2)] dev did
  have c: "ec_claim_id c \<notin> eng_accepted e" "ec_room c = ?r" using admitted(3) by auto
  have old: "round_claims rnd = [] \<or> round_ok e ?r rnd \<and> map_of (eng_pending e) ?r = Some rnd"
    using admitted(4) engine_invD(2) [OF inv] by (auto split: option.splits)
  have e: "eng_pending ?e = AList.update ?r ?rnd (eng_pending e)" "eng_resolved ?e = eng_resolved e"
    "eng_sequence ?e = Suc (eng_sequence e)" "eng_accepted ?e = insert (ec_claim_id c) (eng_accepted e)"
    by (simp_all add: admitted(5))
  have fresh: "ec_claim_id c \<notin> round_ids rnd'" if "map_of (eng_pending e) r' = Some rnd'" for r' rnd'
    using engine_invD(2) [OF inv that] c(1) by (auto simp: round_ok_def round_ids_def)
  have apart: "ec_claim_id x \<noteq> ec_claim_id y"
    if "map_of (eng_pending e) r' = Some rnd'" "x \<in> set (round_claims rnd')" "y \<in> set (round_claims ?rnd)"
      "r' \<noteq> ?r" for r' rnd' x y
  proof (cases "y = ?c")
    case True
    have "ec_claim_id x \<in> round_ids rnd'" using that(2) by (simp add: round_ids_def)
    with True fresh [OF that(1)] show ?thesis by auto
  next
    case False
    with that(3) have y: "y \<in> set (round_claims rnd)" by simp
    with old have "map_of (eng_pending e) ?r = Some rnd" by auto
    from engine_invD(3) [OF inv that(1) this that(2) y] that(4) show ?thesis by blast
  qed
  have new_ok: "round_ok ?e ?r ?rnd"
    using old c engine_invD(5) [OF inv] unfolding round_ok_def e
    by (auto simp: sorted_wrt_append round_ok_def)
  show ?thesis
  proof (rule engine_invI)
    show "distinct (map fst (eng_pending ?e))"
      using engine_invD(1) [OF inv] by (simp add: e(1) distinct_update)
    show "distinct (map fst (eng_resolved ?e))" "fst ` set (eng_resolved ?e) \<subseteq> eng_accepted ?e"
      using engine_invD(4,5) [OF inv] by (auto simp: e)
  next
    fix r' rnd' assume "map_of (eng_pending ?e) r' = Some rnd'"
    then show "round_ok ?e r' rnd'"
      using new_ok round_ok_mono [OF engine_invD(2) [OF inv], of r' rnd' ?e]
      by (auto simp: e update_conv' split: if_splits)
  next
    fix r1 r2 rnd1 rnd2 c1 c2
    assume "map_of (eng_pending ?e) r1 = Some rnd1" "map_of (eng_pending ?e) r2 = Some rnd2"
      "c1 \<in> set (round_claims rnd1)" "c2 \<in> set (round_claims rnd2)" "ec_claim_id c1 = ec_claim_id c2"
    then show "r1 = r2"
      using apart [of r1 rnd1 c1 c2] apart [of r2 rnd2 c2 c1] engine_invD(3) [OF inv, of r1 rnd1 r2 rnd2 c1 c2]
      by (auto simp: e(1) update_conv' split: if_splits)
  qed
qed

section \<open>Submission\<close>

text \<open>
  A submission either refuses without touching the engine, or closes the due rounds first:
  then the Room is late, or its round of an older revision is closed too and the claim is
  put to the round.
\<close>

lemma submit_cases:
  assumes inv: "engine_inv e"
  obtains (refused) s where "submit U arb_ids e now source who claim = Inr (e, s)" "\<not> sub_accepted s"
  | (late) e1 s where "submit U arb_ids e now source who claim = Inr (e1, s)" "\<not> sub_accepted s"
      "engine_inv e1" "eng_accepted e1 = eng_accepted e"
  | (put) v current did dev e2 where
      "submit U arb_ids e now source who claim = Inr (admit e2 now (device_room dev) current who claim)"
      "source = SourceOk v" "validate_snapshot U v = Inr current" "claim_device_id claim = Some did"
      "index_by device_id (cfg_devices (snap_config current)) did = Some dev"
      "engine_inv e2" "eng_accepted e2 = eng_accepted e" "eng_sequence e2 = eng_sequence e"
      "\<And>rnd. map_of (eng_pending e2) (device_room dev) = Some rnd \<Longrightarrow>
        map_of (eng_pending e) (device_room dev) = Some rnd \<and> now < round_deadline rnd
        \<and> snap_revision (round_config rnd) = snap_revision current"
proof -
  consider (early) s where "submit U arb_ids e now source who claim = Inr (e, s)" "\<not> sub_accepted s"
    | (found) v current did dev where "source = SourceOk v" "validate_snapshot U v = Inr current"
      "claim_device_id claim = Some did"
      "index_by device_id (cfg_devices (snap_config current)) did = Some dev"
  proof -
    have "(\<exists>s. submit U arb_ids e now source who claim = Inr (e, s) \<and> \<not> sub_accepted s)
      \<or> (\<exists>v current did dev. source = SourceOk v \<and> validate_snapshot U v = Inr current
        \<and> claim_device_id claim = Some did
        \<and> index_by device_id (cfg_devices (snap_config current)) did = Some dev)"
      by (auto simp: submit_def Let_def refusal_def split: config_source.splits sum.splits option.splits)
    then show thesis using early found by blast
  qed
  then show thesis
  proof cases
    case (early s)
    then show ?thesis by (rule refused)
  next
    case (found v current did dev)
    let ?r = "device_room dev"
    let ?expired = "?r \<in> set (map fst (filter (\<lambda>(r, rnd). round_deadline rnd \<le> now) (eng_pending e)))"
    obtain e1 ds where fin: "finalize_due arb_ids now (eng_pending e) e [] = Inr (e1, ds)"
      and e1: "engine_inv e1" "eng_accepted e1 = eng_accepted e" "eng_sequence e1 = eng_sequence e"
      and pend: "\<And>r rnd. map_of (eng_pending e1) r = Some rnd \<longleftrightarrow>
        map_of (eng_pending e) r = Some rnd \<and> now < round_deadline rnd"
      by (rule finalize_pending [OF inv, of arb_ids now]) (use that in blast)
    note unfolded = submit_def found Let_def fin
    show ?thesis
    proof (cases ?expired)
      case True
      then have "submit U arb_ids e now source who claim = Inr (e1, refusal (claim_id_of claim) ''late'')"
        by (simp add: unfolded)
      then show ?thesis using late e1 by (simp add: refusal_def)
    next
      case not_expired: False
      show ?thesis
      proof (cases "\<exists>rnd. map_of (eng_pending e1) ?r = Some rnd
          \<and> snap_revision (round_config rnd) \<noteq> snap_revision current")
        case True
        then obtain rnd where rnd: "map_of (eng_pending e1) ?r = Some rnd"
          "snap_revision (round_config rnd) \<noteq> snap_revision current" by blast
        obtain ds2 e2 where fin2: "finalize_room arb_ids e1 ?r = Inr (e2, Some ds2)"
          by (rule finalize_room_settles [OF e1(1) rnd(1), of arb_ids])
        from finalize_room_inv [OF e1(1) rnd(1) fin2] have e2: "engine_inv e2"
          "map_of (eng_pending e2) ?r = None" "eng_accepted e2 = eng_accepted e"
          "eng_sequence e2 = eng_sequence e" using e1 by auto
        have "submit U arb_ids e now source who claim = Inr (admit e2 now ?r current who claim)"
          using not_expired rnd fin2 by (simp add: unfolded)
        then show ?thesis by (rule put [OF _ found e2(1,3,4)]) (simp add: e2(2))
      next
        case False
        then have "submit U arb_ids e now source who claim = Inr (admit e1 now ?r current who claim)"
          using not_expired by (auto simp: unfolded split: option.splits)
        then show ?thesis by (rule put [OF _ found e1]) (use pend False in blast)
      qed
    qed
  qed
qed

lemma submit_inv:
  assumes "engine_inv e" and "source_consistent U e source"
  shows "\<exists>e' s. submit U arb_ids e now source who claim = Inr (e', s) \<and> engine_inv e'"
using assms(1)
proof (cases rule: submit_cases [where U = U and arb_ids = arb_ids and now = now and source = source and who = who and claim = claim])
  case (refused s)
  with assms(1) show ?thesis by blast
next
  case (late e1 s)
  then show ?thesis by blast
next
  case (put v current did dev e2)
  have "engine_inv (fst (admit e2 now (device_room dev) current who claim))"
  proof (rule admit_inv [OF put(6,5,4)])
    fix rnd assume "map_of (eng_pending e2) (device_room dev) = Some rnd"
    from put(9) [OF this] assms(2) show "round_config rnd = current"
      by (auto simp: source_consistent_def put(2,3))
  qed
  with put(1) show ?thesis by (cases "admit e2 now (device_room dev) current who claim") auto
qed

lemma submit_accepted_ids:
  assumes "engine_inv e" and "submit U arb_ids e now source who claim = Inr (e', s)"
  shows "eng_accepted e' = (if sub_accepted s then insert (sub_claim_id s) (eng_accepted e) else eng_accepted e)
    \<and> (sub_accepted s \<longrightarrow> sub_claim_id s = claim_id_of claim \<and> sub_claim_id s \<notin> eng_accepted e)"
using assms(1)
proof (cases rule: submit_cases [where U = U and arb_ids = arb_ids and now = now and source = source and who = who and claim = claim])
  case (refused s1)
  with assms(2) show ?thesis by simp
next
  case (late e1 s1)
  with assms(2) show ?thesis by simp
next
  case (put v current did dev e2)
  show ?thesis
  proof (cases rule: admit_cases [of e2 now "device_room dev" current who claim])
    case (refused reason)
    with put assms(2) show ?thesis by (auto simp: refusal_def)
  next
    case (admitted snap existing c rnd)
    with validate_claim_accepts [OF admitted(2)] put(1,7) assms(2) show ?thesis by auto
  qed
qed

lemma finalize_inv:
  assumes "engine_inv e"
  shows "\<exists>e' ds. finalize arb_ids now e = Inr (e', ds) \<and> engine_inv e' \<and> eng_accepted e' = eng_accepted e"
proof -
  obtain e' ds where "finalize_due arb_ids now (eng_pending e) e [] = Inr (e', ds)" "engine_inv e'"
    "eng_accepted e' = eng_accepted e"
    by (rule finalize_pending [OF assms, of arb_ids now])
  then show ?thesis by (simp add: finalize_def)
qed

text \<open>Reserving an ID and taking a decision leave the rounds alone.\<close>

lemma engine_inv_keep:
  assumes inv: "engine_inv e" and "eng_pending e' = eng_pending e" and "eng_sequence e' = eng_sequence e"
    and acc: "eng_accepted e \<subseteq> eng_accepted e'"
    and res: "set (map fst (eng_resolved e')) \<subseteq> set (map fst (eng_resolved e))"
    and "distinct (map fst (eng_resolved e'))"
  shows "engine_inv e'"
proof (rule engine_invI)
  show "round_ok e' r rnd" if "map_of (eng_pending e') r = Some rnd" for r rnd
  proof -
    have "round_ok e r rnd" using engine_invD(2) [OF inv] that assms(2) by simp
    with acc res assms(3) show ?thesis unfolding round_ok_def by auto
  qed
  show "fst ` set (eng_resolved e') \<subseteq> eng_accepted e'"
    using engine_invD(5) [OF inv] acc res by auto
  show "r = r'" if "map_of (eng_pending e') r = Some rnd" "map_of (eng_pending e') r' = Some rnd'"
    "c \<in> set (round_claims rnd)" "c' \<in> set (round_claims rnd')" "ec_claim_id c = ec_claim_id c'"
    for r r' rnd rnd' c c'
    using engine_invD(3) [OF inv _ _ that(3-5)] that(1,2) assms(2) by simp
qed (use assms engine_invD(1) [OF inv] in simp_all)

lemma reserve_inv: "engine_inv e \<Longrightarrow> engine_inv (fst (reserve_claim_id e cid))"
  by (rule engine_inv_keep [of e]) (auto simp: reserve_claim_id_def dest: engine_invD(4))

lemma decision_inv: "engine_inv e \<Longrightarrow> engine_inv (fst (decision_for e cid))"
proof (rule engine_inv_keep)
  assume "engine_inv e"
  then show "distinct (map fst (eng_resolved (fst (decision_for e cid))))"
    using engine_invD(4) by (simp add: decision_for_def distinct_delete)
qed (auto simp: decision_for_def AList.delete_eq)

lemma engine_exec_inv: "engine_inv e \<Longrightarrow> engine_ok U e p \<Longrightarrow> engine_inv (engine_exec U arb_ids e p)"
proof (cases p)
  case (Submit now source who claim)
  assume "engine_inv e" "engine_ok U e p"
  with Submit submit_inv [of e U source arb_ids now who claim] show ?thesis
    by (auto simp: engine_exec_def engine_ok_def)
next
  case (Finalize now)
  assume "engine_inv e"
  with Finalize finalize_inv [of e arb_ids now] show ?thesis by (auto simp: engine_exec_def)
qed (simp_all add: engine_exec_def reserve_inv decision_inv)

interpretation arbiter: machine "engine_exec U arb_ids" engine_inv "engine_ok U"
  for U arb_ids
  by unfold_locales (rule engine_exec_inv)

section \<open>What the engine guarantees\<close>

text \<open>An accepted ID stays accepted, whatever happens later.\<close>

lemma accepted_stays: "engine_inv e \<Longrightarrow> eng_accepted e \<subseteq> eng_accepted (engine_exec U arb_ids e p)"
proof (cases p)
  case (Submit now source who claim)
  assume inv: "engine_inv e"
  show ?thesis
  proof (cases "submit U arb_ids e now source who claim")
    case (Inl x)
    then show ?thesis by (simp add: engine_exec_def Submit)
  next
    case (Inr es)
    then have "submit U arb_ids e now source who claim = Inr (fst es, snd es)" by simp
    from submit_accepted_ids [OF inv this] Inr show ?thesis
      by (auto simp: engine_exec_def Submit split: if_splits prod.splits)
  qed
next
  case (Finalize now)
  assume "engine_inv e"
  with finalize_inv [of e arb_ids now] Finalize show ?thesis by (auto simp: engine_exec_def)
qed (auto simp: engine_exec_def reserve_claim_id_def decision_for_def)

lemma settles_one_winner:
  assumes "round_ok e r rnd" and "settles ds rnd" and "fst ` set ds = round_ids rnd"
  shows "\<exists>w \<in> set (round_claims rnd). (\<forall>c \<in> set (round_claims rnd). c \<noteq> w \<longrightarrow> beats w c)
    \<and> {k. \<exists>d. map_of ds k = Some d \<and> dec_decision d = Granted} = {ec_claim_id w}"
proof -
  from assms(2) obtain arb w where w: "w \<in> set (round_claims rnd)"
    and best: "\<forall>c \<in> set (round_claims rnd). c = w \<or> beats w c"
    and ds: "\<forall>c \<in> set (round_claims rnd). map_of ds (ec_claim_id c) = Some (decide rnd arb w c)"
    by (auto simp: settles_def)
  have "k = ec_claim_id w" if "map_of ds k = Some d" "dec_decision d = Granted" for k d
  proof -
    from map_of_SomeD [OF that(1)] have "k \<in> fst ` set ds" by force
    then obtain c where c: "c \<in> set (round_claims rnd)" "k = ec_claim_id c"
      unfolding assms(3) round_ids_def by blast
    with ds that have "d = decide rnd arb w c" by simp
    with that(2) c(2) show ?thesis by (simp add: decide_def split: if_splits)
  qed
  moreover have "map_of ds (ec_claim_id w) = Some (decide rnd arb w w)" using w ds by blast
  moreover have "dec_decision (decide rnd arb w w) = Granted" by (simp add: decide_def)
  ultimately have "{k. \<exists>d. map_of ds k = Some d \<and> dec_decision d = Granted} = {ec_claim_id w}"
    by blast
  with w best show ?thesis by blast
qed

text \<open>
  C1. In every state the engine can reach, finalising a Room's pending round returns a
  decision for each claim of the round and for no other, grants exactly one of them, and
  the granted claim has the highest acoustic score, among equal scores the lowest device
  priority, and among equal priorities arrived first.
\<close>

theorem one_winner_per_round:
  assumes "allowed_run (engine_exec U arb_ids) (engine_ok U) new_engine ps"
    and "e = run_ops (engine_exec U arb_ids) new_engine ps"
    and "map_of (eng_pending e) r = Some rnd"
  shows "\<exists>e' ds. finalize_room arb_ids e r = Inr (e', Some ds) \<and> map_of (eng_pending e') r = None
    \<and> fst ` set ds = ec_claim_id ` set (round_claims rnd)
    \<and> (\<exists>w \<in> set (round_claims rnd). (\<forall>c \<in> set (round_claims rnd). c \<noteq> w \<longrightarrow> beats w c)
        \<and> {k. \<exists>d. map_of ds k = Some d \<and> dec_decision d = Granted} = {ec_claim_id w})"
proof -
  have inv: "engine_inv e"
    using arbiter.run_inv [OF engine_inv_new assms(1)] assms(2) by simp
  obtain ds e' where fin: "finalize_room arb_ids e r = Inr (e', Some ds)"
    and keys: "fst ` set ds = round_ids rnd" and settled: "settles ds rnd"
    by (rule finalize_room_settles [OF inv assms(3), of arb_ids])
  with finalize_room_inv [OF inv assms(3) fin] settles_one_winner [OF engine_invD(2) [OF inv assms(3)] settled keys]
  show ?thesis by (auto simp: round_ids_def)
qed

text \<open>
  C18. A claim ID is accepted at most once in the life of the engine: after an accepted
  submission, no later submission with the same claim ID is accepted, whatever the engine
  did in between.
\<close>

theorem claim_id_accepted_once:
  assumes "allowed_run (engine_exec U arb_ids) (engine_ok U) new_engine (ps @ Submit now source who claim # qs)"
    and "submit U arb_ids (run_ops (engine_exec U arb_ids) new_engine ps) now source who claim = Inr (e1, s1)"
    and "sub_accepted s1" and "claim_id_of claim' = claim_id_of claim"
    and "submit U arb_ids (run_ops (engine_exec U arb_ids) e1 qs) now' source' who' claim' = Inr (e2, s2)"
  shows "\<not> sub_accepted s2"
proof -
  let ?exec = "engine_exec U arb_ids"
  let ?e = "run_ops ?exec new_engine ps"
  from assms(1) have runs: "allowed_run ?exec (engine_ok U) new_engine ps"
    "engine_ok U ?e (Submit now source who claim)"
    "allowed_run ?exec (engine_ok U) (?exec ?e (Submit now source who claim)) qs"
    by (auto simp: allowed_run_append)
  have inv: "engine_inv ?e" by (rule arbiter.run_inv [OF engine_inv_new runs(1)])
  have e1: "?exec ?e (Submit now source who claim) = e1"
    using assms(2) by (simp add: engine_exec_def)
  have inv1: "engine_inv e1" using engine_exec_inv [OF inv runs(2), of arb_ids] e1 by simp
  have "claim_id_of claim \<in> eng_accepted e1"
    using submit_accepted_ids [OF inv assms(2)] assms(3) by auto
  then have "claim_id_of claim \<in> eng_accepted (run_ops ?exec e1 qs)"
    using runs(3) subsetD [OF accepted_stays]
    by (intro arbiter.run_stable [where Q = "\<lambda>e. claim_id_of claim \<in> eng_accepted e", OF inv1])
      (auto simp: e1)
  moreover have "engine_inv (run_ops ?exec e1 qs)"
    using arbiter.run_inv [OF inv1] runs(3) e1 by simp
  ultimately show ?thesis
    using submit_accepted_ids [OF _ assms(5)] assms(4) by auto
qed

text \<open>A claim of the example household's kitchen Device, and the call that brings it.\<close>

definition demo_claim :: "string \<Rightarrow> rat \<Rightarrow> pyval" where
  "demo_claim cid score = obj [(''schema'', PInt 1), (''claim_id'', PStr cid), (''device_id'', PStr ''puck''),
     (''wake_mapping_id'', PStr ''wake''), (''configuration_revision'', PInt 1),
     (''observation'', obj [(''at'', PInt 0)]), (''acoustic_evidence'', obj [(''value'', PFloat (Fin score))]),
     (''availability'', PStr ''ready'')]"

definition demo_caller :: caller where
  "demo_caller = \<lparr>authenticated_device_id = Some ''puck'', authorized_rooms = None,
     authorized_wake_claim = None, authorized_wake_mappings = None\<rparr>"

definition demo_source :: config_source where
  "demo_source = SourceOk (snapshot_record demo_snapshot)"

definition demo_submit :: "string \<Rightarrow> rat \<Rightarrow> engine_op" where
  "demo_submit cid score = Submit 0 demo_source demo_caller (demo_claim cid score)"

definition demo_eligible :: "string \<Rightarrow> rat \<Rightarrow> eligible_claim" where
  "demo_eligible cid score = \<lparr>ec_claim_id = cid, ec_device = ''puck'', ec_room = ''kitchen'',
     ec_mapping = ''wake'', ec_profile = ''ada'', ec_score = score, ec_priority = 1, ec_sequence = 0\<rparr>"

lemmas demo_simps = value_simps demo_claim_def demo_caller_def demo_snapshot_def demo_config_def index_by_def

lemma demo_claim_ids: "claim_id_of (demo_claim cid q) = cid" "claim_device_id (demo_claim cid q) = Some ''puck''"
  by (simp_all add: claim_id_of_def claim_device_id_def demo_simps)

lemma demo_claim_valid:
  "bounded_text_128 cid \<Longrightarrow> cid \<notin> existing \<Longrightarrow>
     validate_claim demo_snapshot existing demo_caller (demo_claim cid q) = Inr (demo_eligible cid q)"
  by (simp add: demo_simps validate_claim_fields_def keys_exactly_def str_keys_simps CLAIM_KEYS_def
      bounded_text_128_def claim_eligibility_def scope_allows_claim_def demo_eligible_def)

lemma demo_device:
  "index_by device_id (cfg_devices (snap_config demo_snapshot)) ''puck'' = Some (hd (cfg_devices demo_config))"
  "device_room (hd (cfg_devices demo_config)) = ''kitchen''"
  by (simp_all add: demo_simps)

text \<open>A first claim opens the kitchen's round; a second one joins it.\<close>

lemma demo_submit_first:
  assumes "bounded_text_128 cid"
  shows "submit demo_unicode arb_ids new_engine 0 demo_source demo_caller (demo_claim cid q) =
    Inr (\<lparr>eng_pending = [(''kitchen'', \<lparr>round_config = demo_snapshot, round_deadline = 1 / 4,
            round_claims = [demo_eligible cid q]\<rparr>)],
          eng_resolved = [], eng_accepted = {cid}, eng_sequence = 1, eng_arbitrations = 0\<rparr>,
         \<lparr>sub_claim_id = cid, sub_accepted = True, sub_deadline = Some (1 / 4), sub_reason = None,
          sub_current_revision = None\<rparr>)"
  using assms
  by (simp add: submit_def Let_def demo_source_def demo_snapshot_valid demo_claim_ids demo_device
      new_engine_def admit_def demo_claim_valid ARBITRATION_WINDOW_SECONDS_def)
    (simp add: demo_eligible_def)

theorem one_winner_per_round_witness:
  "\<exists>e' ds. finalize_room (\<lambda>n. ''arb'') (run_ops (engine_exec demo_unicode (\<lambda>n. ''arb'')) new_engine [demo_submit ''a'' 1]) ''kitchen''
      = Inr (e', Some ds)
    \<and> {k. \<exists>d. map_of ds k = Some d \<and> dec_decision d = Granted} = {''a''}"
proof -
  let ?e = "run_ops (engine_exec demo_unicode (\<lambda>n. ''arb'')) new_engine [demo_submit ''a'' 1]"
  let ?rnd = "\<lparr>round_config = demo_snapshot, round_deadline = 1 / 4, round_claims = [demo_eligible ''a'' 1]\<rparr>"
  have e: "eng_pending ?e = [(''kitchen'', ?rnd)]"
    by (simp add: engine_exec_def demo_submit_def demo_submit_first bounded_text_128_def)
  have "allowed_run (engine_exec demo_unicode (\<lambda>n. ''arb'')) (engine_ok demo_unicode) new_engine [demo_submit ''a'' 1]"
    by (simp add: engine_ok_def demo_submit_def source_consistent_def demo_source_def
        demo_snapshot_valid new_engine_def)
  from one_winner_per_round [OF this refl, of "''kitchen''" ?rnd] e show ?thesis
    by (auto simp: demo_eligible_def)
qed

theorem claim_id_accepted_once_witness:
  "\<exists>e1 s1 e2 s2. submit demo_unicode (\<lambda>n. ''arb'') new_engine 0 demo_source demo_caller (demo_claim ''a'' 1) = Inr (e1, s1)
    \<and> sub_accepted s1
    \<and> submit demo_unicode (\<lambda>n. ''arb'') e1 (1 / 8) demo_source demo_caller (demo_claim ''a'' 2) = Inr (e2, s2)
    \<and> \<not> sub_accepted s2"
proof -
  let ?exec = "engine_exec demo_unicode (\<lambda>n. ''arb'')"
  obtain e1 s1 where s1: "submit demo_unicode (\<lambda>n. ''arb'') new_engine 0 demo_source demo_caller (demo_claim ''a'' 1)
      = Inr (e1, s1)" "sub_accepted s1" "eng_pending e1 = [(''kitchen'', \<lparr>round_config = demo_snapshot,
        round_deadline = 1 / 4, round_claims = [demo_eligible ''a'' 1]\<rparr>)]"
    using demo_submit_first [of "''a''" "\<lambda>n. ''arb''" 1] by (auto simp: bounded_text_128_def)
  have ok: "allowed_run ?exec (engine_ok demo_unicode) new_engine [demo_submit ''a'' 1]"
    by (simp add: engine_ok_def demo_submit_def source_consistent_def demo_source_def
        demo_snapshot_valid new_engine_def)
  have "engine_inv e1"
    using arbiter.run_inv [OF engine_inv_new ok] s1(1) by (simp add: engine_exec_def demo_submit_def)
  moreover have "source_consistent demo_unicode e1 demo_source"
    by (simp add: source_consistent_def demo_source_def demo_snapshot_valid s1(3))
  ultimately obtain e2 s2 where s2: "submit demo_unicode (\<lambda>n. ''arb'') e1 (1 / 8) demo_source demo_caller
      (demo_claim ''a'' 2) = Inr (e2, s2)"
    using submit_inv by blast
  have "\<not> sub_accepted s2"
    by (rule claim_id_accepted_once [of demo_unicode "\<lambda>n. ''arb''" "[]" 0 demo_source demo_caller "demo_claim ''a'' 1" "[]"])
      (use ok s1 s2 in \<open>simp_all add: demo_submit_def demo_claim_ids\<close>)
  with s1 s2 show ?thesis by blast
qed



text \<open>
  C31. Finalising at a time settles exactly the rounds whose deadline has passed: the call
  never raises, every claim of a due round receives its decision (one winner per round),
  the decision is also stored for its claimant, and the rounds that are not due stay.
\<close>

theorem finalize_settles_due_rounds:
  assumes "allowed_run (engine_exec U arb_ids) (engine_ok U) new_engine ps"
    and "e = run_ops (engine_exec U arb_ids) new_engine ps"
  shows "\<exists>e' ds. finalize arb_ids now e = Inr (e', if ds = [] then None else Some ds)
    \<and> (\<forall>r rnd. map_of (eng_pending e) r = Some rnd \<longrightarrow> round_deadline rnd \<le> now
         \<longrightarrow> settles ds rnd \<and> settles (eng_resolved e') rnd)
    \<and> (\<forall>r rnd. map_of (eng_pending e') r = Some rnd
         \<longleftrightarrow> map_of (eng_pending e) r = Some rnd \<and> now < round_deadline rnd)"
proof -
  have inv: "engine_inv e"
    using arbiter.run_inv [OF engine_inv_new assms(1)] assms(2) by simp
  obtain e' ds where "finalize_due arb_ids now (eng_pending e) e [] = Inr (e', ds)"
    and "\<And>r rnd. map_of (eng_pending e') r = Some rnd \<longleftrightarrow>
      map_of (eng_pending e) r = Some rnd \<and> now < round_deadline rnd"
    and "\<And>r rnd. map_of (eng_pending e) r = Some rnd \<Longrightarrow> round_deadline rnd \<le> now \<Longrightarrow>
      settles ds rnd \<and> settles (eng_resolved e') rnd"
    by (rule finalize_pending [OF inv, of arb_ids now]) (use that in blast)
  then show ?thesis by (auto simp: finalize_def intro!: exI [of _ e'] exI [of _ ds])
qed

theorem finalize_settles_due_rounds_witness:
  "\<exists>e' ds rnd. finalize (\<lambda>n. ''arb'') 1
      (run_ops (engine_exec demo_unicode (\<lambda>n. ''arb'')) new_engine [demo_submit ''a'' 1]) = Inr (e', ds)
    \<and> round_claims rnd = [demo_eligible ''a'' 1] \<and> settles (eng_resolved e') rnd \<and> map_of (eng_pending e') ''kitchen'' = None"
proof -
  let ?e = "run_ops (engine_exec demo_unicode (\<lambda>n. ''arb'')) new_engine [demo_submit ''a'' 1]"
  let ?rnd = "\<lparr>round_config = demo_snapshot, round_deadline = 1 / 4, round_claims = [demo_eligible ''a'' 1]\<rparr>"
  have e: "eng_pending ?e = [(''kitchen'', ?rnd)]"
    by (simp add: engine_exec_def demo_submit_def demo_submit_first bounded_text_128_def)
  have "allowed_run (engine_exec demo_unicode (\<lambda>n. ''arb'')) (engine_ok demo_unicode) new_engine [demo_submit ''a'' 1]"
    by (simp add: engine_ok_def demo_submit_def source_consistent_def demo_source_def
        demo_snapshot_valid new_engine_def)
  from finalize_settles_due_rounds [OF this refl, of 1] obtain e' ds where
    fin: "finalize (\<lambda>n. ''arb'') 1 ?e = Inr (e', if ds = [] then None else Some ds)"
    and settled: "\<forall>r rnd. map_of (eng_pending ?e) r = Some rnd \<longrightarrow> round_deadline rnd \<le> 1
      \<longrightarrow> settles ds rnd \<and> settles (eng_resolved e') rnd"
    and left: "\<forall>r rnd. map_of (eng_pending e') r = Some rnd
      \<longleftrightarrow> map_of (eng_pending ?e) r = Some rnd \<and> 1 < round_deadline rnd"
    by blast
  have "settles (eng_resolved e') ?rnd"
    using settled [unfolded e, rule_format, of "''kitchen''" ?rnd] by simp
  moreover have "map_of (eng_pending e') ''kitchen'' = None"
  proof (cases "map_of (eng_pending e') ''kitchen''")
    case (Some x)
    with left [unfolded e, rule_format, of "''kitchen''" x] show ?thesis by auto
  qed simp
  moreover have "round_claims ?rnd = [demo_eligible ''a'' 1]" by simp
  ultimately show ?thesis using fin by blast
qed

end
