(* ===== verification/Configuration_Store.thy ===== *)
theory Configuration_Store
  imports Configuration
begin

text \<open>
  The configuration row (\<open>storage/sqlite.py\<close>, \<open>SQLiteConfigurationStore\<close>): one SQLite row
  with a revision and a JSON text, read and conditionally replaced in a transaction. The
  text column holds the document it decodes to, or \<open>NotJson\<close> when \<open>json.loads\<close> would
  raise. A \<open>sqlite3.Error\<close> can strike at any statement: the operations take the
  statement that fails, if one does. \<open>revision_store\<close> is the contract the rest of
  the service relies on.
\<close>

section \<open>The row and its errors\<close>

datatype column = Document pyval | NotJson

record config_row =
  row_revision :: int
  row_snapshot :: column

type_synonym config_db = "config_row option"

datatype store_error =
    ConfigurationStoreError
  | RowMissing
  | DecodeError
  | RevisionInconsistent
  | ConfigurationMigrationRequired int
  | RevisionConflict int
  | InvalidConfiguration config_error
  | InvalidExpectedRevision

datatype statement = Begin | Select | Update | Commit

section \<open>Operations\<close>

definition EMPTY_CONFIGURATION :: pyval where
  "EMPTY_CONFIGURATION = obj [(''revision'', PInt 0), (''rooms'', PList []), (''profiles'', PList []),
     (''wake_mappings'', PList []), (''devices'', PList [])]"

text \<open>\<open>CREATE TABLE IF NOT EXISTS\<close> and \<open>INSERT OR IGNORE\<close>.\<close>

definition open_store :: "config_db \<Rightarrow> config_db" where
  "open_store db = (case db of
       None \<Rightarrow> Some \<lparr>row_revision = 0, row_snapshot = Document EMPTY_CONFIGURATION\<rparr>
     | Some r \<Rightarrow> Some r)"

text \<open>Python's \<open>==\<close> between a decoded value and the integer of the revision column.\<close>

fun py_equals_int :: "pyval \<Rightarrow> int \<Rightarrow> bool" where
  "py_equals_int (PInt m) n = (m = n)"
| "py_equals_int (PBool b) n = ((if b then 1 else 0) = n)"
| "py_equals_int (PFloat (Fin q)) n = (q = of_int n)"
| "py_equals_int v n = False"

fun has_legacy_profile :: "pyval \<Rightarrow> bool" where
  "has_legacy_profile (PDict d) = dhas d ''profile_id''"
| "has_legacy_profile v = False"

fun legacy_devices :: "pyval option \<Rightarrow> bool" where
  "legacy_devices (Some (PList xs)) = list_ex has_legacy_profile xs"
| "legacy_devices v = False"

definition read_row :: "unicode \<Rightarrow> config_row \<Rightarrow> (store_error, snapshot) result" where
  "read_row U row = (case row_snapshot row of
       NotJson \<Rightarrow> Inl DecodeError
     | Document (PDict d) \<Rightarrow>
         if \<not> py_equals_int (dfield d ''revision'') (row_revision row) then Inl RevisionInconsistent
         else if \<not> dhas d ''profiles'' \<or> legacy_devices (dget d ''devices'')
         then Inl (ConfigurationMigrationRequired (row_revision row))
         else (case validate_snapshot U (PDict d) of
             Inl e \<Rightarrow> Inl (InvalidConfiguration e) | Inr s \<Rightarrow> Inr s)
     | Document v \<Rightarrow> Inl RevisionInconsistent)"

definition read_store :: "unicode \<Rightarrow> bool \<Rightarrow> config_db \<Rightarrow> (store_error, snapshot) result" where
  "read_store U sqlite_error db =
     (if sqlite_error then Inl ConfigurationStoreError
      else case db of None \<Rightarrow> Inl RowMissing | Some row \<Rightarrow> read_row U row)"

text \<open>
  The transaction of \<open>replace\<close> after the candidate has been validated: any failure
  between \<open>BEGIN IMMEDIATE\<close> and the commit rolls back.
\<close>

definition publish_row :: "statement option \<Rightarrow> config_db \<Rightarrow> int \<Rightarrow> configuration
    \<Rightarrow> (store_error, snapshot) result \<times> config_db" where
  "publish_row fault db expected cfg =
     (if fault = Some Begin then (Inl ConfigurationStoreError, db)
      else if fault = Some Select then (Inl ConfigurationStoreError, db)
      else case db of
          None \<Rightarrow> (Inl RowMissing, db)
        | Some row \<Rightarrow>
            if row_revision row \<noteq> expected then (Inl (RevisionConflict (row_revision row)), db)
            else let s = \<lparr>snap_revision = row_revision row + 1, snap_config = cfg\<rparr>;
                     row' = \<lparr>row_revision = snap_revision s, row_snapshot = Document (snapshot_record s)\<rparr>
              in if fault = Some Update \<or> fault = Some Commit then (Inl ConfigurationStoreError, db)
                 else (Inr s, Some row'))"

fun require_expected_revision :: "pyval \<Rightarrow> (store_error, int) result" where
  "require_expected_revision (PInt n) = (if n < 0 then Inl InvalidExpectedRevision else Inr n)"
| "require_expected_revision v = Inl InvalidExpectedRevision"

definition replace_configuration :: "unicode \<Rightarrow> statement option \<Rightarrow> config_db \<Rightarrow> pyval \<Rightarrow> pyval
    \<Rightarrow> (store_error, snapshot) result \<times> config_db" where
  "replace_configuration U fault db expected candidate =
     (case require_expected_revision expected of
        Inl e \<Rightarrow> (Inl e, db)
      | Inr n \<Rightarrow> (case validate_candidate U candidate of
            Inl e \<Rightarrow> (Inl (InvalidConfiguration e), db)
          | Inr cfg \<Rightarrow> publish_row fault db n cfg))"

section \<open>The contract of a revisioned store\<close>

text \<open>
  A store shows a revision and a value. A successful publish was based on the revision
  shown, raises it by one and shows the published value; a failed one changes nothing.
\<close>

locale revision_store =
  fixes view :: "'db \<Rightarrow> (int \<times> 'cfg) option"
    and publish :: "'db \<Rightarrow> 'op \<Rightarrow> ('e, int \<times> 'cfg) result \<times> 'db"
    and base :: "'op \<Rightarrow> int option"
    and valid :: "'db \<Rightarrow> bool"
  assumes valid_view: "valid db \<Longrightarrow> view db \<noteq> None"
    and publish_ok: "valid db \<Longrightarrow> publish db p = (Inr v, db') \<Longrightarrow>
      \<exists>c. view db = Some (the (base p), c) \<and> base p \<noteq> None \<and> fst v = the (base p) + 1
        \<and> view db' = Some v \<and> valid db'"
    and publish_fail: "valid db \<Longrightarrow> publish db p = (Inl e, db') \<Longrightarrow> db' = db"
begin

abbreviation step :: "'db \<Rightarrow> 'op \<Rightarrow> 'db" where
  "step db p \<equiv> snd (publish db p)"

abbreviation rev :: "'db \<Rightarrow> int" where
  "rev db \<equiv> fst (the (view db))"

lemma publish_cases:
  assumes "valid db"
  obtains (ok) v c where "publish db p = (Inr v, step db p)" "view db = Some (the (base p), c)"
      "base p \<noteq> None" "fst v = the (base p) + 1" "view (step db p) = Some v" "valid (step db p)"
    | (fail) e where "publish db p = (Inl e, step db p)" "step db p = db"
proof (cases "fst (publish db p)")
  case (Inl e)
  then have "publish db p = (Inl e, step db p)" by (metis prod.collapse)
  then show thesis using fail publish_fail [OF assms] by blast
next
  case (Inr v)
  then have "publish db p = (Inr v, step db p)" by (metis prod.collapse)
  then show thesis using ok publish_ok [OF assms] by blast
qed

lemma step_valid: "valid db \<Longrightarrow> valid (step db p)"
  by (rule publish_cases [of db p]) auto

lemma step_cases: "valid db \<Longrightarrow> step db p = db \<or> rev (step db p) = rev db + 1"
  by (rule publish_cases [of db p]) auto

lemma run_valid: "valid db \<Longrightarrow> valid (run_ops step db ps)"
  by (induction ps arbitrary: db) (auto intro: step_valid)

lemma run_mono: "valid db \<Longrightarrow> rev db \<le> rev (run_ops step db ps)"
proof (induction ps arbitrary: db)
  case Nil
  then show ?case by simp
next
  case (Cons p ps)
  from step_cases [OF Cons.prems, of p] have "rev db \<le> rev (step db p)" by force
  also have "\<dots> \<le> rev (run_ops step (step db p) ps)"
    using Cons.IH step_valid Cons.prems by blast
  finally show ?case by simp
qed

text \<open>One revision names one value: along any run, an unchanged revision is an unchanged store.\<close>

lemma same_revision_same_value:
  "valid db \<Longrightarrow> rev (run_ops step db ps) = rev db \<Longrightarrow> view (run_ops step db ps) = view db"
proof (induction ps arbitrary: db)
  case Nil
  then show ?case by simp
next
  case (Cons p ps)
  have "rev (step db p) \<le> rev (run_ops step (step db p) ps)"
    using run_mono step_valid Cons.prems(1) by blast
  with Cons.prems step_cases [of db p] have "step db p = db" by auto
  with Cons show ?case by simp
qed

text \<open>A later publish based on a revision that was already replaced fails.\<close>

lemma no_lost_update:
  assumes "valid db" and "publish db p = (Inr v, db')" and "base q = base p"
  shows "\<exists>e. fst (publish (run_ops step db' ps) q) = Inl e"
proof (rule ccontr)
  let ?db = "run_ops step db' ps"
  assume "\<not> ?thesis"
  then obtain w db'' where q: "publish ?db q = (Inr w, db'')"
    by (metis obj_sumE prod.collapse)
  from publish_ok [OF assms(1,2)] have v: "fst v = the (base p) + 1" "view db' = Some v" "valid db'"
    by auto
  from run_valid [OF v(3)] have "valid ?db" .
  from publish_ok [OF this q] have "rev ?db = the (base p)" using assms(3) by auto
  moreover have "rev db' \<le> rev ?db" by (rule run_mono [OF v(3)])
  ultimately show False using v by simp
qed

end

section \<open>The SQLite store provides it\<close>

definition stored :: "snapshot \<Rightarrow> config_row" where
  "stored s = \<lparr>row_revision = snap_revision s, row_snapshot = Document (snapshot_record s)\<rparr>"

definition store_ok :: "unicode \<Rightarrow> config_db \<Rightarrow> bool" where
  "store_ok U db \<longleftrightarrow> (\<exists>s. db = Some (stored s) \<and> wf_configuration U (snap_config s) \<and> 0 \<le> snap_revision s)"

definition store_view :: "unicode \<Rightarrow> config_db \<Rightarrow> (int \<times> configuration) option" where
  "store_view U db = (case read_store U False db of
      Inl e \<Rightarrow> None | Inr s \<Rightarrow> Some (snap_revision s, snap_config s))"

text \<open>One publish request: the failing statement, the expected revision and the candidate.\<close>

type_synonym publish_request = "statement option \<times> pyval \<times> pyval"

definition store_publish :: "unicode \<Rightarrow> config_db \<Rightarrow> publish_request
    \<Rightarrow> (store_error, int \<times> configuration) result \<times> config_db" where
  "store_publish U db q = (case q of (fault, expected, candidate) \<Rightarrow>
     (case replace_configuration U fault db expected candidate of
        (Inl e, db') \<Rightarrow> (Inl e, db')
      | (Inr s, db') \<Rightarrow> (Inr (snap_revision s, snap_config s), db')))"

definition request_base :: "publish_request \<Rightarrow> int option" where
  "request_base q = (case fst (snd q) of PInt n \<Rightarrow> Some n | _ \<Rightarrow> None)"

lemma snapshot_record_not_legacy: "legacy_devices (dget (map (\<lambda>(k, v). (KStr k, v))
    ((''revision'', PInt r) # config_fields c)) ''devices'') = False"
  by (simp add: config_fields_def decode_simps list_ex_iff device_record_def obj_def image_iff
      split: option.splits)

lemma read_stored:
  assumes "wf_configuration U (snap_config s)" and "0 \<le> snap_revision s"
  shows "read_row U (stored s) = Inr s"
proof -
  have "dhas (map (\<lambda>(k, v). (KStr k, v))
      ((''revision'', PInt (snap_revision s)) # config_fields (snap_config s))) ''profiles''"
    by (simp add: config_fields_def decode_simps)
  with validate_snapshot_complete [OF assms] show ?thesis
    using snapshot_record_not_legacy [of "snap_revision s" "snap_config s"]
    by (simp add: read_row_def stored_def snapshot_record_def obj_def value_simps)
qed

lemma read_store_ok:
  "store_ok U db \<Longrightarrow> \<exists>s. db = Some (stored s) \<and> read_store U False db = Inr s
     \<and> wf_configuration U (snap_config s) \<and> 0 \<le> snap_revision s"
  by (auto simp: store_ok_def read_store_def read_stored)

lemma empty_configuration_stored:
  "\<lparr>row_revision = 0, row_snapshot = Document EMPTY_CONFIGURATION\<rparr> =
     stored \<lparr>snap_revision = 0, snap_config =
       \<lparr>cfg_rooms = [], cfg_profiles = [], cfg_mappings = [], cfg_devices = [], cfg_clients = []\<rparr>\<rparr>"
  by (simp add: stored_def EMPTY_CONFIGURATION_def snapshot_record_def config_fields_def)

lemma open_store_ok: "store_ok U (open_store None)"
  unfolding open_store_def store_ok_def option.case empty_configuration_stored
  by (rule exI, rule conjI, rule refl)
    (simp add: wf_configuration_def wf_rooms_def wf_profiles_def wf_mappings_def wf_devices_def
      wf_clients_def active_phrases_def room_priorities_def approvals_def)

lemma replace_success:
  assumes "store_ok U db" and "replace_configuration U fault db expected candidate = (Inr s', db')"
  shows "\<exists>s. read_store U False db = Inr s \<and> expected = PInt (snap_revision s)
    \<and> validate_candidate U candidate = Inr (snap_config s')
    \<and> snap_revision s' = snap_revision s + 1 \<and> db' = Some (stored s') \<and> store_ok U db'
    \<and> read_store U False db' = Inr s'"
proof -
  from read_store_ok [OF assms(1)] obtain s where
    s: "db = Some (stored s)" "read_store U False db = Inr s" "0 \<le> snap_revision s" by auto
  from assms(2) obtain cfg where
    cfg: "validate_candidate U candidate = Inr cfg" "expected = PInt (snap_revision s)"
    "s' = \<lparr>snap_revision = snap_revision s + 1, snap_config = cfg\<rparr>" "db' = Some (stored s')"
    by (cases expected) (auto simp: replace_configuration_def publish_row_def s(1) stored_def Let_def
        split: sum.splits if_splits)
  from validate_candidate_sound [OF cfg(1)] have wf: "wf_configuration U cfg" .
  with cfg s(3) have "store_ok U db'" by (auto simp: store_ok_def)
  moreover have "read_store U False db' = Inr s'"
    using wf s(3) cfg(3) by (simp add: cfg(4) read_store_def read_stored)
  ultimately show ?thesis using s cfg by auto
qed

lemma replace_failure:
  "replace_configuration U fault db expected candidate = (Inl e, db') \<Longrightarrow> db' = db"
  by (auto simp: replace_configuration_def publish_row_def Let_def split: sum.splits option.splits if_splits)

interpretation config_store: revision_store "store_view U" "store_publish U" request_base "store_ok U"
  for U
proof (unfold_locales, goal_cases)
  case (1 db)
  then show ?case using read_store_ok by (force simp: store_view_def)
next
  case (2 db p v db')
  obtain fault expected candidate where p: "p = (fault, expected, candidate)" by (cases p)
  from 2(2) obtain s' where s': "replace_configuration U fault db expected candidate = (Inr s', db')"
    "v = (snap_revision s', snap_config s')"
    by (auto simp: store_publish_def p split: sum.splits prod.splits)
  from replace_success [OF 2(1) s'(1)] s'(2) show ?case
    by (auto simp: store_view_def request_base_def p)
next
  case (3 db p e db')
  then show ?case
    by (cases p) (auto simp: store_publish_def split: sum.splits prod.splits dest: replace_failure)
qed

section \<open>What the store guarantees\<close>

definition demo_db :: config_db where
  "demo_db = open_store None"

lemma demo_replace:
  "replace_configuration demo_unicode None demo_db (PInt 0) (candidate_record demo_config) =
     (Inr demo_snapshot, Some (stored demo_snapshot))"
  by (simp add: replace_configuration_def validate_candidate_complete [OF demo_config_wf] publish_row_def
      demo_db_def open_store_def Let_def demo_snapshot_def stored_def)

text \<open>
  C26. Publishing is atomic and optimistic. A publish that succeeds named the revision a
  read returns, and afterwards a read returns its validated candidate under the next
  revision; a publish that fails, for a stale revision, an invalid candidate or an SQLite
  error at any statement, leaves the stored row as it was, so a read returns what it
  returned before.
\<close>

theorem publish_atomic:
  assumes "store_ok U db" and "replace_configuration U fault db expected candidate = (res, db')"
  shows "store_ok U db' \<and> (case res of
      Inl e \<Rightarrow> db' = db
    | Inr s' \<Rightarrow> \<exists>s. read_store U False db = Inr s \<and> expected = PInt (snap_revision s)
        \<and> validate_candidate U candidate = Inr (snap_config s')
        \<and> snap_revision s' = snap_revision s + 1 \<and> read_store U False db' = Inr s')"
  using assms replace_success replace_failure by (cases res) fastforce+

theorem publish_atomic_witness:
  "store_ok demo_unicode demo_db \<and> read_store demo_unicode False (Some (stored demo_snapshot)) = Inr demo_snapshot"
proof -
  have "store_ok demo_unicode demo_db" unfolding demo_db_def by (rule open_store_ok)
  with publish_atomic [OF this demo_replace] show ?thesis by auto
qed

text \<open>
  C11. No published configuration is lost: once a publish based on some revision has
  succeeded, a second publish based on the same revision fails, however many other
  publishes are attempted in between.
\<close>

theorem publish_no_lost_update:
  assumes "store_ok U db" and "store_publish U db p = (Inr v, db')" and "request_base q = request_base p"
  shows "\<exists>e. fst (store_publish U (run_ops (\<lambda>d r. snd (store_publish U d r)) db' ps) q) = Inl e"
  by (rule config_store.no_lost_update [OF assms])

theorem publish_no_lost_update_witness:
  "\<exists>e. fst (store_publish demo_unicode (run_ops (\<lambda>d r. snd (store_publish demo_unicode d r))
      (Some (stored demo_snapshot)) []) (None, PInt 0, candidate_record demo_config)) = Inl e"
proof -
  let ?p = "(None, PInt 0, candidate_record demo_config)"
  have "store_ok demo_unicode demo_db" unfolding demo_db_def by (rule open_store_ok)
  moreover have "store_publish demo_unicode demo_db ?p =
      (Inr (snap_revision demo_snapshot, snap_config demo_snapshot), Some (stored demo_snapshot))"
    by (simp add: store_publish_def demo_replace)
  ultimately show ?thesis by (rule publish_no_lost_update) simp
qed

end
