(* ===== verification/Credential_Types.thy ===== *)
theory Credential_Types
  imports Home_Prelude
begin

text \<open>
  The endpoint credential vocabulary (\<open>domain/credentials.py\<close>): scopes and their
  validation, enrollment and confirmation codes, and the records of the credential state.
  The state row is a JSON document the service itself writes; its records are typed here
  by what the service writes, with the keys that may be absent as options, a timestamp
  as a rational and a status as the finite set of its spellings. A read of a record still
  makes the length, uniqueness and range checks the source makes.
\<close>

section \<open>Errors and constants\<close>

datatype cred_error = CredentialValidationError string | CredentialStateError string | KeyError string

type_synonym 'a cred_result = "(cred_error, 'a) result"

abbreviation invalid :: "string \<Rightarrow> 'a cred_result" where
  "invalid m \<equiv> Inl (CredentialValidationError m)"

abbreviation refuse :: "string \<Rightarrow> 'a cred_result" where
  "refuse code \<equiv> Inl (CredentialStateError code)"

definition SUPPORTED_CREDENTIAL_CAPABILITIES :: "string list" where
  "SUPPORTED_CREDENTIAL_CAPABILITIES = [''client_claim'', ''consequence_confirm'', ''health_view'',
     ''sensitive_entry'', ''touch_claim'', ''wake_claim'', ''watch_view'']"

definition CLIENT_ENDPOINT_TYPES :: "string list" where
  "CLIENT_ENDPOINT_TYPES = [''tui'', ''ios'', ''macos'', ''android'', ''browser'']"

definition CREDENTIAL_TTL_SECONDS :: rat where "CREDENTIAL_TTL_SECONDS = 90 * 24 * 60 * 60"
definition RENEWAL_WINDOW_SECONDS :: rat where "RENEWAL_WINDOW_SECONDS = 14 * 24 * 60 * 60"
definition ROTATION_OVERLAP_SECONDS :: rat where "ROTATION_OVERLAP_SECONDS = 600"
definition PENDING_OWNER_GRANT_TTL_SECONDS :: rat where "PENDING_OWNER_GRANT_TTL_SECONDS = 24 * 60 * 60"
definition MAX_CLIENT_GRANTS :: nat where "MAX_CLIENT_GRANTS = 16"

definition SECURE_STORAGE_PLATFORM :: string where "SECURE_STORAGE_PLATFORM = ''platform_secure_store''"
definition SECURE_STORAGE_PRIVATE_FILE :: string where "SECURE_STORAGE_PRIVATE_FILE = ''service_private_file''"

section \<open>Scopes\<close>

record touch_binding =
  touch_room :: string
  touch_profile :: string

record cred_scope =
  scope_rooms :: "string list"
  scope_capabilities :: "string list"
  scope_mappings :: "string list"
  scope_touch :: "touch_binding option"

fun bounded_item :: "pyval \<Rightarrow> string option" where
  "bounded_item (PStr s) = (if bounded_text_128 s then Some s else None)"
| "bounded_item v = None"

fun bounded_values :: "pyval \<Rightarrow> string \<Rightarrow> string list cred_result" where
  "bounded_values (PList xs) fld =
     (let items = map bounded_item xs
      in if list_ex (\<lambda>i. i = None) items then invalid (''scope.'' @ fld @ '' contains an invalid identifier'')
         else let values = map the items
           in if length (remdups values) \<noteq> length values
              then invalid (''scope.'' @ fld @ '' contains duplicate values'')
              else Inr values)"
| "bounded_values v fld = invalid (''scope.'' @ fld @ '' must be an array'')"

declare bounded_values.simps [simp del]

text \<open>The same check on values that are already strings.\<close>

abbreviation bounded_strings :: "string list \<Rightarrow> string \<Rightarrow> string list cred_result" where
  "bounded_strings xs fld \<equiv> bounded_values (PList (map PStr xs)) fld"

definition bind_touch :: "pyval \<Rightarrow> pyval \<Rightarrow> touch_binding option cred_result" where
  "bind_touch r p = bindE (bounded_values (PList [r, p]) ''touch_binding'') (\<lambda>ids.
     Inr (Some \<lparr>touch_room = ids ! 0, touch_profile = ids ! 1\<rparr>))"

definition has_exactly :: "pydict \<Rightarrow> string list \<Rightarrow> bool" where
  "has_exactly d ks \<longleftrightarrow> list_all (\<lambda>k. KStr k \<in> set (map fst d)) ks
     \<and> list_all (\<lambda>(k, v). k \<in> set (map KStr ks)) d"

fun touch_binding_of :: "pyval \<Rightarrow> touch_binding option cred_result" where
  "touch_binding_of PNone = Inr None"
| "touch_binding_of (PDict d) =
     (if has_exactly d [''room_id'', ''profile_id'']
      then bind_touch (dfield d ''room_id'') (dfield d ''profile_id'')
      else invalid ''scope.touch_binding is invalid'')"
| "touch_binding_of v = invalid ''scope.touch_binding is invalid''"

definition scope_from_values :: "pyval \<Rightarrow> pyval \<Rightarrow> pyval \<Rightarrow> pyval \<Rightarrow> cred_scope cred_result" where
  "scope_from_values rooms caps mappings touch =
     bindE (bounded_values rooms ''rooms'') (\<lambda>rs.
     bindE (bounded_values caps ''capabilities'') (\<lambda>cs.
     bindE (bounded_values mappings ''wake_mappings'') (\<lambda>ms.
     bindE (touch_binding_of touch) (\<lambda>tb.
     if \<not> list_all (\<lambda>c. c \<in> set SUPPORTED_CREDENTIAL_CAPABILITIES) cs
     then invalid ''scope contains an unsupported capability''
     else Inr \<lparr>scope_rooms = rs, scope_capabilities = cs, scope_mappings = ms, scope_touch = tb\<rparr>))))"

definition touch_record :: "touch_binding \<Rightarrow> pyval" where
  "touch_record t = obj [(''room_id'', PStr (touch_room t)), (''profile_id'', PStr (touch_profile t))]"

definition scope_record :: "cred_scope \<Rightarrow> pyval" where
  "scope_record sc = obj
     ([(''rooms'', PList (map PStr (scope_rooms sc))),
       (''capabilities'', PList (map PStr (scope_capabilities sc))),
       (''wake_mappings'', PList (map PStr (scope_mappings sc)))]
      @ (case scope_touch sc of None \<Rightarrow> [] | Some t \<Rightarrow> [(''touch_binding'', touch_record t)]))"

fun scope_from_record :: "pyval \<Rightarrow> cred_scope cred_result" where
  "scope_from_record (PDict d) = scope_from_values (dget_or d ''rooms'' (PList []))
     (dget_or d ''capabilities'' (PList [])) (dget_or d ''wake_mappings'' (PList []))
     (dget_or d ''touch_binding'' PNone)"
| "scope_from_record v = invalid ''credential scope is invalid''"

definition assert_subset_of :: "cred_scope \<Rightarrow> cred_scope \<Rightarrow> unit cred_result" where
  "assert_subset_of sc requested =
     checkE (set (scope_rooms sc) \<subseteq> set (scope_rooms requested)
        \<and> set (scope_capabilities sc) \<subseteq> set (scope_capabilities requested))
       (CredentialValidationError ''approved scope exceeds requested scope'')"

definition validate_private_puck_scope :: "cred_scope \<Rightarrow> bool \<Rightarrow> unit cred_result" where
  "validate_private_puck_scope sc approved =
     checkE (length (scope_rooms sc) = 1 \<and> scope_capabilities sc = [''wake_claim'']
         \<and> scope_touch sc = None \<and> (approved \<longrightarrow> scope_mappings sc \<noteq> []))
       (CredentialValidationError ''private-file puck requires one room, wake_claim and approved mappings'')"

definition validate_browser_scope :: "cred_scope \<Rightarrow> unit cred_result" where
  "validate_browser_scope sc =
     checkE (scope_capabilities sc = [''client_claim''] \<and> scope_rooms sc = []
         \<and> scope_mappings sc = [] \<and> scope_touch sc = None)
       (CredentialValidationError ''browser scope must contain only client_claim'')"

definition validate_storage :: "string \<Rightarrow> pyval \<Rightarrow> unit cred_result" where
  "validate_storage endpoint_type storage =
     (if endpoint_type = ''puck'' \<and> storage = PStr SECURE_STORAGE_PRIVATE_FILE then Inr ()
      else let expected = (if endpoint_type = ''browser'' then SECURE_STORAGE_PRIVATE_FILE
                           else SECURE_STORAGE_PLATFORM)
        in checkE (storage = PStr expected)
             (CredentialValidationError (''secure storage must be '' @ expected)))"

section \<open>Identifiers and codes\<close>

fun timestamp :: "pyval \<Rightarrow> rat cred_result" where
  "timestamp (PInt n) = (case float_of_int n of
       None \<Rightarrow> invalid ''credential timestamp is invalid'' | Some t \<Rightarrow> Inr t)"
| "timestamp (PFloat (Fin t)) = Inr t"
| "timestamp v = invalid ''credential timestamp is invalid''"

fun require_ident :: "pyval \<Rightarrow> string \<Rightarrow> string cred_result" where
  "require_ident (PStr s) fld =
     (if bounded_text_128 s then Inr s else invalid (fld @ '' must be a string of 1-128 characters''))"
| "require_ident v fld = invalid (fld @ '' must be a string of 1-128 characters'')"

fun positive_integer :: "pyval \<Rightarrow> string \<Rightarrow> int cred_result" where
  "positive_integer (PInt n) fld =
     (if n < 1 then invalid (fld @ '' must be a positive integer'') else Inr n)"
| "positive_integer v fld = invalid (fld @ '' must be a positive integer'')"

fun profile_mapping_of :: "pyval \<Rightarrow> (string \<times> string) cred_result" where
  "profile_mapping_of (PDict d) =
     (if has_exactly d [''profile_id'', ''label'']
      then bindE (require_ident (dfield d ''profile_id'') ''profile_id'') (\<lambda>p.
           bindE (require_ident (dfield d ''label'') ''profile label'') (\<lambda>l. Inr (p, l)))
      else invalid ''invalid requested profile mapping'')"
| "profile_mapping_of v = invalid ''invalid requested profile mapping''"

fun profile_mappings :: "pyval \<Rightarrow> (string \<times> string) list cred_result" where
  "profile_mappings (PList xs) =
     (if 16 < length xs then invalid ''too many requested profile mappings''
      else mapE profile_mapping_of xs)"
| "profile_mappings v = invalid ''requested_profile_mappings must be an array''"

definition CODE_ALPHABET :: string where
  "CODE_ALPHABET = ''0123456789ABCDEFGHJKMNPQRSTVWXYZ''"

definition SHORT_ENROLLMENT_CODE_LENGTH :: nat where
  "SHORT_ENROLLMENT_CODE_LENGTH = 10"

text \<open>
  \<open>str.upper\<close> on one character: the ASCII and Latin-1 letters, and the sharp s that
  becomes two letters. The two Latin-1 letters whose capital lies beyond 255 keep their
  code; neither they nor their capitals are in the code alphabet.
\<close>

definition upper_char :: "char \<Rightarrow> string" where
  "upper_char c =
     (let n = ord_of c
      in if 97 \<le> n \<and> n \<le> 122 then [char_of (n - 32)]
         else if n = 223 then ''SS''
         else if 224 \<le> n \<and> n \<le> 254 \<and> n \<noteq> 247 then [char_of (n - 32)]
         else [c])"

definition py_upper :: "string \<Rightarrow> string" where
  "py_upper s = concat (map upper_char s)"

definition normalize_enrollment_code :: "string \<Rightarrow> string" where
  "normalize_enrollment_code v =
     (let compact = py_upper (filter (\<lambda>c. c \<noteq> CHR ''-'' \<and> c \<noteq> CHR '' '') v)
      in if length compact = SHORT_ENROLLMENT_CODE_LENGTH \<and> list_all (\<lambda>c. c \<in> set CODE_ALPHABET) compact
         then compact else v)"

definition format_short_enrollment_code :: "string \<Rightarrow> string" where
  "format_short_enrollment_code v =
     (let half = SHORT_ENROLLMENT_CODE_LENGTH div 2 in take half v @ ''-'' @ drop half v)"

definition is_confirmation_code :: "string \<Rightarrow> bool" where
  "is_confirmation_code v \<longleftrightarrow> length v = 8 \<and> list_all (\<lambda>c. c \<in> set CODE_ALPHABET) v"

section \<open>Records of the credential state\<close>

datatype offer_state = Offered | OfferPending | OfferExpired | OfferConsumed

record offer =
  offer_id :: string
  offer_digest :: string
  offer_expires :: rat
  offer_state :: offer_state

datatype request_state = RequestPending | RequestApproved | RequestRejected | RequestExpired | RequestConsumed

record enrollment =
  req_id :: string
  req_offer :: string
  req_endpoint :: string
  req_label :: string
  req_type :: string
  req_scope :: cred_scope
  req_mappings :: "(string \<times> string) list"
  req_storage :: string
  req_confirmation :: string
  req_expires :: rat
  req_state :: request_state
  req_approved :: "cred_scope option"
  req_profiles :: "string list"
  req_rejection :: "string option"

datatype credential_state = Active | Replaced | Expired | Revoked

record credential =
  cred_device :: string
  cred_endpoint :: string
  cred_generation :: int
  cred_state :: credential_state
  cred_issued :: rat
  cred_expires :: rat
  cred_digest :: string
  cred_scope_of :: cred_scope
  cred_label :: "string option"
  cred_type :: "string option"
  cred_overlap :: "rat option"
  cred_revoked_at :: "rat option"
  cred_revocation :: "string option"

datatype replacement_state = ReplacementActive | ReplacementExpired | ReplacementRevoked

record replacement =
  repl_device :: string
  repl_generation :: int
  repl_new_generation :: int
  repl_request :: string
  repl_state :: replacement_state
  repl_overlap :: rat
  repl_new_expires :: rat
  repl_scope :: cred_scope
  repl_nonce :: string
  repl_ciphertext :: string

datatype grant_state = GrantActive | PendingOwner | GrantRejected | GrantRevoked | GrantExpired

record grant =
  grant_id :: string
  grant_device :: string
  grant_profile :: string
  grant_state :: grant_state
  grant_label :: string
  grant_type :: string
  grant_created :: rat
  grant_bootstrap :: bool
  grant_pending_until :: "rat option"
  grant_decided_at :: "rat option"
  grant_decided_by :: "string option"

record grant_request =
  gr_device :: string
  gr_key :: string
  gr_profile :: string
  gr_bootstrap :: bool
  gr_grant :: string

text \<open>What a Device's configuration projection describes, and the revision given to it.\<close>

type_synonym fingerprint = "int \<times> (string \<times> grant_state) list"

record cred_data =
  cs_offers :: "offer list"
  cs_requests :: "enrollment list"
  cs_credentials :: "credential list"
  cs_replacements :: "replacement list"
  cs_grants :: "grant list"
  cs_grant_requests :: "grant_request list"
  cs_projections :: "(string \<times> (fingerprint \<times> int)) list"

definition EMPTY_STATE :: cred_data where
  "EMPTY_STATE = \<lparr>cs_offers = [], cs_requests = [], cs_credentials = [], cs_replacements = [],
     cs_grants = [], cs_grant_requests = [], cs_projections = []\<rparr>"

section \<open>Values returned to callers\<close>

record authenticated_device =
  auth_device :: string
  auth_endpoint :: string
  auth_generation :: int
  auth_scope :: cred_scope

record client_grant =
  cg_id :: string
  cg_device :: string
  cg_profile :: string
  cg_state :: grant_state
  cg_label :: string
  cg_type :: string
  cg_created :: rat
  cg_bootstrap :: bool

record credential_material =
  mat_device :: string
  mat_credential :: string
  mat_generation :: int
  mat_expires :: rat
  mat_scope :: cred_scope
  mat_grants :: "client_grant list"

record revocation_event =
  rev_device :: string
  rev_generation :: int
  rev_reason :: "string option"

text \<open>Reading a record back: the checks the source makes on every read.\<close>

definition reread_scope :: "cred_scope \<Rightarrow> cred_scope cred_result" where
  "reread_scope sc = scope_from_record (scope_record sc)"

definition grant_from_record :: "grant \<Rightarrow> client_grant cred_result" where
  "grant_from_record g =
     bindE (require_ident (PStr (grant_id g)) ''grant_id'') (\<lambda>gid.
     bindE (require_ident (PStr (grant_device g)) ''device_id'') (\<lambda>did.
     bindE (require_ident (PStr (grant_profile g)) ''profile_id'') (\<lambda>pid.
     bindE (require_ident (PStr (grant_label g)) ''label'') (\<lambda>lbl.
     bindE (require_ident (PStr (grant_type g)) ''type'') (\<lambda>ty.
     Inr \<lparr>cg_id = gid, cg_device = did, cg_profile = pid, cg_state = grant_state g, cg_label = lbl,
          cg_type = ty, cg_created = grant_created g, cg_bootstrap = grant_bootstrap g\<rparr>)))))"

definition authenticated_of :: "credential \<Rightarrow> authenticated_device cred_result" where
  "authenticated_of c =
     bindE (require_ident (PStr (cred_device c)) ''device_id'') (\<lambda>did.
     bindE (require_ident (PStr (cred_endpoint c)) ''endpoint_id'') (\<lambda>eid.
     bindE (positive_integer (PInt (cred_generation c)) ''generation'') (\<lambda>gen.
     bindE (reread_scope (cred_scope_of c)) (\<lambda>sc.
     Inr \<lparr>auth_device = did, auth_endpoint = eid, auth_generation = gen, auth_scope = sc\<rparr>))))"

definition request_from_record :: "enrollment \<Rightarrow> enrollment cred_result" where
  "request_from_record r =
     bindE (profile_mappings (PList (map (\<lambda>(p, l). obj [(''profile_id'', PStr p), (''label'', PStr l)])
        (req_mappings r)))) (\<lambda>ms.
     bindE (require_ident (PStr (req_id r)) ''request_id'') (\<lambda>_.
     bindE (require_ident (PStr (req_offer r)) ''offer_id'') (\<lambda>_.
     bindE (require_ident (PStr (req_endpoint r)) ''endpoint_id'') (\<lambda>_.
     bindE (require_ident (PStr (req_label r)) ''label'') (\<lambda>_.
     bindE (require_ident (PStr (req_type r)) ''type'') (\<lambda>_.
     bindE (reread_scope (req_scope r)) (\<lambda>_.
     bindE (require_ident (PStr (req_storage r)) ''secure_storage'') (\<lambda>_.
     bindE (require_ident (PStr (req_confirmation r)) ''confirmation_code'') (\<lambda>_.
     bindE (case req_approved r of None \<Rightarrow> Inr () | Some sc \<Rightarrow> bindE (reread_scope sc) (\<lambda>_. Inr ())) (\<lambda>_.
     bindE (bounded_strings (req_profiles r) ''client_profiles'') (\<lambda>_.
     Inr r)))))))))))"

end
