(* ===== verification/Credential_Protector.thy ===== *)
theory Credential_Protector
  imports Credential_Types
begin

text \<open>
  \<open>CredentialProtector\<close> (\<open>domain/credentials.py\<close>): the digest of a credential and the
  encryption of a replacement. HMAC-SHA256, AES-GCM and base64 are parameters, collected in
  \<open>crypto\<close>; \<open>crypto_ok\<close> is the documented behaviour the service relies on. Byte strings
  are strings of characters below 256, text is UTF-8 encoded before it is digested or sealed.
\<close>

section \<open>Text as bytes\<close>

definition utf8_char :: "char \<Rightarrow> string" where
  "utf8_char c = (let n = ord_of c
     in if n < 128 then [c] else [char_of (192 + n div 64), char_of (128 + n mod 64)])"

definition utf8_encode :: "string \<Rightarrow> string" where
  "utf8_encode s = concat (map utf8_char s)"

text \<open>Decoding the sequences of one and two bytes that stand for characters below 256.\<close>

fun utf8_decode :: "string \<Rightarrow> string option" where
  "utf8_decode [] = Some []"
| "utf8_decode (c # cs) =
     (if ord_of c < 128 then map_option ((#) c) (utf8_decode cs)
      else case cs of
          [] \<Rightarrow> None
        | d # ds \<Rightarrow>
            if (ord_of c = 194 \<or> ord_of c = 195) \<and> 128 \<le> ord_of d \<and> ord_of d < 192
            then map_option ((#) (char_of ((ord_of c - 192) * 64 + (ord_of d - 128)))) (utf8_decode ds)
            else None)"

text \<open>\<open>str\<close> of an integer.\<close>

fun decimal :: "nat \<Rightarrow> string" where
  "decimal n = (if n < 10 then [char_of (48 + n)] else decimal (n div 10) @ [char_of (48 + n mod 10)])"

declare decimal.simps [simp del]

definition str_of_int :: "int \<Rightarrow> string" where
  "str_of_int n = (if n < 0 then ''-'' @ decimal (nat (- n)) else decimal (nat n))"

section \<open>The protector\<close>

record crypto =
  hmac_sha256 :: "string \<Rightarrow> string \<Rightarrow> string"
  hexdigest :: "string \<Rightarrow> string"
  aes_encrypt :: "string \<Rightarrow> string \<Rightarrow> string \<Rightarrow> string \<Rightarrow> string"
  aes_decrypt :: "string \<Rightarrow> string \<Rightarrow> string \<Rightarrow> string \<Rightarrow> string option"
  b64_encode :: "string \<Rightarrow> string"
  b64_decode :: "string \<Rightarrow> string option"

definition crypto_ok :: "crypto \<Rightarrow> bool" where
  "crypto_ok C \<longleftrightarrow> (\<forall>key nonce text aad. aes_decrypt C key nonce (aes_encrypt C key nonce text aad) aad = Some text)
     \<and> (\<forall>bytes. b64_decode C (b64_encode C bytes) = Some bytes)"

record protector =
  prot_crypto :: crypto
  root_secret :: string
  replacement_key :: string

definition new_protector :: "crypto \<Rightarrow> string \<Rightarrow> protector cred_result" where
  "new_protector C secret =
     (if length secret \<noteq> 32 then invalid ''root secret must contain 32 bytes''
      else Inr \<lparr>prot_crypto = C, root_secret = secret,
                replacement_key = hmac_sha256 C secret ''hermes-home/replacement-key/v1''\<rparr>)"

definition digest :: "protector \<Rightarrow> string \<Rightarrow> string" where
  "digest P token = hexdigest (prot_crypto P) (hmac_sha256 (prot_crypto P) (root_secret P)
     (''hermes-home/credential-digest/v1'' @ [char_of (0 :: nat)] @ utf8_encode token))"

definition rotation_aad :: "string \<Rightarrow> int \<Rightarrow> string \<Rightarrow> string" where
  "rotation_aad device generation request =
     utf8_encode (device @ [char_of (0 :: nat)] @ str_of_int generation @ [char_of (0 :: nat)] @ request)"

definition encrypt_replacement :: "protector \<Rightarrow> string \<Rightarrow> string \<Rightarrow> string \<Rightarrow> int \<Rightarrow> string \<Rightarrow> string \<times> string" where
  "encrypt_replacement P nonce token device generation request =
     (let C = prot_crypto P;
          ciphertext = aes_encrypt C (replacement_key P) nonce (utf8_encode token)
            (rotation_aad device generation request)
      in (b64_encode C nonce, b64_encode C ciphertext))"

definition decrypt_replacement :: "protector \<Rightarrow> replacement \<Rightarrow> string cred_result" where
  "decrypt_replacement P r =
     (let C = prot_crypto P
      in case (b64_decode C (repl_nonce r), b64_decode C (repl_ciphertext r)) of
           (Some nonce, Some ciphertext) \<Rightarrow>
             (case aes_decrypt C (replacement_key P) nonce ciphertext
                 (rotation_aad (repl_device r) (repl_generation r) (repl_request r)) of
                None \<Rightarrow> refuse ''service_unavailable''
              | Some bytes \<Rightarrow> (case utf8_decode bytes of
                    None \<Rightarrow> refuse ''service_unavailable'' | Some token \<Rightarrow> Inr token))
         | _ \<Rightarrow> refuse ''service_unavailable'')"

section \<open>Round trips\<close>

lemma ord_of_less: "ord_of c < 256"
  by (simp add: ord_of_def)

lemma ord_of_char: "n < 256 \<Longrightarrow> ord_of (char_of n) = n"
  by (simp add: ord_of_def)

lemma char_of_ord: "char_of (ord_of c) = c"
  by (simp add: ord_of_def)

lemma utf8_decode_char: "utf8_decode (utf8_char c @ s) = map_option ((#) c) (utf8_decode s)"
proof (cases "ord_of c < 128")
  case True
  then show ?thesis by (simp add: utf8_char_def)
next
  case False
  let ?n = "ord_of c"
  have n: "?n < 256" "128 \<le> ?n" using ord_of_less [of c] False by auto
  then have "?n div 64 = 2 \<or> ?n div 64 = 3" by linarith
  then have lead: "192 + ?n div 64 = 194 \<or> 192 + ?n div 64 = 195" by auto
  have tail: "?n mod 64 < 64" by simp
  have whole: "(192 + ?n div 64 - 192) * 64 + (128 + ?n mod 64 - 128) = ?n" by simp
  have "ord_of (char_of (192 + ?n div 64)) = 192 + ?n div 64"
    "ord_of (char_of (128 + ?n mod 64)) = 128 + ?n mod 64"
    using lead tail by (auto simp: ord_of_char)
  then show ?thesis
    using False lead tail whole by (simp add: utf8_char_def Let_def char_of_ord)
qed

lemma utf8_roundtrip: "utf8_decode (utf8_encode s) = Some s"
  by (induction s) (auto simp: utf8_encode_def utf8_decode_char)

lemma decrypt_encrypt:
  assumes "crypto_ok (prot_crypto P)"
    and "encrypt_replacement P nonce token (repl_device r) (repl_generation r) (repl_request r)
      = (repl_nonce r, repl_ciphertext r)"
  shows "decrypt_replacement P r = Inr token"
proof -
  let ?C = "prot_crypto P"
  let ?sealed = "aes_encrypt ?C (replacement_key P) nonce (utf8_encode token)
       (rotation_aad (repl_device r) (repl_generation r) (repl_request r))"
  have fields: "repl_nonce r = b64_encode ?C nonce" "repl_ciphertext r = b64_encode ?C ?sealed"
    using assms(2) by (simp_all add: encrypt_replacement_def Let_def)
  have "b64_decode ?C (repl_nonce r) = Some nonce" "b64_decode ?C (repl_ciphertext r) = Some ?sealed"
    using assms(1) unfolding fields by (simp_all add: crypto_ok_def)
  then show ?thesis
    using assms(1) by (simp add: decrypt_replacement_def Let_def crypto_ok_def utf8_roundtrip)
qed

end
