(* ===== verification/Transactions.thy ===== *)
theory Transactions
  imports Home_Prelude
begin

text \<open>
  What the durable components share: record lists that only grow and whose records change
  in place, code that writes a working copy and may raise half way, and the contract of a
  store that runs such code as one transaction.
\<close>

section \<open>Append-only record lists\<close>

text \<open>
  \<open>grows R xs ys\<close>: \<open>ys\<close> holds, at the same place, a later version of every record of
  \<open>xs\<close>, and possibly more records after them.
\<close>

definition grows :: "('a \<Rightarrow> 'a \<Rightarrow> bool) \<Rightarrow> 'a list \<Rightarrow> 'a list \<Rightarrow> bool" where
  "grows R xs ys \<longleftrightarrow> length xs \<le> length ys \<and> list_all2 R xs (take (length xs) ys)"

named_theorems grows_intros

lemma grows_refl [grows_intros]: "reflp R \<Longrightarrow> grows R xs xs"
  by (simp add: grows_def list.rel_refl reflpD)

lemma grows_same_length: "list_all2 R xs ys \<Longrightarrow> grows R xs ys"
  using list_all2_lengthD [of R xs ys] by (simp add: grows_def)

lemma grows_append: "grows R xs ys \<Longrightarrow> grows R xs (ys @ zs)"
  by (simp add: grows_def)

lemma grows_split: "grows R xs ys \<longleftrightarrow> (\<exists>us vs. ys = us @ vs \<and> list_all2 R xs us)"
proof
  assume "grows R xs ys"
  then have "ys = take (length xs) ys @ drop (length xs) ys \<and> list_all2 R xs (take (length xs) ys)"
    by (simp add: grows_def)
  then show "\<exists>us vs. ys = us @ vs \<and> list_all2 R xs us" by blast
next
  assume "\<exists>us vs. ys = us @ vs \<and> list_all2 R xs us"
  then show "grows R xs ys"
    by (auto intro: grows_append grows_same_length)
qed

lemma grows_trans:
  assumes "transp R" and "grows R xs ys" and "grows R ys zs"
  shows "grows R xs zs"
proof -
  from assms(2) obtain us vs where ys: "ys = us @ vs" and us: "list_all2 R xs us"
    by (auto simp: grows_split)
  from assms(3) obtain ws where zs: "list_all2 R ys ws" "\<exists>rest. zs = ws @ rest"
    by (auto simp: grows_split)
  from zs(1) ys obtain w1 w2 where w: "ws = w1 @ w2" and w1: "list_all2 R us w1"
    by (auto simp: list_all2_append1)
  have "list_all2 R xs w1"
    using us w1 by (rule list_all2_trans [rotated]) (meson assms(1) transpE)
  then show ?thesis using zs(2) w by (auto simp: grows_split)
qed

lemma grows_map [grows_intros]: "(\<And>x. x \<in> set xs \<Longrightarrow> R x (f x)) \<Longrightarrow> grows R xs (map f xs)"
  by (rule grows_same_length) (simp add: list_all2_map2 list.rel_refl_strong)

lemma grows_update_first [grows_intros]:
  assumes "reflp R" and "\<And>x. x \<in> set xs \<Longrightarrow> p x \<Longrightarrow> R x (f x)"
  shows "grows R xs (update_first p f xs)"
proof (rule grows_same_length)
  show "list_all2 R xs (update_first p f xs)"
    using assms(2)
    by (induction xs) (auto intro: list.rel_refl reflpD [OF assms(1)])
qed

lemma grows_member:
  assumes "grows R xs ys" and "x \<in> set xs"
  shows "\<exists>y \<in> set ys. R x y"
proof -
  from assms(1) obtain us vs where ys: "ys = us @ vs" and us: "list_all2 R xs us"
    by (auto simp: grows_split)
  from us assms(2) have "\<exists>y \<in> set us. R x y"
    by (induction xs us rule: list_all2_induct) auto
  then show ?thesis by (auto simp: ys)
qed

lemma grows_find:
  assumes "grows R xs ys" and "\<And>x y. R x y \<Longrightarrow> p y = p x" and "find p xs = Some x"
  shows "\<exists>y. find p ys = Some y \<and> R x y"
proof -
  from assms(1) obtain us vs where ys: "ys = us @ vs" and us: "list_all2 R xs us"
    by (auto simp: grows_split)
  have "\<exists>y. find p (us @ vs) = Some y \<and> R x y"
    using us assms(3) by (induction xs us rule: list_all2_induct) (auto simp: assms(2) split: if_splits)
  then show ?thesis by (simp add: ys)
qed

lemma find_append: "find p (xs @ ys) = (case find p xs of None \<Rightarrow> find p ys | Some x \<Rightarrow> Some x)"
  by (induction xs) auto

lemma find_update_first:
  "(\<And>x. p x \<Longrightarrow> p (f x)) \<Longrightarrow> find p (update_first p f xs) = map_option f (find p xs)"
  by (induction xs) auto

lemma set_update_first:
  "find p xs = Some x \<Longrightarrow> f x \<in> set (update_first p f xs)"
  by (induction xs) (auto split: if_splits)

section \<open>Code that changes a working copy\<close>

text \<open>
  The changes made before a raise stay visible in the working copy; whether they last is
  the store's decision.
\<close>

type_synonym ('s, 'e, 'a) mutation = "'s \<Rightarrow> ('e, 'a) result \<times> 's"

definition liftM :: "('e, 'a) result \<Rightarrow> ('s, 'e, 'a) mutation" where
  "liftM r = (\<lambda>s. (r, s))"

definition bindM :: "('s, 'e, 'a) mutation \<Rightarrow> ('a \<Rightarrow> ('s, 'e, 'b) mutation) \<Rightarrow> ('s, 'e, 'b) mutation" where
  "bindM m f = (\<lambda>s. case m s of (Inl e, s') \<Rightarrow> (Inl e, s') | (Inr x, s') \<Rightarrow> f x s')"

definition readM :: "('s \<Rightarrow> ('s, 'e, 'a) mutation) \<Rightarrow> ('s, 'e, 'a) mutation" where
  "readM f = (\<lambda>s. f s s)"

definition modifyM :: "('s \<Rightarrow> 's) \<Rightarrow> ('s, 'e, unit) mutation" where
  "modifyM f = (\<lambda>s. (Inr (), f s))"

abbreviation returnM :: "'a \<Rightarrow> ('s, 'e, 'a) mutation" where
  "returnM x \<equiv> liftM (Inr x)"

abbreviation raiseM :: "'e \<Rightarrow> ('s, 'e, 'a) mutation" where
  "raiseM e \<equiv> liftM (Inl e)"

abbreviation checkM :: "bool \<Rightarrow> 'e \<Rightarrow> ('s, 'e, unit) mutation" where
  "checkM b e \<equiv> liftM (checkE b e)"

named_theorems mutation_simps

lemma liftM_eq [mutation_simps]: "liftM r s = (q, t) \<longleftrightarrow> r = q \<and> t = s"
  by (auto simp: liftM_def)

lemma bindM_eq_Inr [mutation_simps]:
  "bindM m f s = (Inr y, t) \<longleftrightarrow> (\<exists>x s'. m s = (Inr x, s') \<and> f x s' = (Inr y, t))"
  by (auto simp: bindM_def split: prod.splits sum.splits)

lemma readM_eq [mutation_simps]: "readM f s = f s s"
  by (simp add: readM_def)

lemma modifyM_eq [mutation_simps]: "modifyM f s = (Inr u, t) \<longleftrightarrow> t = f s"
  by (auto simp: modifyM_def)

lemmas mutation_eval = liftM_def bindM_def readM_def modifyM_def

section \<open>Stores that run code as one transaction\<close>

text \<open>
  A store shows a state. Running code on it either commits the working copy, when the code
  returns, or changes nothing. \<open>shape\<close> is what the store demands of a state it will show
  again; \<open>'k\<close> is whatever else a call depends on.
\<close>

locale transactional_store =
  fixes view :: "'db \<Rightarrow> 's option"
    and mutate :: "'k \<Rightarrow> ('s, 'e, 'a) mutation \<Rightarrow> 'db \<Rightarrow> ('f, 'a) result \<times> 'db"
    and shape :: "'s \<Rightarrow> bool"
  assumes view_shape: "view db = Some s \<Longrightarrow> shape s"
    and commit: "mutate k m db = (Inr x, db') \<Longrightarrow>
      \<exists>s s'. view db = Some s \<and> m s = (Inr x, s') \<and> (shape s' \<longrightarrow> view db' = Some s')"
    and rollback: "mutate k m db = (Inl e, db') \<Longrightarrow> view db' = view db"
begin

lemma step_cases:
  assumes "view db = Some s" and "\<And>x t. m s = (Inr x, t) \<Longrightarrow> shape t"
  obtains (unchanged) e where "fst (mutate k m db) = Inl e" "view (snd (mutate k m db)) = Some s"
  | (committed) x t where "fst (mutate k m db) = Inr x" "m s = (Inr x, t)" "view (snd (mutate k m db)) = Some t"
proof (cases "mutate k m db")
  case (Pair r db')
  show ?thesis
  proof (cases r)
    case (Inl e)
    with Pair rollback [of k m db e db'] assms(1) show ?thesis by (intro unchanged) auto
  next
    case (Inr x)
    with Pair commit [of k m db x db'] assms obtain t where "m s = (Inr x, t)" "view db' = Some t"
      by auto
    with Pair Inr show ?thesis by (intro committed) auto
  qed
qed

text \<open>Whatever the code keeps, with the shape, the store keeps, whatever fails on the way.\<close>

lemma run_keeps:
  assumes "view db = Some s" and "P s"
    and "\<And>k m s x t. (k, m) \<in> set ms \<Longrightarrow> shape s \<Longrightarrow> P s \<Longrightarrow> m s = (Inr x, t) \<Longrightarrow> shape t \<and> P t"
  shows "\<exists>t. view (run_ops (\<lambda>db (k, m). snd (mutate k m db)) db ms) = Some t \<and> P t"
  using assms
proof (induction ms arbitrary: db s)
  case Nil
  then show ?case by simp
next
  case (Cons op ms)
  obtain k m where op: "op = (k, m)" by (cases op)
  have "shape s" using Cons.prems(1) by (rule view_shape)
  then have keeps: "shape t \<and> P t" if "m s = (Inr x, t)" for x t
    using Cons.prems(2,3) that by (metis list.set_intros(1) op)
  have "\<exists>t. view (snd (mutate k m db)) = Some t \<and> P t"
    using step_cases [OF Cons.prems(1), of m k] keeps Cons.prems(2) by metis
  then obtain t where t: "view (snd (mutate k m db)) = Some t" "P t" by blast
  have "\<exists>u. view (run_ops (\<lambda>db (k, m). snd (mutate k m db)) (snd (mutate k m db)) ms) = Some u \<and> P u"
    by (rule Cons.IH [OF t]) (meson Cons.prems(3) list.set_intros(2))
  then show ?case by (simp add: op)
qed

end

end
