(* ===== verification/Credential_Store.thy ===== *)
theory Credential_Store
  imports Transactions Configuration_Store
begin

text \<open>
  The credential stores (\<open>storage/credentials.py\<close>): one SQLite row with the JSON state, and
  the in-memory store of the domain tests. Both run a mutation on a working copy and commit
  it when it returns; both are instances of \<open>transactional_store\<close>. The row holds the
  document its text decodes to, as in the configuration store; the JSON text itself and
  the order of its keys are not represented.
\<close>

section \<open>The SQLite row\<close>

type_synonym cred_row = "column option"

datatype 'e store_failure = CredentialStoreError string | Raised 'e

definition STATE_ARRAYS :: "string list" where
  "STATE_ARRAYS = [''offers'', ''requests'', ''credentials'', ''replacements'', ''client_grants'']"

definition EMPTY_STATE_ROW :: pydict where
  "EMPTY_STATE_ROW = [(KStr ''schema'', PInt 1), (KStr ''offers'', PList []), (KStr ''requests'', PList []),
     (KStr ''credentials'', PList []), (KStr ''replacements'', PList []), (KStr ''client_grants'', PList [])]"

fun is_dict :: "pyval \<Rightarrow> bool" where
  "is_dict (PDict d) = True"
| "is_dict v = False"

fun record_array :: "pyval option \<Rightarrow> bool" where
  "record_array (Some (PList xs)) = list_all is_dict xs"
| "record_array v = False"

definition schema_ok :: "pydict \<Rightarrow> bool" where
  "schema_ok d \<longleftrightarrow> (case dget d ''schema'' of None \<Rightarrow> False | Some v \<Rightarrow> py_equals_int v 1)"

definition setdefault :: "pydict \<Rightarrow> string \<Rightarrow> pyval \<Rightarrow> pydict" where
  "setdefault d k v = (if dhas d k then d else d @ [(KStr k, v)])"

fun decode_state :: "column \<Rightarrow> ('e store_failure, pydict) result" where
  "decode_state NotJson = Inl (CredentialStoreError ''credential state is invalid'')"
| "decode_state (Document (PDict d)) =
     (if \<not> schema_ok d then Inl (CredentialStoreError ''credential state schema is invalid'')
      else let d' = setdefault d ''client_grants'' (PList [])
        in if list_all (\<lambda>k. record_array (dget d' k)) STATE_ARRAYS then Inr d'
           else Inl (CredentialStoreError ''credential state shape is invalid''))"
| "decode_state (Document v) = Inl (CredentialStoreError ''credential state schema is invalid'')"

definition open_credentials :: "cred_row \<Rightarrow> cred_row" where
  "open_credentials db = (case db of None \<Rightarrow> Some (Document (PDict EMPTY_STATE_ROW)) | Some c \<Rightarrow> Some c)"

definition read_state :: "bool \<Rightarrow> cred_row \<Rightarrow> ('e store_failure, pydict) result" where
  "read_state sqlite_error db =
     (if sqlite_error then Inl (CredentialStoreError ''credential database cannot be read'')
      else case db of
          None \<Rightarrow> Inl (CredentialStoreError ''credential state row is missing'')
        | Some c \<Rightarrow> decode_state c)"

text \<open>A \<open>sqlite3.Error\<close> can strike at any statement; every failure after \<open>BEGIN\<close> rolls back.\<close>

definition sqlite_mutate :: "statement option \<Rightarrow> (pydict, 'e, 'a) mutation \<Rightarrow> cred_row
    \<Rightarrow> ('e store_failure, 'a) result \<times> cred_row" where
  "sqlite_mutate fault m db =
     (let unavailable = CredentialStoreError ''credential database cannot be updated''
      in if fault = Some Begin \<or> fault = Some Select then (Inl unavailable, db)
         else case db of
           None \<Rightarrow> (Inl (CredentialStoreError ''credential state row is missing''), db)
         | Some c \<Rightarrow> (case decode_state c of
             Inl e \<Rightarrow> (Inl e, db)
           | Inr d \<Rightarrow> (case m d of
               (Inl e, d') \<Rightarrow> (Inl (Raised e), db)
             | (Inr x, d') \<Rightarrow>
                 if fault = Some Update \<or> fault = Some Commit then (Inl unavailable, db)
                 else (Inr x, Some (Document (PDict d'))))))"

section \<open>The in-memory store\<close>

definition memory_mutate :: "('s, 'e, 'a) mutation \<Rightarrow> 's \<Rightarrow> ('e, 'a) result \<times> 's" where
  "memory_mutate m s = (case m s of (Inl e, w) \<Rightarrow> (Inl e, s) | (Inr x, w) \<Rightarrow> (Inr x, w))"

section \<open>Both are transactional\<close>

definition sqlite_view :: "cred_row \<Rightarrow> pydict option" where
  "sqlite_view db = (case db of None \<Rightarrow> None
     | Some c \<Rightarrow> (case decode_state c of Inl (e :: unit store_failure) \<Rightarrow> None | Inr d \<Rightarrow> Some d))"

definition state_shape :: "pydict \<Rightarrow> bool" where
  "state_shape d \<longleftrightarrow> schema_ok d \<and> list_all (\<lambda>k. record_array (dget d k)) STATE_ARRAYS"

lemma record_array_has: "record_array (dget d k) \<Longrightarrow> dhas d k"
  by (cases "dget d k") (auto simp: dhas_def)

lemma shape_has_grants: "state_shape d \<Longrightarrow> dhas d ''client_grants''"
  by (auto simp: state_shape_def STATE_ARRAYS_def intro: record_array_has)

lemma setdefault_schema [simp]: "schema_ok (setdefault d ''client_grants'' v) = schema_ok d"
  by (auto simp: setdefault_def schema_ok_def dget_def map_of_append map_add_def split: option.splits)

lemma decode_state_shape: "decode_state c = Inr d \<Longrightarrow> state_shape d"
  by (cases c rule: decode_state.cases) (auto simp: state_shape_def Let_def split: if_splits)

lemma decode_shaped: "state_shape d \<Longrightarrow> decode_state (Document (PDict d)) = Inr d"
  using shape_has_grants [of d] by (auto simp: state_shape_def setdefault_def)

text \<open>The row decodes to the same state whatever errors the caller's type allows.\<close>

lemma decode_state_view:
  "decode_state c = (Inr d :: ('e store_failure, pydict) result) \<longleftrightarrow> sqlite_view (Some c) = Some d"
  by (cases c rule: decode_state.cases) (auto simp: sqlite_view_def Let_def)

lemma sqlite_mutate_ok:
  "sqlite_mutate fault m db = (Inr x, db') \<Longrightarrow>
     \<exists>d d'. sqlite_view db = Some d \<and> m d = (Inr x, d') \<and> db' = Some (Document (PDict d'))"
  by (auto simp: sqlite_mutate_def Let_def decode_state_view split: if_splits option.splits sum.splits prod.splits)

lemma sqlite_mutate_fails: "sqlite_mutate fault m db = (Inl e, db') \<Longrightarrow> db' = db"
  by (auto simp: sqlite_mutate_def Let_def split: if_splits option.splits sum.splits prod.splits)

interpretation sqlite_credentials: transactional_store sqlite_view sqlite_mutate state_shape
proof
  fix db d
  assume "sqlite_view db = Some d"
  then show "state_shape d"
    by (auto simp: sqlite_view_def split: option.splits sum.splits dest: decode_state_shape)
next
  fix fault m db x db'
  assume "sqlite_mutate fault m db = (Inr x, db')"
  from sqlite_mutate_ok [OF this] obtain d d' where
    "sqlite_view db = Some d" "m d = (Inr x, d')" and db': "db' = Some (Document (PDict d'))" by blast
  moreover have "state_shape d' \<longrightarrow> sqlite_view db' = Some d'"
    unfolding db' using decode_shaped decode_state_view by blast
  ultimately show "\<exists>s s'. sqlite_view db = Some s \<and> m s = (Inr x, s') \<and> (state_shape s' \<longrightarrow> sqlite_view db' = Some s')"
    by blast
next
  fix fault m db e db'
  assume "sqlite_mutate fault m db = (Inl e, db')"
  then show "sqlite_view db' = sqlite_view db" by (auto dest: sqlite_mutate_fails)
qed

lemma memory_mutate_Inr [mutation_simps]: "memory_mutate m s = (Inr x, t) \<longleftrightarrow> m s = (Inr x, t)"
  by (auto simp: memory_mutate_def split: prod.splits sum.splits)

lemma memory_mutate_Inl: "memory_mutate m s = (Inl e, t) \<longleftrightarrow> fst (m s) = Inl e \<and> t = s"
  by (auto simp: memory_mutate_def split: prod.splits sum.splits)

interpretation memory_credentials: transactional_store Some "\<lambda>_ :: unit. memory_mutate" "\<lambda>_. True"
  by unfold_locales (auto simp: mutation_simps memory_mutate_Inl)

text \<open>What changes between two states is what a committed mutation changed.\<close>

lemma memory_step_cases:
  assumes "Q s" and "\<And>x t. m s = (Inr x, t) \<Longrightarrow> Q t"
  shows "Q (snd (memory_mutate m s))"
  using memory_credentials.step_cases [of s s m] assms by (metis option.inject)

text \<open>
  Whole operations, failed ones included: what they do to the state is a preorder when what
  their transactions commit is.
\<close>

definition stepsM :: "('s \<Rightarrow> 's \<Rightarrow> bool) \<Rightarrow> ('s, 'e, 'a) mutation \<Rightarrow> bool" where
  "stepsM R m \<longleftrightarrow> (\<forall>s. R s (snd (m s)))"

lemma stepsM_liftM: "reflp R \<Longrightarrow> stepsM R (liftM r)"
  by (simp add: stepsM_def liftM_def reflpD)

lemma stepsM_bindM:
  assumes "transp R" and "stepsM R m" and "\<And>x. stepsM R (f x)"
  shows "stepsM R (bindM m f)"
  unfolding stepsM_def
proof
  fix s
  show "R s (snd (bindM m f s))"
  proof (cases "m s")
    case (Pair r t)
    with assms(2) have "R s t" by (auto simp: stepsM_def dest: spec [of _ s])
    with Pair assms(1,3) show ?thesis
      by (cases r) (auto simp: bindM_def stepsM_def dest: transpD)
  qed
qed

lemma stepsM_check:
  "reflp R \<Longrightarrow> (\<And>x. r = Inr x \<Longrightarrow> stepsM R (f x)) \<Longrightarrow> stepsM R (bindM (liftM r) f)"
  by (cases r) (auto simp: stepsM_def bindM_def liftM_def reflpD)

lemma stepsM_memory:
  "reflp R \<Longrightarrow> (\<And>s x t. m s = (Inr x, t) \<Longrightarrow> R s t) \<Longrightarrow> stepsM R (memory_mutate m)"
  unfolding stepsM_def by (metis memory_step_cases reflpD)

lemma run_ops_preorder: "reflp R \<Longrightarrow> transp R \<Longrightarrow> (\<And>s p. R s (exec s p)) \<Longrightarrow> R s (run_ops exec s ps)"
proof (induction ps arbitrary: s)
  case Nil
  then show ?case by (simp add: reflpD)
next
  case (Cons p ps)
  then have "R s (exec s p)" by simp
  with Cons show ?case by (auto intro: transpD)
qed

section \<open>Properties\<close>

lemma open_credentials_readable: "sqlite_view (open_credentials None) = Some EMPTY_STATE_ROW"
  by code_simp

text \<open>
  C23. The credential database runs every operation as one transaction. Whatever statement
  fails and whatever the operation raises, a reader then sees either the state before, with
  the failure reported, or exactly the working copy of an operation that returned, provided
  it still has the shape the store demands; and over any sequence of operations which keep
  that shape and a further property of the state, the database stays readable and keeps both.
\<close>

theorem credential_store_transactional:
  assumes readable: "sqlite_view db = Some d" and P: "P d"
    and keeps: "\<And>fault m d x d'. (fault, m) \<in> set ops \<Longrightarrow> state_shape d \<Longrightarrow> P d \<Longrightarrow> m d = (Inr x, d')
      \<Longrightarrow> state_shape d' \<and> P d'"
  shows "(sqlite_mutate fault m db = (Inl e, db') \<longrightarrow> db' = db)
    \<and> (sqlite_mutate fault m db = (Inr x, db') \<longrightarrow>
          (\<exists>d'. m d = (Inr x, d') \<and> (state_shape d' \<longrightarrow> read_state False db' = Inr d')))
    \<and> (\<exists>d'. sqlite_view (run_ops (\<lambda>db (fault, m). snd (sqlite_mutate fault m db)) db ops) = Some d' \<and> P d')"
proof (intro conjI impI)
  assume "sqlite_mutate fault m db = (Inl e, db')"
  then show "db' = db" by (rule sqlite_mutate_fails)
next
  assume "sqlite_mutate fault m db = (Inr x, db')"
  from sqlite_mutate_ok [OF this] readable obtain d' where
    "m d = (Inr x, d')" "db' = Some (Document (PDict d'))" by auto
  then show "\<exists>d'. m d = (Inr x, d') \<and> (state_shape d' \<longrightarrow> read_state False db' = Inr d')"
    by (auto simp: read_state_def decode_shaped simp del: decode_state.simps)
next
  show "\<exists>d'. sqlite_view (run_ops (\<lambda>db (fault, m). snd (sqlite_mutate fault m db)) db ops) = Some d' \<and> P d'"
    by (rule sqlite_credentials.run_keeps [where P = P and s = d and ms = ops, OF readable P])
      (rule keeps)
qed

definition demo_mutation :: "(pydict, string, unit) mutation" where
  "demo_mutation d =
     (if dget d ''offers'' = Some (PList []) then (Inr (), AList.update (KStr ''offers'') (PList [obj []]) d)
      else (Inl ''conflict'', AList.update (KStr ''offers'') PNone d))"

lemma demo_mutation_shape:
  "state_shape d \<Longrightarrow> demo_mutation d = (Inr x, d') \<Longrightarrow> state_shape d'"
  by (auto simp: demo_mutation_def state_shape_def schema_ok_def STATE_ARRAYS_def dget_def dhas_def
      obj_def update_conv' split: if_splits option.splits)

theorem credential_store_transactional_witness:
  "\<exists>d'. sqlite_view (run_ops (\<lambda>db (fault, m). snd (sqlite_mutate fault m db)) (open_credentials None)
     [(Some Commit, demo_mutation), (None, demo_mutation), (None, demo_mutation)]) = Some d'
     \<and> dhas d' ''client_grants''"
proof -
  let ?ops = "[(Some Commit, demo_mutation), (None, demo_mutation), (None, demo_mutation)]"
  have P: "dhas EMPTY_STATE_ROW ''client_grants''" by code_simp
  have keeps: "state_shape d' \<and> dhas d' ''client_grants''"
    if "(fault, m) \<in> set ?ops" "state_shape d" "m d = (Inr x, d')" for fault m d x d'
    using that demo_mutation_shape shape_has_grants by auto
  show ?thesis
    by (rule credential_store_transactional [where ops = ?ops and P = "\<lambda>d. dhas d ''client_grants''",
          OF open_credentials_readable P keeps, THEN conjunct2, THEN conjunct2])
qed

end
