(* ===== verification/Credential_Service.thy ===== *)
theory Credential_Service
  imports Credential_Protector Credential_Store
begin

text \<open>
  \<open>CredentialService\<close> (\<open>domain/credentials.py\<close>): enrollment, authentication, renewal,
  rotation and revocation of endpoint credentials. Every operation is a function of the
  credential state that returns its result with the state left behind; an inner function
  of the source that is handed to \<open>mutate\<close> is a definition of its own, run by
  \<open>memory_mutate\<close>. What the source obtains from the clock, the ID and token factories and the
  source of randomness is an argument: the readings in the order they are taken. Events for
  the revocation observer are returned with the result.
\<close>

type_synonym 'a op = "(cred_data, cred_error, 'a) mutation"

section \<open>Helpers on the state\<close>

definition expire_offer :: "rat \<Rightarrow> offer \<Rightarrow> offer" where
  "expire_offer now o1 = (if offer_state o1 \<in> {Offered, OfferPending} \<and> offer_expires o1 \<le> now
     then o1\<lparr>offer_state := OfferExpired\<rparr> else o1)"

definition expire_request :: "rat \<Rightarrow> enrollment \<Rightarrow> enrollment" where
  "expire_request now r = (if req_state r \<in> {RequestPending, RequestApproved} \<and> req_expires r \<le> now
     then r\<lparr>req_state := RequestExpired\<rparr> else r)"

definition expire_enrollment_state :: "rat \<Rightarrow> cred_data \<Rightarrow> cred_data" where
  "expire_enrollment_state now s = s\<lparr>cs_offers := map (expire_offer now) (cs_offers s),
     cs_requests := map (expire_request now) (cs_requests s)\<rparr>"

definition find_offer :: "cred_data \<Rightarrow> string \<Rightarrow> offer option" where
  "find_offer s dig = find (\<lambda>o1. offer_digest o1 = dig) (cs_offers s)"

definition find_request :: "cred_data \<Rightarrow> string \<Rightarrow> enrollment option" where
  "find_request s rid = find (\<lambda>r. req_id r = rid) (cs_requests s)"

definition find_credential :: "cred_data \<Rightarrow> string \<Rightarrow> int \<Rightarrow> credential option" where
  "find_credential s did gen = find (\<lambda>c. cred_device c = did \<and> cred_generation c = gen) (cs_credentials s)"

definition find_replacement :: "cred_data \<Rightarrow> string \<Rightarrow> int \<Rightarrow> string \<Rightarrow> replacement option" where
  "find_replacement s did gen rid =
     find (\<lambda>r. repl_device r = did \<and> repl_generation r = gen \<and> repl_request r = rid) (cs_replacements s)"

text \<open>Writing to the record a search returned: the first that matches.\<close>

definition set_request :: "string \<Rightarrow> (enrollment \<Rightarrow> enrollment) \<Rightarrow> cred_data \<Rightarrow> cred_data" where
  "set_request rid f s = s\<lparr>cs_requests := update_first (\<lambda>r. req_id r = rid) f (cs_requests s)\<rparr>"

definition set_offer :: "(offer \<Rightarrow> bool) \<Rightarrow> offer_state \<Rightarrow> cred_data \<Rightarrow> cred_data" where
  "set_offer p st s = s\<lparr>cs_offers := update_first p (\<lambda>o1. o1\<lparr>offer_state := st\<rparr>) (cs_offers s)\<rparr>"

definition set_credential :: "string \<Rightarrow> int \<Rightarrow> (credential \<Rightarrow> credential) \<Rightarrow> cred_data \<Rightarrow> cred_data" where
  "set_credential did gen f s = s\<lparr>cs_credentials :=
     update_first (\<lambda>c. cred_device c = did \<and> cred_generation c = gen) f (cs_credentials s)\<rparr>"

definition invalidate_replacement :: "replacement_state \<Rightarrow> replacement \<Rightarrow> replacement" where
  "invalidate_replacement st r = r\<lparr>repl_state := st, repl_nonce := [], repl_ciphertext := []\<rparr>"

definition revoke_replacements :: "string \<Rightarrow> cred_data \<Rightarrow> cred_data" where
  "revoke_replacements did s = s\<lparr>cs_replacements :=
     map (\<lambda>r. if repl_device r = did then invalidate_replacement ReplacementRevoked r else r)
       (cs_replacements s)\<rparr>"

definition max_generation :: "credential list \<Rightarrow> int cred_result" where
  "max_generation cs =
     bindE (mapE (\<lambda>c. positive_integer (PInt (cred_generation c)) ''generation'') cs) (\<lambda>gens.
       Inr (foldl max (hd gens) (tl gens)))"

section \<open>Offers and requests\<close>

record cred_offer =
  co_id :: string
  co_code :: string
  co_expires :: rat

fun offer_seconds :: "pyval \<Rightarrow> rat cred_result" where
  "offer_seconds (PInt n) = (if 1 \<le> n \<and> n \<le> 300 then Inr (of_int n)
     else invalid ''offer expiry must be between 1 and 300 seconds'')"
| "offer_seconds v = invalid ''offer expiry must be between 1 and 300 seconds''"

definition add_offer :: "string \<Rightarrow> string \<Rightarrow> rat \<Rightarrow> pyval \<Rightarrow> rat op" where
  "add_offer oid dig secs clk =
     bindM (liftM (timestamp clk)) (\<lambda>now.
     bindM (modifyM (\<lambda>s. s\<lparr>cs_offers := cs_offers s @
         [\<lparr>offer_id = oid, offer_digest = dig, offer_expires = now + secs, offer_state = Offered\<rparr>]\<rparr>)) (\<lambda>_.
     returnM (now + secs)))"

definition create_offer :: "protector \<Rightarrow> pyval \<Rightarrow> bool \<Rightarrow> string \<Rightarrow> string \<Rightarrow> string \<Rightarrow> pyval \<Rightarrow> cred_offer op" where
  "create_offer P expires_in short_code new_id token short clk =
     bindM (liftM (offer_seconds expires_in)) (\<lambda>secs.
     bindM (liftM (require_ident (PStr new_id) ''offer_id'')) (\<lambda>oid.
     let code = (if short_code then short else token)
     in bindM (checkM (code \<noteq> []) (CredentialValidationError ''enrollment code must not be blank'')) (\<lambda>_.
        bindM (memory_mutate (add_offer oid (digest P code) secs clk)) (\<lambda>expires.
        returnM \<lparr>co_id = oid, co_code = code, co_expires = expires\<rparr>))))"

fun require_code :: "pyval \<Rightarrow> string cred_result" where
  "require_code (PStr c) = (if c = [] then invalid ''enrollment code must not be blank''
     else Inr (normalize_enrollment_code c))"
| "require_code v = invalid ''enrollment code must not be blank''"

definition add_request :: "enrollment \<Rightarrow> string \<Rightarrow> pyval \<Rightarrow> enrollment op" where
  "add_request template dig clk =
     bindM (liftM (timestamp clk)) (\<lambda>now. readM (\<lambda>s.
     case find_offer s dig of
       None \<Rightarrow> raiseM (CredentialStateError ''unauthorized'')
     | Some o1 \<Rightarrow>
         if offer_state o1 \<noteq> Offered then raiseM (CredentialStateError ''expired_or_consumed'')
         else if offer_expires o1 \<le> now
         then bindM (modifyM (set_offer (\<lambda>o1. offer_digest o1 = dig) OfferExpired)) (\<lambda>_.
              raiseM (CredentialStateError ''expired_or_consumed''))
         else bindM (modifyM (set_offer (\<lambda>o1. offer_digest o1 = dig) OfferPending)) (\<lambda>_.
           let r = template\<lparr>req_offer := offer_id o1, req_expires := offer_expires o1\<rparr>
           in bindM (modifyM (\<lambda>s. s\<lparr>cs_requests := cs_requests s @ [r]\<rparr>)) (\<lambda>_.
              liftM (request_from_record r)))))"

text \<open>The checks of \<open>submit_request\<close> before the transaction; the request that results.\<close>

fun text_of :: "pyval \<Rightarrow> string" where
  "text_of (PStr s) = s"
| "text_of v = []"

definition request_template :: "pyval \<Rightarrow> pyval \<Rightarrow> pyval \<Rightarrow> pyval \<Rightarrow> pyval \<Rightarrow> pyval \<Rightarrow> pyval \<Rightarrow> string \<Rightarrow> string
    \<Rightarrow> enrollment cred_result" where
  "request_template endpoint label type rooms caps mappings storage new_id confirmation =
     bindE (require_ident endpoint ''endpoint_id'') (\<lambda>eid.
     bindE (require_ident label ''label'') (\<lambda>lbl.
     bindE (require_ident type ''type'') (\<lambda>ty.
     bindE (validate_storage ty storage) (\<lambda>_.
     bindE (scope_from_values rooms caps (PList []) PNone) (\<lambda>sc.
     bindE (if ty = ''browser'' then validate_browser_scope sc else Inr ()) (\<lambda>_.
     bindE (if ty = ''puck'' \<and> storage = PStr SECURE_STORAGE_PRIVATE_FILE
            then validate_private_puck_scope sc False else Inr ()) (\<lambda>_.
     bindE (profile_mappings mappings) (\<lambda>ms.
     bindE (require_ident (PStr new_id) ''request_id'') (\<lambda>rid.
     bindE (checkE (is_confirmation_code confirmation)
              (CredentialValidationError ''confirmation code must contain 8 characters'')) (\<lambda>_.
     Inr \<lparr>req_id = rid, req_offer = [], req_endpoint = eid, req_label = lbl, req_type = ty,
          req_scope = sc, req_mappings = ms, req_storage = text_of storage,
          req_confirmation = confirmation, req_expires = 0, req_state = RequestPending,
          req_approved = None, req_profiles = [], req_rejection = None\<rparr>))))))))))"

definition submit_request :: "protector \<Rightarrow> pyval \<Rightarrow> pyval \<Rightarrow> pyval \<Rightarrow> pyval \<Rightarrow> pyval \<Rightarrow> pyval \<Rightarrow> pyval \<Rightarrow> pyval
    \<Rightarrow> string \<Rightarrow> string \<Rightarrow> pyval \<Rightarrow> enrollment op" where
  "submit_request P code endpoint label type rooms caps mappings storage new_id confirmation clk =
     bindM (liftM (require_code code)) (\<lambda>c.
     bindM (liftM (request_template endpoint label type rooms caps mappings storage new_id confirmation)) (\<lambda>t.
     memory_mutate (add_request t (digest P c) clk)))"

definition list_requests :: "pyval \<Rightarrow> enrollment list op" where
  "list_requests clk = memory_mutate
     (bindM (liftM (timestamp clk)) (\<lambda>now.
      bindM (modifyM (expire_enrollment_state now)) (\<lambda>_. readM (\<lambda>s.
      liftM (mapE request_from_record (cs_requests s))))))"

section \<open>Deciding a request\<close>

text \<open>The tests of \<open>approve\<close> and \<open>reject\<close> on a request that may still be decided.\<close>

definition decidable_request :: "string \<Rightarrow> rat \<Rightarrow> enrollment op" where
  "decidable_request rid now = readM (\<lambda>s. case find_request s rid of
       None \<Rightarrow> raiseM (CredentialStateError ''not_found'')
     | Some r \<Rightarrow>
         if req_state r = RequestExpired then raiseM (CredentialStateError ''expired_or_consumed'')
         else if req_state r \<noteq> RequestPending then raiseM (CredentialStateError ''conflict'')
         else if req_expires r \<le> now
         then bindM (modifyM (set_request rid (\<lambda>r. r\<lparr>req_state := RequestExpired\<rparr>))) (\<lambda>_.
              raiseM (CredentialStateError ''expired_or_consumed''))
         else returnM r)"

definition approvable_touch :: "cred_scope \<Rightarrow> string list \<Rightarrow> unit cred_result" where
  "approvable_touch sc profiles = (case scope_touch sc of
       None \<Rightarrow> Inr ()
     | Some t \<Rightarrow>
         if ''touch_claim'' \<notin> set (scope_capabilities sc)
         then invalid ''touch binding requires touch_claim capability''
         else if touch_room t \<notin> set (scope_rooms sc)
         then invalid ''touch binding room must be in the approved rooms''
         else checkE (touch_profile t \<in> set profiles)
           (CredentialValidationError ''approved scope references an unavailable touch profile''))"

definition approvable_client :: "cred_scope \<Rightarrow> string \<Rightarrow> string list \<Rightarrow> string list \<Rightarrow> unit cred_result" where
  "approvable_client sc type profiles client_profiles =
     (if ''client_claim'' \<in> set (scope_capabilities sc)
      then if ''wake_claim'' \<in> set (scope_capabilities sc) \<or> ''touch_claim'' \<in> set (scope_capabilities sc)
           then invalid ''client_claim cannot be combined with wake or touch claims''
           else if type \<notin> set CLIENT_ENDPOINT_TYPES
           then invalid ''client_claim is limited to personal client endpoints''
           else if client_profiles = [] then invalid ''client_claim requires at least one client profile''
           else checkE (set client_profiles \<subseteq> set profiles)
             (CredentialValidationError ''approved scope references an unavailable client profile'')
      else checkE (client_profiles = [])
        (CredentialValidationError ''client profiles require client_claim capability''))"

definition approvable_scope :: "enrollment \<Rightarrow> cred_scope \<Rightarrow> string list \<Rightarrow> string list \<Rightarrow> string list
    \<Rightarrow> string list \<Rightarrow> unit cred_result" where
  "approvable_scope r sc rooms mappings profiles client_profiles =
     bindE (reread_scope (req_scope r)) (\<lambda>requested.
     bindE (assert_subset_of sc requested) (\<lambda>_.
     bindE (if req_type r = ''browser'' then validate_browser_scope sc else Inr ()) (\<lambda>_.
     bindE (if req_type r = ''puck'' \<and> req_storage r = SECURE_STORAGE_PRIVATE_FILE
            then validate_private_puck_scope sc True else Inr ()) (\<lambda>_.
     bindE (checkE (set (scope_rooms sc) \<subseteq> set rooms)
              (CredentialValidationError ''approved scope references an unavailable room'')) (\<lambda>_.
     bindE (checkE (set (scope_mappings sc) \<subseteq> set mappings)
              (CredentialValidationError ''approved scope references an unavailable wake mapping'')) (\<lambda>_.
     bindE (approvable_touch sc profiles) (\<lambda>_.
     approvable_client sc (req_type r) profiles client_profiles)))))))"

definition approve :: "string \<Rightarrow> cred_scope \<Rightarrow> string list \<Rightarrow> string list \<Rightarrow> string list \<Rightarrow> string list
    \<Rightarrow> pyval \<Rightarrow> enrollment op" where
  "approve rid sc rooms mappings profiles client_profiles clk =
     bindM (liftM (timestamp clk)) (\<lambda>now.
     bindM (decidable_request rid now) (\<lambda>r.
     bindM (liftM (approvable_scope r sc rooms mappings profiles client_profiles)) (\<lambda>_.
     let grantf = (\<lambda>r. r\<lparr>req_approved := Some sc, req_profiles := client_profiles,
           req_state := RequestApproved\<rparr>)
     in bindM (modifyM (set_request rid grantf)) (\<lambda>_.
        liftM (request_from_record (grantf r))))))"

definition approve_request :: "pyval \<Rightarrow> cred_scope \<Rightarrow> pyval \<Rightarrow> pyval \<Rightarrow> pyval \<Rightarrow> pyval \<Rightarrow> pyval \<Rightarrow> enrollment op" where
  "approve_request rid sc rooms mappings profiles client_profiles clk =
     bindM (liftM (require_ident rid ''request_id'')) (\<lambda>rid.
     bindM (liftM (bounded_values rooms ''configured_rooms'')) (\<lambda>rs.
     bindM (liftM (bounded_values mappings ''configured_wake_mappings'')) (\<lambda>ms.
     bindM (liftM (bounded_values profiles ''configured_profiles'')) (\<lambda>ps.
     bindM (liftM (bounded_values client_profiles ''client_profiles'')) (\<lambda>cps.
     bindM (checkM (length cps \<le> MAX_CLIENT_GRANTS) (CredentialValidationError ''too many client profiles'')) (\<lambda>_.
     memory_mutate (approve rid sc rs ms ps cps clk)))))))"

fun rejection_reason :: "pyval \<Rightarrow> string option cred_result" where
  "rejection_reason PNone = Inr None"
| "rejection_reason (PStr s) = (if 256 < length s then invalid ''reason must contain at most 256 characters''
     else Inr (Some s))"
| "rejection_reason v = invalid ''reason must contain at most 256 characters''"

definition reject :: "string \<Rightarrow> string option \<Rightarrow> pyval \<Rightarrow> enrollment op" where
  "reject rid reason clk =
     bindM (liftM (timestamp clk)) (\<lambda>now.
     bindM (decidable_request rid now) (\<lambda>r.
     let rejectf = (\<lambda>r. r\<lparr>req_state := RequestRejected,
           req_rejection := (if reason = None \<or> reason = Some [] then req_rejection r else reason)\<rparr>)
     in bindM (modifyM (set_request rid rejectf)) (\<lambda>_.
        liftM (request_from_record (rejectf r)))))"

definition reject_request :: "pyval \<Rightarrow> pyval \<Rightarrow> pyval \<Rightarrow> enrollment op" where
  "reject_request rid reason clk =
     bindM (liftM (require_ident rid ''request_id'')) (\<lambda>rid.
     bindM (liftM (rejection_reason reason)) (\<lambda>why.
     memory_mutate (reject rid why clk)))"

section \<open>Client grants of a device\<close>

fun opt_timestamp :: "rat option \<Rightarrow> rat cred_result" where
  "opt_timestamp None = invalid ''credential timestamp is invalid''"
| "opt_timestamp (Some t) = Inr t"

definition expire_pending_grant :: "rat \<Rightarrow> grant \<Rightarrow> grant cred_result" where
  "expire_pending_grant now g =
     (if grant_state g = PendingOwner
      then bindE (opt_timestamp (grant_pending_until g)) (\<lambda>t.
        Inr (if t \<le> now then g\<lparr>grant_state := GrantExpired\<rparr> else g))
      else Inr g)"

definition expire_pending_grants :: "rat \<Rightarrow> unit op" where
  "expire_pending_grants now = readM (\<lambda>s.
     bindM (liftM (mapE (expire_pending_grant now) (cs_grants s))) (\<lambda>gs.
     modifyM (\<lambda>s. s\<lparr>cs_grants := gs\<rparr>)))"

definition end_grant :: "string \<Rightarrow> rat \<Rightarrow> grant \<Rightarrow> grant" where
  "end_grant did now g =
     (if grant_device g = did \<and> grant_state g \<in> {GrantActive, PendingOwner}
      then g\<lparr>grant_state := GrantRevoked, grant_decided_at := Some now\<rparr> else g)"

definition end_device_grants :: "string \<Rightarrow> rat \<Rightarrow> cred_data \<Rightarrow> cred_data" where
  "end_device_grants did now s = s\<lparr>cs_grants := map (end_grant did now) (cs_grants s)\<rparr>"

definition overlap_until :: "credential \<Rightarrow> rat" where
  "overlap_until c = (case cred_overlap c of None \<Rightarrow> 0 | Some t \<Rightarrow> t)"

definition is_live :: "rat \<Rightarrow> credential \<Rightarrow> bool" where
  "is_live now c \<longleftrightarrow> cred_state c = Active \<and> now < cred_expires c
     \<or> cred_state c = Replaced \<and> now < overlap_until c"

definition live_device_ids :: "cred_data \<Rightarrow> rat \<Rightarrow> string list" where
  "live_device_ids s now = map cred_device (filter (is_live now) (cs_credentials s))"

definition held_elsewhere :: "cred_data \<Rightarrow> string list \<Rightarrow> string \<Rightarrow> string \<Rightarrow> bool" where
  "held_elsewhere s live did profile \<longleftrightarrow>
     list_ex (\<lambda>g. grant_profile g = profile \<and> grant_state g = GrantActive \<and> grant_device g \<noteq> did
       \<and> grant_device g \<in> set live) (cs_grants s)"

text \<open>One turn per approved Profile; \<open>fresh i\<close> is the next reading of the ID factory.\<close>

fun issue_grants :: "string list \<Rightarrow> string list \<Rightarrow> string \<Rightarrow> string \<Rightarrow> string \<Rightarrow> rat \<Rightarrow> (nat \<Rightarrow> string) \<Rightarrow> nat
    \<Rightarrow> string list \<Rightarrow> client_grant list op" where
  "issue_grants shared live did label type now fresh i [] = returnM []"
| "issue_grants shared live did label type now fresh i (p # ps) = readM (\<lambda>s.
     let held = held_elsewhere s live did p;
         st = (if p \<in> set shared then GrantActive else if held then PendingOwner else GrantActive);
         boot = (p \<notin> set shared \<and> \<not> held)
     in bindM (liftM (require_ident (PStr (''grant-'' @ fresh i)) ''grant_id'')) (\<lambda>gid.
        let g = \<lparr>grant_id = gid, grant_device = did, grant_profile = p, grant_state = st,
              grant_label = label, grant_type = type, grant_created = now, grant_bootstrap = boot,
              grant_pending_until = (if st = PendingOwner then Some (now + PENDING_OWNER_GRANT_TTL_SECONDS)
                else None),
              grant_decided_at = None, grant_decided_by = None\<rparr>
        in bindM (modifyM (\<lambda>s. s\<lparr>cs_grants := cs_grants s @ [g]\<rparr>)) (\<lambda>_.
           bindM (liftM (grant_from_record g)) (\<lambda>cg.
           bindM (issue_grants shared live did label type now fresh (Suc i) ps) (\<lambda>rest.
           returnM (cg # rest))))))"

definition issue_client_grants :: "string \<Rightarrow> enrollment \<Rightarrow> string list option \<Rightarrow> rat \<Rightarrow> (nat \<Rightarrow> string) \<Rightarrow> nat
    \<Rightarrow> client_grant list op" where
  "issue_client_grants did r shared now fresh i =
     bindM (expire_pending_grants now) (\<lambda>_.
     bindM (modifyM (end_device_grants did now)) (\<lambda>_.
     bindM (liftM (bounded_strings (req_profiles r) ''client_profiles'')) (\<lambda>ps. readM (\<lambda>s.
     issue_grants (case shared of None \<Rightarrow> [] | Some xs \<Rightarrow> xs) (live_device_ids s now) did
       (req_label r) (req_type r) now fresh i ps))))"

section \<open>Consuming an approval\<close>

text \<open>The tests on the request and its offer, in the order of the source.\<close>

definition consumable :: "string \<Rightarrow> string \<Rightarrow> pyval \<Rightarrow> string list option \<Rightarrow> rat \<Rightarrow> enrollment op" where
  "consumable rid dig storage shared now = readM (\<lambda>s. case find_request s rid of
       None \<Rightarrow> raiseM (CredentialStateError ''not_found'')
     | Some r \<Rightarrow>
         if req_state r = RequestConsumed \<or> req_state r = RequestExpired
         then raiseM (CredentialStateError ''expired_or_consumed'')
         else if req_expires r \<le> now \<and> req_state r \<in> {RequestPending, RequestApproved}
         then bindM (modifyM (set_request rid (\<lambda>r. r\<lparr>req_state := RequestExpired\<rparr>))) (\<lambda>_.
              raiseM (CredentialStateError ''expired_or_consumed''))
         else if req_state r = RequestPending then raiseM (CredentialStateError ''approval_pending'')
         else if req_state r = RequestRejected then raiseM (CredentialStateError ''rejected'')
         else bindM (liftM (validate_storage (req_type r) storage)) (\<lambda>_.
           if storage \<noteq> PStr (req_storage r)
           then raiseM (CredentialValidationError ''secure storage attestation changed'')
           else if shared = None \<and> req_profiles r \<noteq> []
           then raiseM (CredentialStateError ''service_unavailable'')
           else (case find (\<lambda>o1. offer_id o1 = req_offer r) (cs_offers s) of
               None \<Rightarrow> raiseM (CredentialStateError ''unauthorized'')
             | Some o1 \<Rightarrow>
                 if offer_digest o1 \<noteq> dig then raiseM (CredentialStateError ''unauthorized'')
                 else if offer_state o1 \<noteq> OfferPending
                 then raiseM (CredentialStateError ''expired_or_consumed'')
                 else returnM r)))"

text \<open>
  The Device for the endpoint: a known endpoint keeps its Device ID, takes the next
  generation and loses every earlier credential and replacement. The result also says how
  many IDs were drawn from the factory.
\<close>

definition supersede :: "rat \<Rightarrow> string \<Rightarrow> credential \<Rightarrow> credential" where
  "supersede now eid c = (if cred_endpoint c = eid
     then c\<lparr>cred_state := Revoked, cred_revoked_at := Some now\<rparr> else c)"

definition enroll_device :: "string \<Rightarrow> rat \<Rightarrow> (nat \<Rightarrow> string)
    \<Rightarrow> (string \<times> int \<times> revocation_event option \<times> nat) op" where
  "enroll_device eid now fresh = readM (\<lambda>s.
     case filter (\<lambda>c. cred_endpoint c = eid) (cs_credentials s) of
       [] \<Rightarrow> bindM (liftM (require_ident (PStr (fresh 0)) ''device_id'')) (\<lambda>did. returnM (did, 1, None, 1))
     | first # others \<Rightarrow>
         bindM (liftM (require_ident (PStr (cred_device first)) ''device_id'')) (\<lambda>did.
         bindM (liftM (max_generation (first # others))) (\<lambda>top.
         bindM (modifyM (\<lambda>s. s\<lparr>cs_credentials := map (supersede now eid) (cs_credentials s)\<rparr>)) (\<lambda>_.
         bindM (modifyM (revoke_replacements did)) (\<lambda>_.
         returnM (did, top + 1, Some \<lparr>rev_device = did, rev_generation = top,
           rev_reason = Some ''re-enrollment''\<rparr>, 0))))))"

fun approved_scope :: "cred_scope option \<Rightarrow> cred_scope cred_result" where
  "approved_scope None = invalid ''credential scope is invalid''"
| "approved_scope (Some sc) = reread_scope sc"

definition consume :: "protector \<Rightarrow> string \<Rightarrow> string \<Rightarrow> pyval \<Rightarrow> string list option \<Rightarrow> string \<Rightarrow> (nat \<Rightarrow> string)
    \<Rightarrow> pyval \<Rightarrow> (credential_material \<times> revocation_event option) op" where
  "consume P rid dig storage shared token fresh clk =
     bindM (liftM (timestamp clk)) (\<lambda>now.
     bindM (consumable rid dig storage shared now) (\<lambda>r.
     bindM (checkM (token \<noteq> []) (CredentialValidationError ''credential material must not be blank'')) (\<lambda>_.
     bindM (enroll_device (req_endpoint r) now fresh) (\<lambda>(did, gen, event, i).
     bindM (liftM (approved_scope (req_approved r))) (\<lambda>sc.
     bindM (modifyM (\<lambda>s. s\<lparr>cs_credentials := cs_credentials s @
         [\<lparr>cred_device = did, cred_endpoint = req_endpoint r, cred_generation = gen,
           cred_state = Active, cred_issued = now, cred_expires = now + CREDENTIAL_TTL_SECONDS,
           cred_digest = digest P token, cred_scope_of = sc, cred_label = Some (req_label r),
           cred_type = Some (req_type r), cred_overlap = None, cred_revoked_at = None,
           cred_revocation = None\<rparr>]\<rparr>)) (\<lambda>_.
     bindM (issue_client_grants did r shared now fresh i) (\<lambda>grants.
     bindM (modifyM (set_request rid (\<lambda>r. r\<lparr>req_state := RequestConsumed\<rparr>))) (\<lambda>_.
     bindM (modifyM (set_offer (\<lambda>o1. offer_id o1 = req_offer r) OfferConsumed)) (\<lambda>_.
     returnM (\<lparr>mat_device = did, mat_credential = token, mat_generation = gen,
        mat_expires = now + CREDENTIAL_TTL_SECONDS, mat_scope = sc, mat_grants = grants\<rparr>, event))))))))))"

definition consume_request :: "protector \<Rightarrow> pyval \<Rightarrow> pyval \<Rightarrow> pyval \<Rightarrow> pyval option \<Rightarrow> string \<Rightarrow> (nat \<Rightarrow> string)
    \<Rightarrow> pyval \<Rightarrow> (credential_material \<times> revocation_event option) op" where
  "consume_request P rid code storage shared token fresh clk =
     bindM (liftM (require_ident rid ''request_id'')) (\<lambda>rid.
     bindM (liftM (require_code code)) (\<lambda>c.
     bindM (liftM (case shared of None \<Rightarrow> Inr None
              | Some v \<Rightarrow> bindE (bounded_values v ''shared_profiles'') (\<lambda>xs. Inr (Some xs)))) (\<lambda>sh.
     memory_mutate (consume P rid (digest P c) storage sh token fresh clk))))"

section \<open>Authentication\<close>

definition lapsed :: "rat \<Rightarrow> credential \<Rightarrow> bool" where
  "lapsed now c \<longleftrightarrow> cred_state c = Active \<and> cred_expires c \<le> now
     \<or> cred_state c = Replaced \<and> overlap_until c \<le> now"

definition state_at :: "rat \<Rightarrow> credential \<Rightarrow> credential_state" where
  "state_at now c = (if lapsed now c then Expired else cred_state c)"

definition accepts :: "string \<Rightarrow> bool \<Rightarrow> rat \<Rightarrow> credential \<Rightarrow> bool" where
  "accepts dig allow_replaced now c \<longleftrightarrow> cred_digest c = dig \<and>
     (state_at now c = Active \<or> allow_replaced \<and> state_at now c = Replaced \<and> now < overlap_until c)"

definition expire_replacement :: "rat \<Rightarrow> replacement \<Rightarrow> replacement" where
  "expire_replacement now r = (if repl_state r = ReplacementActive \<and> repl_overlap r \<le> now
     then invalidate_replacement ReplacementExpired r else r)"

definition clean_credentials :: "rat \<Rightarrow> cred_data \<Rightarrow> cred_data" where
  "clean_credentials now s = s\<lparr>cs_replacements := map (expire_replacement now) (cs_replacements s),
     cs_credentials := map (\<lambda>c. c\<lparr>cred_state := state_at now c\<rparr>) (cs_credentials s)\<rparr>"

text \<open>The scan of the credentials keeps the last one that matches.\<close>

definition scan_credentials :: "string \<Rightarrow> bool \<Rightarrow> rat \<Rightarrow> credential list \<Rightarrow> authenticated_device option cred_result" where
  "scan_credentials dig allow_replaced now cs =
     foldE (\<lambda>found c. if accepts dig allow_replaced now c
       then bindE (authenticated_of c) (\<lambda>a. Inr (Some a)) else Inr found) None cs"

definition find_device :: "string \<Rightarrow> bool \<Rightarrow> bool \<Rightarrow> pyval \<Rightarrow> (authenticated_device option \<times> bool) op" where
  "find_device dig allow_replaced clean clk =
     bindM (liftM (timestamp clk)) (\<lambda>now. readM (\<lambda>s.
     let cleanup = list_ex (\<lambda>r. repl_state r = ReplacementActive \<and> repl_overlap r \<le> now) (cs_replacements s)
           \<or> list_ex (lapsed now) (cs_credentials s)
     in bindM (modifyM (if clean then clean_credentials now else id)) (\<lambda>_.
        bindM (liftM (scan_credentials dig allow_replaced now (cs_credentials s))) (\<lambda>found.
        returnM (found, cleanup)))))"

fun authenticate_device :: "protector \<Rightarrow> pyval \<Rightarrow> bool \<Rightarrow> pyval \<Rightarrow> pyval \<Rightarrow> authenticated_device option op" where
  "authenticate_device P (PStr token) allow_replaced clk1 clk2 =
     (if token = [] then returnM None
      else readM (\<lambda>s. case fst (find_device (digest P token) allow_replaced False clk1 s) of
          Inl e \<Rightarrow> raiseM e
        | Inr (found, cleanup) \<Rightarrow>
            if \<not> cleanup then returnM found
            else memory_mutate (bindM (find_device (digest P token) allow_replaced True clk2)
              (\<lambda>(found, _). returnM found))))"
| "authenticate_device P v allow_replaced clk1 clk2 = returnM None"

section \<open>Reading current scopes\<close>

definition current_scope :: "pyval \<Rightarrow> pyval \<Rightarrow> pyval \<Rightarrow> cred_data \<Rightarrow> cred_scope option cred_result" where
  "current_scope device generation clk s =
     bindE (require_ident device ''device_id'') (\<lambda>did.
     bindE (positive_integer generation ''generation'') (\<lambda>gen.
     bindE (timestamp clk) (\<lambda>now.
     case find (\<lambda>c. cred_device c = did \<and> cred_generation c = gen \<and> cred_state c = Active) (cs_credentials s) of
       None \<Rightarrow> Inr None
     | Some c \<Rightarrow> if cred_expires c \<le> now then Inr None
         else bindE (reread_scope (cred_scope_of c)) (\<lambda>sc. Inr (Some sc)))))"

text \<open>Each Device's credential of the highest generation, in order of first appearance.\<close>

definition note_newest :: "(string \<times> credential) list \<Rightarrow> credential \<Rightarrow> (string \<times> credential) list cred_result" where
  "note_newest newest c =
     bindE (require_ident (PStr (cred_device c)) ''device_id'') (\<lambda>did.
     case map_of newest did of
       None \<Rightarrow> Inr (AList.update did c newest)
     | Some cur \<Rightarrow>
         bindE (positive_integer (PInt (cred_generation c)) ''generation'') (\<lambda>gen.
         bindE (positive_integer (PInt (cred_generation cur)) ''generation'') (\<lambda>top.
         Inr (if top < gen then AList.update did c newest else newest))))"

definition newest_credentials :: "credential list \<Rightarrow> (string \<times> credential) list cred_result" where
  "newest_credentials cs = foldE note_newest [] cs"

definition wake_context :: "rat \<Rightarrow> string \<times> credential \<Rightarrow> authenticated_device list cred_result" where
  "wake_context now = (\<lambda>(did, c).
     if cred_state c \<noteq> Active \<or> cred_expires c \<le> now then Inr []
     else bindE (authenticated_of c) (\<lambda>a.
       Inr (if ''wake_claim'' \<in> set (scope_capabilities (auth_scope a)) then [a] else [])))"

definition active_wake_devices :: "pyval \<Rightarrow> cred_data \<Rightarrow> authenticated_device list cred_result" where
  "active_wake_devices clk s =
     bindE (timestamp clk) (\<lambda>now.
     bindE (newest_credentials (cs_credentials s)) (\<lambda>newest.
     bindE (mapE (wake_context now) newest) (\<lambda>devices. Inr (concat devices))))"

section \<open>Renewal, rotation and revocation\<close>

text \<open>A retry of a replacement already made returns the same material.\<close>

definition replay_replacement :: "protector \<Rightarrow> string \<Rightarrow> int \<Rightarrow> string \<Rightarrow> rat \<Rightarrow> replacement
    \<Rightarrow> credential_material op" where
  "replay_replacement P did gen rid now existing =
     (if repl_state existing \<noteq> ReplacementActive then raiseM (CredentialStateError ''expired_or_consumed'')
      else if repl_overlap existing \<le> now
      then bindM (modifyM (\<lambda>s. s\<lparr>cs_replacements := update_first
             (\<lambda>r. repl_device r = did \<and> repl_generation r = gen \<and> repl_request r = rid)
             (invalidate_replacement ReplacementExpired) (cs_replacements s)\<rparr>)) (\<lambda>_.
           raiseM (CredentialStateError ''expired_or_consumed''))
      else bindM (liftM (decrypt_replacement P existing)) (\<lambda>token.
           bindM (liftM (positive_integer (PInt (repl_new_generation existing)) ''generation'')) (\<lambda>new.
           bindM (liftM (reread_scope (repl_scope existing))) (\<lambda>sc.
           returnM \<lparr>mat_device = did, mat_credential = token, mat_generation = new,
             mat_expires = repl_new_expires existing, mat_scope = sc, mat_grants = []\<rparr>))))"

definition issue_replacement :: "protector \<Rightarrow> string \<Rightarrow> int \<Rightarrow> string \<Rightarrow> rat \<Rightarrow> string \<Rightarrow> string \<Rightarrow> credential
    \<Rightarrow> credential_material op" where
  "issue_replacement P did gen rid now token nonce current =
     bindM (checkM (token \<noteq> []) (CredentialValidationError ''credential material must not be blank'')) (\<lambda>_.
     bindM (liftM (reread_scope (cred_scope_of current))) (\<lambda>sc.
     let expires = now + CREDENTIAL_TTL_SECONDS; overlap = now + ROTATION_OVERLAP_SECONDS;
         (sealed_nonce, sealed) = encrypt_replacement P nonce token did gen rid
     in bindM (modifyM (set_credential did gen
           (\<lambda>c. c\<lparr>cred_state := Replaced, cred_overlap := Some overlap\<rparr>))) (\<lambda>_.
        bindM (modifyM (\<lambda>s. s\<lparr>cs_credentials := cs_credentials s @
           [\<lparr>cred_device = did, cred_endpoint = cred_endpoint current, cred_generation = gen + 1,
             cred_state = Active, cred_issued = now, cred_expires = expires,
             cred_digest = digest P token, cred_scope_of = sc, cred_label = cred_label current,
             cred_type = cred_type current, cred_overlap = None, cred_revoked_at = None,
             cred_revocation = None\<rparr>]\<rparr>)) (\<lambda>_.
        bindM (modifyM (\<lambda>s. s\<lparr>cs_replacements := cs_replacements s @
           [\<lparr>repl_device = did, repl_generation = gen, repl_new_generation = gen + 1,
             repl_request = rid, repl_state = ReplacementActive, repl_overlap = overlap,
             repl_new_expires = expires, repl_scope = sc, repl_nonce = sealed_nonce,
             repl_ciphertext = sealed\<rparr>]\<rparr>)) (\<lambda>_.
        returnM \<lparr>mat_device = did, mat_credential = token, mat_generation = gen + 1,
          mat_expires = expires, mat_scope = sc, mat_grants = []\<rparr>)))))"

definition replace :: "protector \<Rightarrow> string \<Rightarrow> int \<Rightarrow> string \<Rightarrow> bool \<Rightarrow> string \<Rightarrow> string \<Rightarrow> pyval
    \<Rightarrow> credential_material op" where
  "replace P did gen rid renewal_only token nonce clk =
     bindM (liftM (timestamp clk)) (\<lambda>now. readM (\<lambda>s.
     case find_credential s did gen of
       None \<Rightarrow> raiseM (CredentialStateError ''not_found'')
     | Some current \<Rightarrow> (case find_replacement s did gen rid of
         Some existing \<Rightarrow> replay_replacement P did gen rid now existing
       | None \<Rightarrow>
           if list_ex (\<lambda>r. repl_device r = did \<and> repl_request r = rid) (cs_replacements s)
           then raiseM (CredentialStateError ''conflict'')
           else if list_ex (\<lambda>r. repl_device r = did \<and> repl_generation r = gen) (cs_replacements s)
           then raiseM (CredentialStateError ''conflict'')
           else if cred_state current \<noteq> Active then raiseM (CredentialStateError ''expired_or_consumed'')
           else if cred_expires current \<le> now
           then bindM (modifyM (set_credential did gen (\<lambda>c. c\<lparr>cred_state := Expired\<rparr>))) (\<lambda>_.
                raiseM (CredentialStateError ''expired_or_consumed''))
           else if renewal_only \<and> RENEWAL_WINDOW_SECONDS < cred_expires current - now
           then raiseM (CredentialStateError ''conflict'')
           else issue_replacement P did gen rid now token nonce current)))"

definition replace_credential :: "protector \<Rightarrow> string \<Rightarrow> int \<Rightarrow> string \<Rightarrow> bool \<Rightarrow> string \<Rightarrow> string \<Rightarrow> pyval
    \<Rightarrow> credential_material op" where
  "replace_credential P did gen rid renewal_only token nonce clk =
     memory_mutate (replace P did gen rid renewal_only token nonce clk)"

definition renew :: "protector \<Rightarrow> pyval \<Rightarrow> pyval \<Rightarrow> pyval \<Rightarrow> pyval \<Rightarrow> string \<Rightarrow> string \<Rightarrow> (nat \<Rightarrow> pyval)
    \<Rightarrow> credential_material op" where
  "renew P device presented request generation token nonce clk =
     bindM (liftM (require_ident device ''device_id'')) (\<lambda>did.
     bindM (liftM (require_ident request ''request_id'')) (\<lambda>rid.
     bindM (liftM (positive_integer generation ''generation'')) (\<lambda>gen.
     bindM (authenticate_device P presented True (clk 0) (clk 1)) (\<lambda>found.
     case found of
       None \<Rightarrow> raiseM (CredentialStateError ''unauthorized'')
     | Some a \<Rightarrow>
         if auth_device a \<noteq> did \<or> auth_generation a \<noteq> gen
         then raiseM (CredentialStateError ''unauthorized'')
         else replace_credential P did gen rid True token nonce (clk 2)))))"

definition rotate_credential :: "protector \<Rightarrow> pyval \<Rightarrow> pyval \<Rightarrow> pyval \<Rightarrow> string \<Rightarrow> string \<Rightarrow> pyval
    \<Rightarrow> credential_material op" where
  "rotate_credential P device request generation token nonce clk =
     bindM (liftM (require_ident device ''device_id'')) (\<lambda>did.
     bindM (liftM (require_ident request ''request_id'')) (\<lambda>rid.
     bindM (liftM (positive_integer generation ''generation'')) (\<lambda>gen.
     replace_credential P did gen rid False token nonce clk)))"

fun revocation_reason :: "pyval \<Rightarrow> string option cred_result" where
  "revocation_reason PNone = Inr None"
| "revocation_reason (PStr s) = (if 1 \<le> length s \<and> length s \<le> 256 then Inr (Some s)
     else invalid ''reason must contain 1-256 characters'')"
| "revocation_reason v = invalid ''reason must contain 1-256 characters''"

text \<open>The clock is read once for every credential of the Device.\<close>

fun revoke_credentials :: "string \<Rightarrow> string option \<Rightarrow> (nat \<Rightarrow> pyval) \<Rightarrow> nat \<Rightarrow> credential list
    \<Rightarrow> (credential list \<times> nat) cred_result" where
  "revoke_credentials did reason clk i [] = Inr ([], i)"
| "revoke_credentials did reason clk i (c # cs) =
     (if cred_device c = did
      then bindE (timestamp (clk i)) (\<lambda>now.
           bindE (revoke_credentials did reason clk (Suc i) cs) (\<lambda>(cs', n).
           Inr (c\<lparr>cred_state := Revoked, cred_revoked_at := Some now,
                  cred_revocation := (if reason = None then cred_revocation c else reason)\<rparr> # cs', n)))
      else bindE (revoke_credentials did reason clk i cs) (\<lambda>(cs', n). Inr (c # cs', n)))"

definition mark_revoked :: "string \<Rightarrow> string option \<Rightarrow> (nat \<Rightarrow> pyval) \<Rightarrow> revocation_event op" where
  "mark_revoked did reason clk = readM (\<lambda>s.
     let mine = filter (\<lambda>c. cred_device c = did) (cs_credentials s)
     in if mine = [] then raiseM (CredentialStateError ''not_found'')
        else if list_all (\<lambda>c. cred_state c = Revoked) mine then raiseM (CredentialStateError ''conflict'')
        else bindM (liftM (max_generation mine)) (\<lambda>gen.
             bindM (liftM (revoke_credentials did reason clk 0 (cs_credentials s))) (\<lambda>(cs, n).
             bindM (modifyM (\<lambda>s. s\<lparr>cs_credentials := cs\<rparr>)) (\<lambda>_.
             bindM (modifyM (revoke_replacements did)) (\<lambda>_.
             bindM (liftM (timestamp (clk n))) (\<lambda>now.
             bindM (modifyM (end_device_grants did now)) (\<lambda>_.
             returnM \<lparr>rev_device = did, rev_generation = gen, rev_reason = reason\<rparr>)))))))"

definition revoke :: "pyval \<Rightarrow> pyval \<Rightarrow> (nat \<Rightarrow> pyval) \<Rightarrow> revocation_event op" where
  "revoke device reason clk =
     bindM (liftM (require_ident device ''device_id'')) (\<lambda>did.
     bindM (liftM (revocation_reason reason)) (\<lambda>why.
     memory_mutate (mark_revoked did why clk)))"

end
