(* ===== verification/Client_Grants.thy ===== *)
theory Client_Grants
  imports Credential_Service "HOL-Library.List_Lexorder" "HOL-Library.Char_ord"
begin

text \<open>
  The client grants of \<open>CredentialService\<close> (\<open>domain/credentials.py\<close>): adding, deciding and
  revoking a Device's grant to converse as a Profile, the reads the administration and the
  clients use, and the durable revision of each Device's configuration projection.
\<close>

section \<open>Current grants\<close>

definition is_current :: "rat \<Rightarrow> grant \<Rightarrow> bool cred_result" where
  "is_current now g =
     (if grant_state g = GrantActive then Inr True
      else if grant_state g = PendingOwner
      then bindE (opt_timestamp (grant_pending_until g)) (\<lambda>t. Inr (now < t))
      else Inr False)"

definition current_grant :: "rat \<Rightarrow> grant \<Rightarrow> client_grant list cred_result" where
  "current_grant now g = bindE (is_current now g) (\<lambda>b.
     if b then bindE (grant_from_record g) (\<lambda>cg. Inr [cg]) else Inr [])"

definition current_grants :: "cred_data \<Rightarrow> rat \<Rightarrow> client_grant list cred_result" where
  "current_grants s now = bindE (mapE (current_grant now) (cs_grants s)) (\<lambda>gs. Inr (concat gs))"

definition client_grants :: "pyval \<Rightarrow> pyval \<Rightarrow> cred_data \<Rightarrow> client_grant list cred_result" where
  "client_grants device clk s =
     bindE (require_ident device ''device_id'') (\<lambda>did.
     bindE (timestamp clk) (\<lambda>now.
     bindE (current_grants s now) (\<lambda>gs. Inr (filter (\<lambda>g. cg_device g = did) gs))))"

definition active_client_grant :: "pyval \<Rightarrow> pyval \<Rightarrow> pyval \<Rightarrow> cred_data \<Rightarrow> client_grant option cred_result" where
  "active_client_grant device wanted clk s =
     bindE (require_ident device ''device_id'') (\<lambda>did.
     bindE (require_ident wanted ''grant_id'') (\<lambda>gid.
     bindE (client_grants (PStr did) clk s) (\<lambda>gs.
     Inr (find (\<lambda>g. cg_id g = gid \<and> cg_state g = GrantActive) gs))))"

text \<open>The Profiles a Device holds an active grant for.\<close>

definition held_profiles :: "client_grant list \<Rightarrow> string \<Rightarrow> string set" where
  "held_profiles gs did = set (map cg_profile (filter (\<lambda>g. cg_device g = did \<and> cg_state g = GrantActive) gs))"

definition pending_owner_grants :: "pyval \<Rightarrow> pyval \<Rightarrow> cred_data \<Rightarrow> client_grant list cred_result" where
  "pending_owner_grants approver clk s =
     bindE (require_ident approver ''device_id'') (\<lambda>did.
     bindE (timestamp clk) (\<lambda>now.
     bindE (current_grants s now) (\<lambda>gs.
     Inr (filter (\<lambda>g. cg_state g = PendingOwner \<and> cg_profile g \<in> held_profiles gs did
        \<and> cg_device g \<noteq> did) gs))))"

definition profile_holders :: "pyval \<Rightarrow> pyval \<Rightarrow> cred_data \<Rightarrow> client_grant list cred_result" where
  "profile_holders device clk s =
     bindE (require_ident device ''device_id'') (\<lambda>did.
     bindE (timestamp clk) (\<lambda>now.
     bindE (current_grants s now) (\<lambda>gs.
     Inr (filter (\<lambda>g. cg_profile g \<in> held_profiles gs did) gs))))"

text \<open>
  Ambiguous labels within a Device's selection. The source groups the Profiles in a dictionary
  of sets; whether a group has two equal labels does not depend on the order of either.
\<close>

definition selected_profiles :: "client_grant list \<Rightarrow> string \<Rightarrow> string list \<Rightarrow> string \<Rightarrow> string list" where
  "selected_profiles gs device additional did =
     remdups (map cg_profile (filter (\<lambda>g. cg_device g = did) gs) @ (if did = device then additional else []))"

definition selection_devices :: "client_grant list \<Rightarrow> string \<Rightarrow> string list \<Rightarrow> string list" where
  "selection_devices gs device additional = map cg_device gs @ (if additional = [] then [] else [device])"

definition distinct_labels :: "(string \<times> string) list \<Rightarrow> string list \<Rightarrow> bool" where
  "distinct_labels labels profiles \<longleftrightarrow>
     distinct (map (\<lambda>p. the (map_of labels p)) (filter (\<lambda>p. map_of labels p \<noteq> None) profiles))"

definition validate_client_labels :: "(string \<times> string) list \<Rightarrow> string option \<Rightarrow> pyval \<Rightarrow> pyval \<Rightarrow> cred_data
    \<Rightarrow> unit cred_result" where
  "validate_client_labels labels device additional clk s =
     bindE (timestamp clk) (\<lambda>now.
     bindE (current_grants s now) (\<lambda>gs.
     bindE (bounded_values additional ''client_profiles'') (\<lambda>extra.
     let dev = (case device of None \<Rightarrow> [] | Some d \<Rightarrow> d)
     in checkE (list_all (\<lambda>d. distinct_labels labels (selected_profiles gs dev extra d))
            (selection_devices gs dev extra))
          (CredentialValidationError ''client Profile labels must be unique''))))"

section \<open>Adding a grant\<close>

definition is_own_current :: "string \<Rightarrow> grant \<Rightarrow> bool" where
  "is_own_current did g \<longleftrightarrow> grant_device g = did \<and> grant_state g \<in> {GrantActive, PendingOwner}"

definition remember :: "string \<Rightarrow> string \<Rightarrow> string \<Rightarrow> bool \<Rightarrow> grant \<Rightarrow> client_grant op" where
  "remember did key profile bootstrap g =
     bindM (modifyM (\<lambda>s. s\<lparr>cs_grant_requests := cs_grant_requests s @
       [\<lparr>gr_device = did, gr_key = key, gr_profile = profile, gr_bootstrap = bootstrap,
         gr_grant = grant_id g\<rparr>]\<rparr>)) (\<lambda>_.
     liftM (grant_from_record g))"

text \<open>A key that was used before returns its grant again, or conflicts.\<close>

definition replay_grant :: "string \<Rightarrow> bool \<Rightarrow> grant_request \<Rightarrow> client_grant op" where
  "replay_grant profile bootstrap req =
     (if gr_profile req \<noteq> profile \<or> gr_bootstrap req \<noteq> bootstrap
      then raiseM (CredentialStateError ''conflict'')
      else readM (\<lambda>s. case find (\<lambda>g. grant_id g = gr_grant req) (cs_grants s) of
          None \<Rightarrow> raiseM (CredentialStateError ''not_found'')
        | Some g \<Rightarrow> liftM (grant_from_record g)))"

text \<open>Indexing a record by a key it may lack.\<close>

definition required_key :: "string \<Rightarrow> string option \<Rightarrow> string cred_result" where
  "required_key k v = (case v of None \<Rightarrow> Inl (KeyError k) | Some x \<Rightarrow> Inr x)"

definition new_grant :: "credential \<Rightarrow> string \<Rightarrow> string \<Rightarrow> string \<Rightarrow> string list \<Rightarrow> (string \<times> string) list
    \<Rightarrow> string list \<Rightarrow> bool \<Rightarrow> string list \<Rightarrow> rat \<Rightarrow> string \<Rightarrow> client_grant op" where
  "new_grant device did key profile available labels shared authorize live now new_id = readM (\<lambda>s.
     let current = filter (is_own_current did) (cs_grants s)
     in bindM (checkM (profile \<in> set available) (CredentialValidationError ''profile is unavailable'')) (\<lambda>_.
        bindM (liftM (required_key profile (map_of labels profile))) (\<lambda>lbl.
        bindM (checkM (\<not> list_ex (\<lambda>g. map_of labels (grant_profile g) = Some lbl) current)
          (CredentialValidationError ''client Profile labels must be unique'')) (\<lambda>_.
        bindM (checkM (length current < MAX_CLIENT_GRANTS)
          (CredentialValidationError ''too many client profiles'')) (\<lambda>_.
        let boot = (profile \<notin> set shared \<and> \<not> held_elsewhere s live did profile \<and> authorize);
            st = (if profile \<in> set shared \<or> boot then GrantActive else PendingOwner)
        in bindM (liftM (require_ident (PStr (''grant-'' @ new_id)) ''grant_id'')) (\<lambda>gid.
           bindM (liftM (required_key ''label'' (cred_label device))) (\<lambda>dlbl.
           bindM (liftM (required_key ''type'' (cred_type device))) (\<lambda>ty.
           let g = \<lparr>grant_id = gid, grant_device = did, grant_profile = profile, grant_state = st,
                 grant_label = dlbl, grant_type = ty, grant_created = now, grant_bootstrap = boot,
                 grant_pending_until = (if st = PendingOwner
                   then Some (now + PENDING_OWNER_GRANT_TTL_SECONDS) else None),
                 grant_decided_at = (if boot then Some now else None),
                 grant_decided_by = (if boot then Some ''home_admin'' else None)\<rparr>
           in bindM (modifyM (\<lambda>s. s\<lparr>cs_grants := cs_grants s @ [g]\<rparr>)) (\<lambda>_.
              remember did key profile authorize g)))))))))"

text \<open>The Device's newest credential, if one of its credentials is live.\<close>

definition client_device_of :: "string \<Rightarrow> rat \<Rightarrow> cred_data \<Rightarrow> credential cred_result" where
  "client_device_of did now s =
     (case filter (\<lambda>c. cred_device c = did) (cs_credentials s) of
        [] \<Rightarrow> refuse ''not_found''
      | c # cs \<Rightarrow>
          if did \<notin> set (live_device_ids s now) then refuse ''not_found''
          else let device = min_by (\<lambda>c. - cred_generation c) c cs
            in if \<not> list_ex (\<lambda>t. cred_type device = Some t) CLIENT_ENDPOINT_TYPES then refuse ''forbidden''
               else bindE (reread_scope (cred_scope_of device)) (\<lambda>sc.
                 if ''client_claim'' \<in> set (scope_capabilities sc) then Inr device else refuse ''forbidden''))"

definition append_grant :: "string \<Rightarrow> string \<Rightarrow> string \<Rightarrow> string list \<Rightarrow> (string \<times> string) list \<Rightarrow> string list
    \<Rightarrow> bool \<Rightarrow> string \<Rightarrow> pyval \<Rightarrow> client_grant op" where
  "append_grant did profile key available labels shared authorize new_id clk =
     bindM (liftM (timestamp clk)) (\<lambda>now. readM (\<lambda>s.
     bindM (liftM (client_device_of did now s)) (\<lambda>device.
     bindM (expire_pending_grants now) (\<lambda>_. readM (\<lambda>s1.
     case find (\<lambda>q. gr_device q = did \<and> gr_key q = key) (cs_grant_requests s1) of
       Some req \<Rightarrow> replay_grant profile authorize req
     | None \<Rightarrow> (case find (\<lambda>g. grant_profile g = profile) (filter (is_own_current did) (cs_grants s1)) of
         Some g \<Rightarrow> remember did key profile authorize g
       | None \<Rightarrow> new_grant device did key profile available labels shared authorize
           (live_device_ids s now) now new_id))))))"

definition add_client_grant :: "pyval \<Rightarrow> pyval \<Rightarrow> pyval \<Rightarrow> pyval \<Rightarrow> (string \<times> string) list option \<Rightarrow> pyval
    \<Rightarrow> pyval \<Rightarrow> string \<Rightarrow> pyval \<Rightarrow> client_grant op" where
  "add_client_grant device profile key configured labels shared authorize new_id clk =
     bindM (liftM (require_ident device ''device_id'')) (\<lambda>did.
     bindM (liftM (require_ident profile ''profile_id'')) (\<lambda>pid.
     bindM (liftM (require_ident key ''idempotency_key'')) (\<lambda>k.
     bindM (liftM (case labels of None \<Rightarrow> invalid ''configured Profiles require labels''
              | Some ls \<Rightarrow> Inr ls)) (\<lambda>ls.
     bindM (liftM (bounded_values configured ''configured_profiles'')) (\<lambda>available.
     bindM (liftM (bounded_values shared ''shared_profiles'')) (\<lambda>sh.
     bindM (checkM (pid \<noteq> ''*'') (CredentialValidationError ''profile is unavailable'')) (\<lambda>_.
     bindM (liftM (case authorize of PBool b \<Rightarrow> Inr b
              | _ \<Rightarrow> invalid ''authorize_bootstrap must be a boolean'')) (\<lambda>auth.
     memory_mutate (append_grant did pid k available ls sh auth new_id clk)))))))))"

section \<open>Deciding and revoking a grant\<close>

definition holds_profile :: "cred_data \<Rightarrow> string \<Rightarrow> string \<Rightarrow> bool" where
  "holds_profile s did profile \<longleftrightarrow>
     list_ex (\<lambda>g. grant_device g = did \<and> grant_profile g = profile \<and> grant_state g = GrantActive) (cs_grants s)"

definition set_grant :: "string \<Rightarrow> (grant \<Rightarrow> grant) \<Rightarrow> cred_data \<Rightarrow> cred_data" where
  "set_grant gid f s = s\<lparr>cs_grants := update_first (\<lambda>g. grant_id g = gid) f (cs_grants s)\<rparr>"

definition decide_grant :: "string \<Rightarrow> string \<Rightarrow> bool \<Rightarrow> pyval \<Rightarrow> client_grant op" where
  "decide_grant approver gid approved clk =
     bindM (liftM (timestamp clk)) (\<lambda>now. readM (\<lambda>s.
     if list_ex (\<lambda>c. cred_device c = approver \<and> cred_type c = Some ''browser'' \<and> cred_state c = Active)
          (cs_credentials s)
     then raiseM (CredentialStateError ''forbidden'')
     else bindM (expire_pending_grants now) (\<lambda>_. readM (\<lambda>s1.
       case find (\<lambda>g. grant_id g = gid) (cs_grants s1) of
         None \<Rightarrow> raiseM (CredentialStateError ''not_found'')
       | Some g \<Rightarrow>
           if grant_state g \<noteq> PendingOwner then raiseM (CredentialStateError ''not_found'')
           else if grant_device g = approver then raiseM (CredentialStateError ''unauthorized'')
           else if \<not> holds_profile s1 approver (grant_profile g)
           then raiseM (CredentialStateError ''unauthorized'')
           else let f = (\<lambda>g. g\<lparr>grant_state := (if approved then GrantActive else GrantRejected),
                  grant_decided_at := Some now, grant_decided_by := Some approver\<rparr>)
             in bindM (modifyM (set_grant gid f)) (\<lambda>_. liftM (grant_from_record (f g)))))))"

definition decide_owner_grant :: "pyval \<Rightarrow> pyval \<Rightarrow> pyval \<Rightarrow> pyval \<Rightarrow> client_grant op" where
  "decide_owner_grant approver wanted approved clk =
     bindM (liftM (require_ident approver ''device_id'')) (\<lambda>did.
     bindM (liftM (require_ident wanted ''grant_id'')) (\<lambda>gid.
     bindM (liftM (case approved of PBool b \<Rightarrow> Inr b | _ \<Rightarrow> invalid ''approve must be a boolean'')) (\<lambda>b.
     memory_mutate (decide_grant did gid b clk))))"

definition revoke_grant :: "string \<Rightarrow> string option \<Rightarrow> string list \<Rightarrow> pyval \<Rightarrow> client_grant op" where
  "revoke_grant gid requester shared clk =
     bindM (liftM (timestamp clk)) (\<lambda>now.
     bindM (expire_pending_grants now) (\<lambda>_. readM (\<lambda>s.
     case find (\<lambda>g. grant_id g = gid) (cs_grants s) of
       None \<Rightarrow> raiseM (CredentialStateError ''not_found'')
     | Some g \<Rightarrow>
         if grant_state g \<notin> {GrantActive, PendingOwner, GrantRevoked}
         then raiseM (CredentialStateError ''not_found'')
         else bindM (case requester of
               None \<Rightarrow> returnM ()
             | Some d \<Rightarrow> checkM (holds_profile s d (grant_profile g)
                 \<and> (grant_profile g \<in> set shared \<longrightarrow> grant_device g = d))
                 (CredentialStateError ''unauthorized'')) (\<lambda>_.
           let f = (\<lambda>g. if grant_state g \<noteq> GrantRevoked
                 then g\<lparr>grant_state := GrantRevoked, grant_decided_at := Some now\<rparr> else g)
           in bindM (modifyM (set_grant gid f)) (\<lambda>_. liftM (grant_from_record (f g)))))))"

definition revoke_client_grant :: "pyval \<Rightarrow> pyval option \<Rightarrow> pyval \<Rightarrow> pyval \<Rightarrow> client_grant op" where
  "revoke_client_grant wanted requester shared clk =
     bindM (liftM (require_ident wanted ''grant_id'')) (\<lambda>gid.
     bindM (liftM (bounded_values shared ''shared_profiles'')) (\<lambda>sh.
     bindM (liftM (case requester of None \<Rightarrow> Inr None
              | Some v \<Rightarrow> bindE (require_ident v ''device_id'') (\<lambda>d. Inr (Some d)))) (\<lambda>who.
     memory_mutate (revoke_grant gid who sh clk))))"

section \<open>The configuration projection\<close>

definition projection_fingerprint :: "int \<Rightarrow> client_grant list \<Rightarrow> fingerprint" where
  "projection_fingerprint revision gs = (revision, map (\<lambda>g. (cg_id g, cg_state g)) gs)"

definition project :: "string \<Rightarrow> int \<Rightarrow> pyval \<Rightarrow> (int \<times> client_grant list) op" where
  "project did revision clk =
     bindM (liftM (timestamp clk)) (\<lambda>now. readM (\<lambda>s.
     bindM (liftM (current_grants s now)) (\<lambda>all.
     let gs = filter (\<lambda>g. cg_device g = did) all;
         fp = projection_fingerprint revision gs
     in case map_of (cs_projections s) did of
          None \<Rightarrow> bindM (modifyM (\<lambda>s. s\<lparr>cs_projections := AList.update did (fp, revision) (cs_projections s)\<rparr>))
            (\<lambda>_. returnM (revision, gs))
        | Some (old, number) \<Rightarrow>
            if old = fp then returnM (number, gs)
            else let next = max revision (number + 1)
              in bindM (modifyM (\<lambda>s. s\<lparr>cs_projections := AList.update did (fp, next) (cs_projections s)\<rparr>))
                 (\<lambda>_. returnM (next, gs)))))"

definition client_configuration :: "string \<Rightarrow> int \<Rightarrow> pyval \<Rightarrow> (int \<times> client_grant list) op" where
  "client_configuration did revision clk = memory_mutate (project did revision clk)"

definition client_configuration_revision :: "pyval \<Rightarrow> int \<Rightarrow> pyval \<Rightarrow> cred_data \<Rightarrow> int option cred_result" where
  "client_configuration_revision device revision clk s =
     bindE (require_ident device ''device_id'') (\<lambda>did.
     case map_of (cs_projections s) did of
       None \<Rightarrow> Inr None
     | Some (old, number) \<Rightarrow>
         bindE (timestamp clk) (\<lambda>now.
         bindE (current_grants s now) (\<lambda>all.
         Inr (if old = projection_fingerprint revision (filter (\<lambda>g. cg_device g = did) all)
              then Some number else None))))"

section \<open>The administration's view\<close>

record paired_device =
  pd_device :: string
  pd_label :: string
  pd_type :: string
  pd_generation :: int
  pd_state :: credential_state
  pd_issued :: rat
  pd_expires :: rat
  pd_grants :: "client_grant list"

definition text_or :: "string option \<Rightarrow> string \<Rightarrow> string" where
  "text_or v d = (case v of None \<Rightarrow> d | Some s \<Rightarrow> if s = [] then d else s)"

definition note_newest_paired :: "(string \<times> credential) list \<Rightarrow> credential \<Rightarrow> (string \<times> credential) list cred_result" where
  "note_newest_paired newest c =
     (case map_of newest (cred_device c) of
        None \<Rightarrow> Inr (AList.update (cred_device c) c newest)
      | Some cur \<Rightarrow>
          bindE (positive_integer (PInt (cred_generation c)) ''generation'') (\<lambda>gen.
          bindE (positive_integer (PInt (cred_generation cur)) ''generation'') (\<lambda>top.
          Inr (if top < gen then AList.update (cred_device c) c newest else newest))))"

definition paired_of :: "rat \<Rightarrow> client_grant list \<Rightarrow> string \<times> credential \<Rightarrow> paired_device cred_result" where
  "paired_of now gs = (\<lambda>(did, c).
     bindE (positive_integer (PInt (cred_generation c)) ''generation'') (\<lambda>gen.
     Inr \<lparr>pd_device = did, pd_label = text_or (cred_label c) (cred_endpoint c),
          pd_type = text_or (cred_type c) ''unknown'', pd_generation = gen,
          pd_state = (if cred_state c = Active \<and> cred_expires c \<le> now then Expired else cred_state c),
          pd_issued = cred_issued c, pd_expires = cred_expires c,
          pd_grants = filter (\<lambda>g. cg_device g = did) gs\<rparr>))"

definition paired_devices :: "pyval \<Rightarrow> cred_data \<Rightarrow> paired_device list cred_result" where
  "paired_devices clk s =
     bindE (timestamp clk) (\<lambda>now.
     bindE (current_grants s now) (\<lambda>gs.
     bindE (foldE note_newest_paired [] (cs_credentials s)) (\<lambda>newest.
     bindE (mapE (paired_of now gs) newest) (\<lambda>devices.
     Inr (sort_key pd_label devices)))))"

end
