(* ===== verification/Credential_Evolution.thy ===== *)
theory Credential_Evolution
  imports Client_Grants
begin

text \<open>
  How the credential state changes: its record lists only grow, and every record keeps its
  identity and moves forward through its states. \<open>evolves\<close> collects this for the whole state;
  one lemma per operation shows that the operation evolves it.
\<close>

section \<open>Forward moves of a record\<close>

fun offer_after :: "offer_state \<Rightarrow> offer_state \<Rightarrow> bool" where
  "offer_after Offered t = True"
| "offer_after OfferPending t = (t \<noteq> Offered)"
| "offer_after s t = (t = s)"

definition offer_core :: "offer \<Rightarrow> string \<times> string \<times> rat" where
  "offer_core a = (offer_id a, offer_digest a, offer_expires a)"

definition offer_evolves :: "offer \<Rightarrow> offer \<Rightarrow> bool" where
  "offer_evolves a b \<longleftrightarrow> offer_core b = offer_core a \<and> offer_after (offer_state a) (offer_state b)"

fun request_after :: "request_state \<Rightarrow> request_state \<Rightarrow> bool" where
  "request_after RequestPending t = True"
| "request_after RequestApproved t = (t \<in> {RequestApproved, RequestExpired, RequestConsumed})"
| "request_after s t = (t = s)"

text \<open>What is asked for never changes, and what was approved is fixed by the decision.\<close>

definition request_core :: "enrollment \<Rightarrow> string \<times> string \<times> string \<times> string \<times> string \<times> cred_scope
    \<times> (string \<times> string) list \<times> string \<times> string \<times> rat" where
  "request_core a = (req_id a, req_offer a, req_endpoint a, req_label a, req_type a, req_scope a,
     req_mappings a, req_storage a, req_confirmation a, req_expires a)"

definition request_evolves :: "enrollment \<Rightarrow> enrollment \<Rightarrow> bool" where
  "request_evolves a b \<longleftrightarrow>
     request_core b = request_core a
     \<and> request_after (req_state a) (req_state b)
     \<and> (req_state a \<noteq> RequestPending \<longrightarrow> req_approved b = req_approved a \<and> req_profiles b = req_profiles a)"

fun credential_after :: "credential_state \<Rightarrow> credential_state \<Rightarrow> bool" where
  "credential_after Active t = True"
| "credential_after Replaced t = (t \<noteq> Active)"
| "credential_after Expired t = (t \<in> {Expired, Revoked})"
| "credential_after Revoked t = (t = Revoked)"

definition credential_core :: "credential \<Rightarrow> string \<times> string \<times> int \<times> rat \<times> rat \<times> string \<times> cred_scope
    \<times> string option \<times> string option" where
  "credential_core a = (cred_device a, cred_endpoint a, cred_generation a, cred_issued a, cred_expires a,
     cred_digest a, cred_scope_of a, cred_label a, cred_type a)"

definition credential_evolves :: "credential \<Rightarrow> credential \<Rightarrow> bool" where
  "credential_evolves a b \<longleftrightarrow>
     credential_core b = credential_core a
     \<and> credential_after (cred_state a) (cred_state b)
     \<and> (cred_state a \<noteq> Active \<longrightarrow> cred_overlap b = cred_overlap a)"

fun replacement_after :: "replacement_state \<Rightarrow> replacement_state \<Rightarrow> bool" where
  "replacement_after ReplacementActive t = True"
| "replacement_after ReplacementExpired t = (t \<noteq> ReplacementActive)"
| "replacement_after ReplacementRevoked t = (t = ReplacementRevoked)"

text \<open>A replacement keeps its sealed token exactly as long as it is active.\<close>

definition replacement_core :: "replacement \<Rightarrow> string \<times> int \<times> int \<times> string \<times> rat \<times> rat \<times> cred_scope" where
  "replacement_core a = (repl_device a, repl_generation a, repl_new_generation a, repl_request a,
     repl_overlap a, repl_new_expires a, repl_scope a)"

definition replacement_evolves :: "replacement \<Rightarrow> replacement \<Rightarrow> bool" where
  "replacement_evolves a b \<longleftrightarrow>
     replacement_core b = replacement_core a
     \<and> replacement_after (repl_state a) (repl_state b)
     \<and> (repl_state b = ReplacementActive \<longrightarrow> b = a)"

fun grant_after :: "grant_state \<Rightarrow> grant_state \<Rightarrow> bool" where
  "grant_after PendingOwner t = True"
| "grant_after GrantActive t = (t \<in> {GrantActive, GrantRevoked})"
| "grant_after s t = (t = s)"

definition grant_core :: "grant \<Rightarrow> string \<times> string \<times> string \<times> string \<times> string \<times> rat \<times> bool \<times> rat option" where
  "grant_core a = (grant_id a, grant_device a, grant_profile a, grant_label a, grant_type a,
     grant_created a, grant_bootstrap a, grant_pending_until a)"

definition grant_evolves :: "grant \<Rightarrow> grant \<Rightarrow> bool" where
  "grant_evolves a b \<longleftrightarrow>
     grant_core b = grant_core a
     \<and> grant_after (grant_state a) (grant_state b)"

section \<open>Each is a preorder\<close>

lemma offer_after_refl [simp]: "offer_after s s" by (cases s) auto
lemma request_after_refl [simp]: "request_after s s" by (cases s) auto
lemma credential_after_refl [simp]: "credential_after s s" by (cases s) auto
lemma replacement_after_refl [simp]: "replacement_after s s" by (cases s) auto
lemma grant_after_refl [simp]: "grant_after s s" by (cases s) auto

lemma offer_after_trans: "offer_after a b \<Longrightarrow> offer_after b c \<Longrightarrow> offer_after a c"
  by (cases a; cases b; cases c) auto

lemma request_after_trans: "request_after a b \<Longrightarrow> request_after b c \<Longrightarrow> request_after a c"
  by (cases a; cases b; cases c) auto

lemma credential_after_trans: "credential_after a b \<Longrightarrow> credential_after b c \<Longrightarrow> credential_after a c"
  by (cases a; cases b; cases c) auto

lemma replacement_after_trans: "replacement_after a b \<Longrightarrow> replacement_after b c \<Longrightarrow> replacement_after a c"
  by (cases a; cases b; cases c) auto

lemma grant_after_trans: "grant_after a b \<Longrightarrow> grant_after b c \<Longrightarrow> grant_after a c"
  by (cases a; cases b; cases c) auto

lemma request_after_decided: "request_after s t \<Longrightarrow> s \<noteq> RequestPending \<Longrightarrow> t \<noteq> RequestPending"
  by (cases s) auto

lemma credential_after_inactive: "credential_after s t \<Longrightarrow> s \<noteq> Active \<Longrightarrow> t \<noteq> Active"
  by (cases s) auto

lemma offer_evolves_refl: "reflp offer_evolves"
  by (simp add: reflp_def offer_evolves_def)

lemma offer_evolves_trans: "transp offer_evolves"
  by (auto simp: transp_def offer_evolves_def intro: offer_after_trans)

lemma request_evolves_refl: "reflp request_evolves"
  by (simp add: reflp_def request_evolves_def)

lemma request_evolves_trans: "transp request_evolves"
  by (auto simp: transp_def request_evolves_def dest: request_after_decided intro: request_after_trans)

lemma credential_evolves_refl: "reflp credential_evolves"
  by (simp add: reflp_def credential_evolves_def)

lemma credential_evolves_trans: "transp credential_evolves"
  by (auto simp: transp_def credential_evolves_def dest: credential_after_inactive intro: credential_after_trans)

lemma replacement_evolves_refl: "reflp replacement_evolves"
  by (simp add: reflp_def replacement_evolves_def)

lemma replacement_after_active: "replacement_after s t \<Longrightarrow> t = ReplacementActive \<Longrightarrow> s = ReplacementActive"
  by (cases s) auto

lemma replacement_evolves_trans: "transp replacement_evolves"
  by (auto simp: transp_def replacement_evolves_def dest: replacement_after_active intro: replacement_after_trans)

lemma grant_evolves_refl: "reflp grant_evolves"
  by (simp add: reflp_def grant_evolves_def)

lemma grant_evolves_trans: "transp grant_evolves"
  by (auto simp: transp_def grant_evolves_def intro: grant_after_trans)

section \<open>The whole state\<close>

definition projections_evolve :: "(string \<times> (fingerprint \<times> int)) list \<Rightarrow> (string \<times> (fingerprint \<times> int)) list \<Rightarrow> bool" where
  "projections_evolve a b \<longleftrightarrow> (\<forall>did fp n. map_of a did = Some (fp, n) \<longrightarrow>
     (\<exists>fp' n'. map_of b did = Some (fp', n') \<and> (fp' = fp \<and> n' = n \<or> n < n')))"

definition evolves :: "cred_data \<Rightarrow> cred_data \<Rightarrow> bool" where
  "evolves s t \<longleftrightarrow> grows offer_evolves (cs_offers s) (cs_offers t)
     \<and> grows request_evolves (cs_requests s) (cs_requests t)
     \<and> grows credential_evolves (cs_credentials s) (cs_credentials t)
     \<and> grows replacement_evolves (cs_replacements s) (cs_replacements t)
     \<and> grows grant_evolves (cs_grants s) (cs_grants t)
     \<and> grows (=) (cs_grant_requests s) (cs_grant_requests t)
     \<and> projections_evolve (cs_projections s) (cs_projections t)"

lemma projections_evolve_refl [simp]: "projections_evolve a a"
  by (simp add: projections_evolve_def)

lemma projections_evolve_trans:
  assumes ab: "projections_evolve a b" and bc: "projections_evolve b c"
  shows "projections_evolve a c"
  unfolding projections_evolve_def
proof (intro allI impI)
  fix did fp n
  assume "map_of a did = Some (fp, n)"
  with ab obtain fp' n' where b: "map_of b did = Some (fp', n')" "fp' = fp \<and> n' = n \<or> n < n'"
    unfolding projections_evolve_def by blast
  from bc b(1) obtain fp'' n'' where "map_of c did = Some (fp'', n'')" "fp'' = fp' \<and> n'' = n' \<or> n' < n''"
    unfolding projections_evolve_def by blast
  with b(2) show "\<exists>fp' n'. map_of c did = Some (fp', n') \<and> (fp' = fp \<and> n' = n \<or> n < n')" by auto
qed

lemmas record_refls = offer_evolves_refl request_evolves_refl credential_evolves_refl
  replacement_evolves_refl grant_evolves_refl

lemma grows_self [simp]: "grows offer_evolves xs xs" "grows request_evolves rs rs"
  "grows credential_evolves cs cs" "grows replacement_evolves ps ps" "grows grant_evolves gs gs"
  "grows (=) qs qs"
  by (simp_all add: grows_refl record_refls)

lemma evolves_refl [simp]: "evolves s s"
  by (simp add: evolves_def)

lemma evolves_trans: "evolves s t \<Longrightarrow> evolves t u \<Longrightarrow> evolves s u"
  unfolding evolves_def
  by (elim conjE, intro conjI;
      (rule grows_trans [OF offer_evolves_trans] grows_trans [OF request_evolves_trans]
        grows_trans [OF credential_evolves_trans] grows_trans [OF replacement_evolves_trans]
        grows_trans [OF grant_evolves_trans] grows_trans [where R = "(=)", OF transp_on_equality]
        projections_evolve_trans, assumption, assumption))

text \<open>Changing the record a search found.\<close>

lemma grows_update_found:
  assumes "reflp R" and "find p xs = Some x" and "R x (f x)"
  shows "grows R xs (update_first p f xs)"
proof (rule grows_same_length)
  show "list_all2 R xs (update_first p f xs)"
    using assms(2)
    by (induction xs) (auto intro: list.rel_refl reflpD [OF assms(1)] assms(3) split: if_splits)
qed

text \<open>
  A change to one list evolves the state when it evolves the list. These rules, and those of
  the helpers, follow a chain of changes backwards.
\<close>

lemma evolves_offers:
  "evolves s t \<Longrightarrow> grows offer_evolves (cs_offers t) xs \<Longrightarrow> evolves s (t\<lparr>cs_offers := xs\<rparr>)"
  by (erule evolves_trans) (simp add: evolves_def)

lemma evolves_requests:
  "evolves s t \<Longrightarrow> grows request_evolves (cs_requests t) xs \<Longrightarrow> evolves s (t\<lparr>cs_requests := xs\<rparr>)"
  by (erule evolves_trans) (simp add: evolves_def)

lemma evolves_credentials:
  "evolves s t \<Longrightarrow> grows credential_evolves (cs_credentials t) xs \<Longrightarrow> evolves s (t\<lparr>cs_credentials := xs\<rparr>)"
  by (erule evolves_trans) (simp add: evolves_def)

lemma evolves_replacements:
  "evolves s t \<Longrightarrow> grows replacement_evolves (cs_replacements t) xs \<Longrightarrow> evolves s (t\<lparr>cs_replacements := xs\<rparr>)"
  by (erule evolves_trans) (simp add: evolves_def)

lemma evolves_grants:
  "evolves s t \<Longrightarrow> grows grant_evolves (cs_grants t) xs \<Longrightarrow> evolves s (t\<lparr>cs_grants := xs\<rparr>)"
  by (erule evolves_trans) (simp add: evolves_def)

lemma evolves_grant_requests:
  "evolves s t \<Longrightarrow> grows (=) (cs_grant_requests t) xs \<Longrightarrow> evolves s (t\<lparr>cs_grant_requests := xs\<rparr>)"
  by (erule evolves_trans) (simp add: evolves_def)

lemma evolves_projections:
  "evolves s t \<Longrightarrow> projections_evolve (cs_projections t) xs \<Longrightarrow> evolves s (t\<lparr>cs_projections := xs\<rparr>)"
  by (erule evolves_trans) (simp add: evolves_def)

lemmas record_evolves_defs = offer_evolves_def request_evolves_def credential_evolves_def
  replacement_evolves_def grant_evolves_def offer_core_def request_core_def credential_core_def
  replacement_core_def grant_core_def

section \<open>Helpers evolve the state\<close>

lemma replacement_after_revoked: "replacement_after s ReplacementRevoked"
  by (cases s) auto

lemma credential_after_revoked [simp]: "credential_after s Revoked"
  by (cases s) auto

lemma expire_enrollment_state_evolves: "evolves s (expire_enrollment_state now s)"
proof -
  have "grows offer_evolves (cs_offers s) (map (expire_offer now) (cs_offers s))"
    by (rule grows_map) (auto simp: record_evolves_defs expire_offer_def)
  moreover have "grows request_evolves (cs_requests s) (map (expire_request now) (cs_requests s))"
    by (rule grows_map) (auto simp: record_evolves_defs expire_request_def)
  ultimately show ?thesis by (simp add: evolves_def expire_enrollment_state_def)
qed

lemma set_request_evolves:
  assumes "evolves s t" and "find_request t rid = Some r" and "request_evolves r (f r)"
  shows "evolves s (set_request rid f t)"
  using assms unfolding set_request_def find_request_def
  by (intro evolves_requests grows_update_found [OF request_evolves_refl])

lemma set_offer_evolves:
  assumes "evolves s t" and "find p (cs_offers t) = Some o1" and "offer_after (offer_state o1) st"
  shows "evolves s (set_offer p st t)"
  using assms unfolding set_offer_def
  by (auto simp: record_evolves_defs intro!: evolves_offers grows_update_found [OF offer_evolves_refl])

lemma set_credential_evolves:
  assumes "evolves s t" and "find_credential t did gen = Some c" and "credential_evolves c (f c)"
  shows "evolves s (set_credential did gen f t)"
  using assms unfolding set_credential_def find_credential_def
  by (intro evolves_credentials grows_update_found [OF credential_evolves_refl])

lemma set_grant_evolves:
  assumes "evolves s t" and "find (\<lambda>g. grant_id g = gid) (cs_grants t) = Some g" and "grant_evolves g (f g)"
  shows "evolves s (set_grant gid f t)"
  using assms unfolding set_grant_def
  by (intro evolves_grants grows_update_found [OF grant_evolves_refl])

lemma revoke_replacements_evolves: "evolves s t \<Longrightarrow> evolves s (revoke_replacements did t)"
  unfolding revoke_replacements_def
  by (rule evolves_replacements, assumption, rule grows_map)
    (auto simp: record_evolves_defs invalidate_replacement_def replacement_after_revoked)

lemma end_device_grants_evolves: "evolves s t \<Longrightarrow> evolves s (end_device_grants did now t)"
  unfolding end_device_grants_def
  by (rule evolves_grants, assumption, rule grows_map) (auto simp: record_evolves_defs end_grant_def)

lemma expire_pending_grant_evolves: "expire_pending_grant now g = Inr h \<Longrightarrow> grant_evolves g h"
  by (auto simp: expire_pending_grant_def result_simps record_evolves_defs split: if_splits)

lemma expire_pending_grants_ok:
  assumes "expire_pending_grants now s = (Inr u, t)"
  obtains gs where "list_all2 (\<lambda>g h. expire_pending_grant now g = Inr h) (cs_grants s) gs"
    "t = s\<lparr>cs_grants := gs\<rparr>"
  using assms unfolding expire_pending_grants_def by (auto simp: mutation_simps mapE_eq_Inr)

lemma expire_pending_grants_evolves:
  "expire_pending_grants now s = (Inr u, t) \<Longrightarrow> evolves s t"
  by (erule expire_pending_grants_ok)
    (auto intro!: evolves_grants grows_same_length elim!: list_all2_mono intro: expire_pending_grant_evolves)

lemma clean_credentials_evolves: "evolves s (clean_credentials now s)"
proof -
  have "grows credential_evolves (cs_credentials s) (map (\<lambda>c. c\<lparr>cred_state := state_at now c\<rparr>) (cs_credentials s))"
    by (rule grows_map) (auto simp: record_evolves_defs state_at_def lapsed_def)
  moreover have "grows replacement_evolves (cs_replacements s) (map (expire_replacement now) (cs_replacements s))"
    by (rule grows_map) (auto simp: record_evolves_defs expire_replacement_def invalidate_replacement_def)
  ultimately show ?thesis by (simp add: evolves_def clean_credentials_def)
qed

section \<open>Operations evolve the state\<close>

lemma add_offer_evolves: "add_offer oid dig secs clk s = (Inr x, t) \<Longrightarrow> evolves s t"
  by (auto simp: add_offer_def mutation_simps intro!: evolves_offers grows_append)

lemma set_offer_requests [simp]: "cs_requests (set_offer p st s) = cs_requests s"
  by (simp add: set_offer_def)

lemma add_request_ok:
  assumes "add_request tmpl dig clk s = (Inr x, t)"
  obtains now o1 r where "timestamp clk = Inr now" "find_offer s dig = Some o1" "offer_state o1 = Offered"
    "now < offer_expires o1" "r = tmpl\<lparr>req_offer := offer_id o1, req_expires := offer_expires o1\<rparr>"
    "t = (set_offer (\<lambda>o1. offer_digest o1 = dig) OfferPending s)\<lparr>cs_requests := cs_requests s @ [r]\<rparr>"
    "request_from_record r = Inr x"
  using assms unfolding add_request_def Let_def
  by (cases "find_offer s dig") (auto simp: mutation_simps split: if_splits)

lemma add_request_evolves: "add_request r dig clk s = (Inr x, t) \<Longrightarrow> evolves s t"
  by (erule add_request_ok)
    (auto simp: find_offer_def intro!: evolves_requests grows_append intro: set_offer_evolves)

lemma decidable_request_ok:
  "decidable_request rid now s = (Inr r, t) \<longleftrightarrow>
     t = s \<and> find_request s rid = Some r \<and> req_state r = RequestPending \<and> now < req_expires r"
  by (auto simp: decidable_request_def mutation_simps split: option.splits if_splits)

lemma approve_evolves: "approve rid sc rooms ms ps cps clk s = (Inr x, t) \<Longrightarrow> evolves s t"
  unfolding approve_def Let_def
  by (auto simp: mutation_simps decidable_request_ok record_evolves_defs intro!: set_request_evolves evolves_refl)

lemma reject_evolves: "reject rid why clk s = (Inr x, t) \<Longrightarrow> evolves s t"
  unfolding reject_def Let_def
  by (auto simp: mutation_simps decidable_request_ok record_evolves_defs intro!: set_request_evolves evolves_refl)

lemma consumable_ok:
  assumes "consumable rid dig storage shared now s = (Inr r, t)"
  obtains o1 where "t = s" "find_request s rid = Some r" "req_state r = RequestApproved" "now < req_expires r"
    "find (\<lambda>o1. offer_id o1 = req_offer r) (cs_offers s) = Some o1" "offer_digest o1 = dig"
    "offer_state o1 = OfferPending" "storage = PStr (req_storage r)"
proof (cases "find_request s rid")
  case None
  with assms show ?thesis by (simp add: consumable_def mutation_simps)
next
  case (Some r')
  show ?thesis
    using assms Some that
    by (cases "find (\<lambda>o1. offer_id o1 = req_offer r') (cs_offers s)"; cases "req_state r'")
      (auto simp: consumable_def mutation_simps split: if_splits)
qed

lemma enroll_device_ok:
  assumes "enroll_device eid now fresh s = (Inr (did, gen, event, i), t)"
  obtains (new) "filter (\<lambda>c. cred_endpoint c = eid) (cs_credentials s) = []" "did = fresh 0" "gen = 1" "t = s"
      "bounded_text_128 did"
  | (known) first others top where "filter (\<lambda>c. cred_endpoint c = eid) (cs_credentials s) = first # others"
      "did = cred_device first" "max_generation (first # others) = Inr top" "gen = top + 1"
      "t = revoke_replacements did (s\<lparr>cs_credentials := map (supersede now eid) (cs_credentials s)\<rparr>)"
      "bounded_text_128 did"
  using assms unfolding enroll_device_def
  by (cases "filter (\<lambda>c. cred_endpoint c = eid) (cs_credentials s)")
    (auto simp: mutation_simps split: if_splits)

lemma supersede_evolves: "evolves s (s\<lparr>cs_credentials := map (supersede now eid) (cs_credentials s)\<rparr>)"
  by (rule evolves_credentials [OF evolves_refl], rule grows_map) (auto simp: record_evolves_defs supersede_def)

lemma enroll_device_evolves: "enroll_device eid now fresh s = (Inr (did, gen, event, i), t) \<Longrightarrow> evolves s t"
  by (erule enroll_device_ok) (auto intro: revoke_replacements_evolves supersede_evolves)

lemma issue_grants_evolves:
  "issue_grants shared live did lbl ty now fresh i ps s = (Inr gs, t) \<Longrightarrow> evolves s t"
proof (induction ps arbitrary: i s gs t)
  case Nil
  then show ?case by (simp add: mutation_simps)
next
  case (Cons p ps)
  then obtain g gs' where
    "issue_grants shared live did lbl ty now fresh (Suc i) ps (s\<lparr>cs_grants := cs_grants s @ [g]\<rparr>) = (Inr gs', t)"
    by (auto simp: mutation_simps Let_def)
  from Cons.IH [OF this] show ?case
    by (rule evolves_trans [rotated]) (auto intro!: evolves_grants grows_append)
qed

lemma issue_client_grants_evolves:
  "issue_client_grants did r shared now fresh i s = (Inr gs, t) \<Longrightarrow> evolves s t"
  unfolding issue_client_grants_def
  by (auto simp: mutation_simps dest!: expire_pending_grants_evolves issue_grants_evolves
      dest: end_device_grants_evolves intro: evolves_trans)

text \<open>Requests and offers are not touched by the steps between the tests and the last two writes.\<close>

lemma issue_grants_frame:
  "issue_grants shared live did lbl ty now fresh i ps s = (Inr gs, t) \<Longrightarrow>
     cs_requests t = cs_requests s \<and> cs_offers t = cs_offers s \<and> cs_credentials t = cs_credentials s
     \<and> cs_replacements t = cs_replacements s"
proof (induction ps arbitrary: i s gs t)
  case Nil
  then show ?case by (simp add: mutation_simps)
next
  case (Cons p ps)
  then obtain g gs' where
    "issue_grants shared live did lbl ty now fresh (Suc i) ps (s\<lparr>cs_grants := cs_grants s @ [g]\<rparr>) = (Inr gs', t)"
    by (auto simp: mutation_simps Let_def)
  from Cons.IH [OF this] show ?case by simp
qed

lemma issue_client_grants_frame:
  "issue_client_grants did r shared now fresh i s = (Inr gs, t) \<Longrightarrow>
     cs_requests t = cs_requests s \<and> cs_offers t = cs_offers s \<and> cs_credentials t = cs_credentials s
     \<and> cs_replacements t = cs_replacements s"
  unfolding issue_client_grants_def
  by (auto simp: mutation_simps end_device_grants_def dest!: issue_grants_frame elim!: expire_pending_grants_ok)

lemma enroll_device_frame:
  "enroll_device eid now fresh s = (Inr (did, gen, event, i), t) \<Longrightarrow>
     cs_requests t = cs_requests s \<and> cs_offers t = cs_offers s \<and> cs_grants t = cs_grants s"
  by (erule enroll_device_ok) (auto simp: revoke_replacements_def)

definition issued_credential :: "protector \<Rightarrow> enrollment \<Rightarrow> string \<Rightarrow> int \<Rightarrow> rat \<Rightarrow> string \<Rightarrow> cred_scope \<Rightarrow> credential" where
  "issued_credential P r did gen now token sc =
     \<lparr>cred_device = did, cred_endpoint = req_endpoint r, cred_generation = gen,
      cred_state = Active, cred_issued = now, cred_expires = now + CREDENTIAL_TTL_SECONDS,
      cred_digest = digest P token, cred_scope_of = sc, cred_label = Some (req_label r),
      cred_type = Some (req_type r), cred_overlap = None, cred_revoked_at = None,
      cred_revocation = None\<rparr>"

lemma consume_ok:
  assumes "consume P rid dig storage shared token fresh clk s = (Inr (mat, event), t)"
  obtains now r s1 i sc s2 where "timestamp clk = Inr now"
    "consumable rid dig storage shared now s = (Inr r, s)" "token \<noteq> []"
    "enroll_device (req_endpoint r) now fresh s = (Inr (mat_device mat, mat_generation mat, event, i), s1)"
    "approved_scope (req_approved r) = Inr sc" "mat_scope mat = sc" "mat_credential mat = token"
    "mat_expires mat = now + CREDENTIAL_TTL_SECONDS"
    "issue_client_grants (mat_device mat) r shared now fresh i
       (s1\<lparr>cs_credentials := cs_credentials s1 @
         [issued_credential P r (mat_device mat) (mat_generation mat) now token sc]\<rparr>) = (Inr (mat_grants mat), s2)"
    "t = set_offer (\<lambda>o1. offer_id o1 = req_offer r) OfferConsumed
       (set_request rid (\<lambda>r. r\<lparr>req_state := RequestConsumed\<rparr>) s2)"
proof -
  from assms obtain now r s0 where "timestamp clk = Inr now"
    and c: "consumable rid dig storage shared now s = (Inr r, s0)"
    by (auto simp: consume_def mutation_simps)
  moreover have "s0 = s" using c by (rule consumable_ok)
  ultimately show ?thesis
    using assms that by (fastforce simp: consume_def mutation_simps result_simps issued_credential_def)
qed

lemma consume_evolves:
  assumes "consume P rid dig storage shared token fresh clk s = (Inr (mat, event), t)"
  shows "evolves s t"
proof -
  from assms obtain now r s1 i sc s2 where
    con: "consumable rid dig storage shared now s = (Inr r, s)"
    and enr: "enroll_device (req_endpoint r) now fresh s = (Inr (mat_device mat, mat_generation mat, event, i), s1)"
    and iss: "issue_client_grants (mat_device mat) r shared now fresh i
       (s1\<lparr>cs_credentials := cs_credentials s1 @
         [issued_credential P r (mat_device mat) (mat_generation mat) now token sc]\<rparr>) = (Inr (mat_grants mat), s2)"
    and t: "t = set_offer (\<lambda>o1. offer_id o1 = req_offer r) OfferConsumed
       (set_request rid (\<lambda>r. r\<lparr>req_state := RequestConsumed\<rparr>) s2)"
    by (rule consume_ok)
  from con obtain o1 where r: "find_request s rid = Some r" "req_state r = RequestApproved"
    and o1: "find (\<lambda>o1. offer_id o1 = req_offer r) (cs_offers s) = Some o1" "offer_state o1 = OfferPending"
    by (rule consumable_ok)
  have "evolves s s2"
    by (rule evolves_trans [OF evolves_credentials [OF enroll_device_evolves [OF enr]]
          issue_client_grants_evolves [OF iss]]) (simp add: grows_append)
  moreover have frame: "cs_requests s2 = cs_requests s" "cs_offers s2 = cs_offers s"
    using issue_client_grants_frame [OF iss] enroll_device_frame [OF enr] by auto
  ultimately have "evolves s (set_request rid (\<lambda>r. r\<lparr>req_state := RequestConsumed\<rparr>) s2)"
    using r by (intro set_request_evolves) (auto simp: find_request_def record_evolves_defs)
  then show ?thesis
    unfolding t using o1 frame by (elim set_offer_evolves) (auto simp: set_request_def)
qed

section \<open>Renewal, rotation and revocation\<close>

lemma replay_replacement_ok:
  "replay_replacement P did gen rid now existing s = (Inr mat, t) \<Longrightarrow>
     t = s \<and> repl_state existing = ReplacementActive \<and> now < repl_overlap existing
     \<and> (\<exists>token sc. decrypt_replacement P existing = Inr token \<and> reread_scope (repl_scope existing) = Inr sc
        \<and> mat = \<lparr>mat_device = did, mat_credential = token, mat_generation = repl_new_generation existing,
             mat_expires = repl_new_expires existing, mat_scope = sc, mat_grants = []\<rparr>)"
  by (auto simp: replay_replacement_def mutation_simps split: if_splits)

definition sealed_replacement :: "protector \<Rightarrow> string \<Rightarrow> int \<Rightarrow> string \<Rightarrow> rat \<Rightarrow> string \<Rightarrow> string \<Rightarrow> cred_scope \<Rightarrow> replacement" where
  "sealed_replacement P did gen rid now token nonce sc =
     (let sealed = encrypt_replacement P nonce token did gen rid
      in \<lparr>repl_device = did, repl_generation = gen, repl_new_generation = gen + 1,
          repl_request = rid, repl_state = ReplacementActive, repl_overlap = now + ROTATION_OVERLAP_SECONDS,
          repl_new_expires = now + CREDENTIAL_TTL_SECONDS, repl_scope = sc, repl_nonce = fst sealed,
          repl_ciphertext = snd sealed\<rparr>)"

definition successor_credential :: "protector \<Rightarrow> credential \<Rightarrow> string \<Rightarrow> int \<Rightarrow> rat \<Rightarrow> string \<Rightarrow> cred_scope \<Rightarrow> credential" where
  "successor_credential P current did gen now token sc =
     \<lparr>cred_device = did, cred_endpoint = cred_endpoint current, cred_generation = gen + 1,
      cred_state = Active, cred_issued = now, cred_expires = now + CREDENTIAL_TTL_SECONDS,
      cred_digest = digest P token, cred_scope_of = sc, cred_label = cred_label current,
      cred_type = cred_type current, cred_overlap = None, cred_revoked_at = None,
      cred_revocation = None\<rparr>"

lemma issue_replacement_ok:
  assumes "issue_replacement P did gen rid now token nonce current s = (Inr mat, t)"
  obtains sc where "token \<noteq> []" "reread_scope (cred_scope_of current) = Inr sc"
    "t = (let s1 = set_credential did gen (\<lambda>c. c\<lparr>cred_state := Replaced,
             cred_overlap := Some (now + ROTATION_OVERLAP_SECONDS)\<rparr>) s
          in s1\<lparr>cs_credentials := cs_credentials s1 @ [successor_credential P current did gen now token sc],
                cs_replacements := cs_replacements s @ [sealed_replacement P did gen rid now token nonce sc]\<rparr>)"
    "mat = \<lparr>mat_device = did, mat_credential = token, mat_generation = gen + 1,
       mat_expires = now + CREDENTIAL_TTL_SECONDS, mat_scope = sc, mat_grants = []\<rparr>"
proof -
  obtain n c where e: "encrypt_replacement P nonce token did gen rid = (n, c)" by fastforce
  from assms that show ?thesis
    by (auto simp: issue_replacement_def mutation_simps result_simps e successor_credential_def
        sealed_replacement_def set_credential_def Let_def)
qed

lemma replace_ok:
  assumes "replace P did gen rid renewal token nonce clk s = (Inr mat, t)"
  obtains (replayed) now existing where "timestamp clk = Inr now" "find_replacement s did gen rid = Some existing"
      "replay_replacement P did gen rid now existing s = (Inr mat, t)"
  | (issued) now current where "timestamp clk = Inr now" "find_credential s did gen = Some current"
      "\<not> list_ex (\<lambda>r. repl_device r = did \<and> repl_request r = rid) (cs_replacements s)"
      "\<not> list_ex (\<lambda>r. repl_device r = did \<and> repl_generation r = gen) (cs_replacements s)"
      "cred_state current = Active" "now < cred_expires current"
      "issue_replacement P did gen rid now token nonce current s = (Inr mat, t)"
  using assms unfolding replace_def
  by (cases "find_credential s did gen"; cases "find_replacement s did gen rid")
    (auto simp: mutation_simps not_le split: if_splits)

lemma issue_replacement_evolves:
  assumes "issue_replacement P did gen rid now token nonce current s = (Inr mat, t)"
    and "find_credential s did gen = Some current" and "cred_state current = Active"
  shows "evolves s t"
  using assms(1)
proof (rule issue_replacement_ok)
  fix sc
  let ?s1 = "set_credential did gen (\<lambda>c. c\<lparr>cred_state := Replaced,
             cred_overlap := Some (now + ROTATION_OVERLAP_SECONDS)\<rparr>) s"
  assume t: "t = (let s1 = ?s1
          in s1\<lparr>cs_credentials := cs_credentials s1 @ [successor_credential P current did gen now token sc],
                cs_replacements := cs_replacements s @ [sealed_replacement P did gen rid now token nonce sc]\<rparr>)"
  have "evolves s ?s1"
    using assms(2,3) by (intro set_credential_evolves [OF evolves_refl]) (auto simp: record_evolves_defs)
  then show "evolves s t"
    unfolding t Let_def
    by (intro evolves_replacements evolves_credentials grows_append) (auto simp: set_credential_def)
qed

lemma replace_evolves: "replace P did gen rid renewal token nonce clk s = (Inr mat, t) \<Longrightarrow> evolves s t"
  by (erule replace_ok) (auto dest: replay_replacement_ok intro: issue_replacement_evolves)

lemma find_device_ok:
  "find_device dig allow clean clk s = (Inr (found, cleanup), t) \<Longrightarrow>
     \<exists>now. timestamp clk = Inr now \<and> scan_credentials dig allow now (cs_credentials s) = Inr found
       \<and> t = (if clean then clean_credentials now s else s)"
  by (auto simp: find_device_def mutation_simps Let_def)

lemma authenticate_device_evolves:
  "authenticate_device P v allow clk1 clk2 s = (Inr found, t) \<Longrightarrow> evolves s t"
  by (cases "(P, v, allow, clk1, clk2)" rule: authenticate_device.cases)
    (auto simp: mutation_simps split: if_splits sum.splits prod.splits dest!: find_device_ok
      intro: clean_credentials_evolves)

definition revokes :: "string \<Rightarrow> credential \<Rightarrow> credential \<Rightarrow> bool" where
  "revokes did c c' \<longleftrightarrow> (if cred_device c = did
     then \<exists>tm r. c' = c\<lparr>cred_state := Revoked, cred_revoked_at := tm, cred_revocation := r\<rparr> else c' = c)"

lemma revokes_intros:
  "cred_device c = did \<Longrightarrow> revokes did c (c\<lparr>cred_state := Revoked, cred_revoked_at := tm, cred_revocation := r\<rparr>)"
  "cred_device c \<noteq> did \<Longrightarrow> revokes did c c"
  by (auto simp: revokes_def)

lemma revokes_evolves: "revokes did c c' \<Longrightarrow> credential_evolves c c'"
  by (auto simp: revokes_def record_evolves_defs split: if_splits)

lemma revoke_credentials_ok:
  "revoke_credentials did why clk i cs = Inr (cs', n) \<Longrightarrow> list_all2 (revokes did) cs cs'"
proof (induction cs arbitrary: i cs' n)
  case Nil
  then show ?case by simp
next
  case (Cons c cs)
  then show ?case
    by (cases "cred_device c = did") (auto simp: result_simps intro: revokes_intros)
qed

lemma mark_revoked_ok:
  assumes "mark_revoked did why clk s = (Inr event, t)"
  obtains cs now where "list_all2 (revokes did) (cs_credentials s) cs"
    "t = end_device_grants did now (revoke_replacements did (s\<lparr>cs_credentials := cs\<rparr>))"
    "rev_device event = did"
  using assms unfolding mark_revoked_def
  by (auto simp: mutation_simps Let_def split: if_splits prod.splits dest!: revoke_credentials_ok)

lemma mark_revoked_evolves: "mark_revoked did why clk s = (Inr event, t) \<Longrightarrow> evolves s t"
  by (erule mark_revoked_ok)
    (auto intro!: end_device_grants_evolves revoke_replacements_evolves evolves_credentials grows_same_length
      elim!: list_all2_mono intro: revokes_evolves)

section \<open>Client grants\<close>

lemma remember_ok:
  "remember did key profile boot g s = (Inr cg, t) \<longleftrightarrow> grant_from_record g = Inr cg \<and>
     t = s\<lparr>cs_grant_requests := cs_grant_requests s @ [\<lparr>gr_device = did, gr_key = key, gr_profile = profile,
       gr_bootstrap = boot, gr_grant = grant_id g\<rparr>]\<rparr>"
  by (auto simp: remember_def mutation_simps)

lemma replay_grant_ok:
  "replay_grant profile boot req s = (Inr cg, t) \<Longrightarrow> t = s \<and> gr_profile req = profile \<and> gr_bootstrap req = boot
     \<and> (\<exists>g. find (\<lambda>g. grant_id g = gr_grant req) (cs_grants s) = Some g \<and> grant_from_record g = Inr cg)"
  by (cases "find (\<lambda>g. grant_id g = gr_grant req) (cs_grants s)")
    (auto simp: replay_grant_def mutation_simps split: if_splits)

definition added_grant :: "string \<Rightarrow> string \<Rightarrow> string \<Rightarrow> string \<Rightarrow> string \<Rightarrow> rat \<Rightarrow> bool \<Rightarrow> bool \<Rightarrow> grant" where
  "added_grant gid did profile lbl ty now shared boot =
     \<lparr>grant_id = gid, grant_device = did, grant_profile = profile,
      grant_state = (if shared \<or> boot then GrantActive else PendingOwner),
      grant_label = lbl, grant_type = ty, grant_created = now, grant_bootstrap = boot,
      grant_pending_until = (if shared \<or> boot then None else Some (now + PENDING_OWNER_GRANT_TTL_SECONDS)),
      grant_decided_at = (if boot then Some now else None),
      grant_decided_by = (if boot then Some ''home_admin'' else None)\<rparr>"

lemma new_grant_ok:
  assumes "new_grant device did key profile available labels shared authorize live now new_id s = (Inr cg, t)"
  obtains lbl ty boot where "profile \<in> set available"
    "length (filter (is_own_current did) (cs_grants s)) < MAX_CLIENT_GRANTS"
    "boot \<longleftrightarrow> profile \<notin> set shared \<and> \<not> held_elsewhere s live did profile \<and> authorize"
    "remember did key profile authorize
       (added_grant (''grant-'' @ new_id) did profile lbl ty now (profile \<in> set shared) boot)
       (s\<lparr>cs_grants := cs_grants s @
         [added_grant (''grant-'' @ new_id) did profile lbl ty now (profile \<in> set shared) boot]\<rparr>) = (Inr cg, t)"
proof -
  let ?boot = "profile \<notin> set shared \<and> \<not> held_elsewhere s live did profile \<and> authorize"
  from assms obtain dlbl ty where a: "profile \<in> set available"
    and b: "length (filter (is_own_current did) (cs_grants s)) < MAX_CLIENT_GRANTS"
    and c: "remember did key profile authorize
       (added_grant (''grant-'' @ new_id) did profile dlbl ty now (profile \<in> set shared) ?boot)
       (s\<lparr>cs_grants := cs_grants s @
         [added_grant (''grant-'' @ new_id) did profile dlbl ty now (profile \<in> set shared) ?boot]\<rparr>) = (Inr cg, t)"
    unfolding new_grant_def Let_def added_grant_def
    by (auto simp: mutation_simps result_simps split: if_splits)
  show ?thesis by (rule that [OF a b refl c])
qed

lemma append_grant_ok:
  assumes "append_grant did profile key available labels shared authorize new_id clk s = (Inr cg, t)"
  obtains (replayed) now s1 req where "timestamp clk = Inr now" "expire_pending_grants now s = (Inr (), s1)"
      "find (\<lambda>q. gr_device q = did \<and> gr_key q = key) (cs_grant_requests s1) = Some req"
      "replay_grant profile authorize req s1 = (Inr cg, t)"
  | (held) now s1 g where "timestamp clk = Inr now" "expire_pending_grants now s = (Inr (), s1)"
      "find (\<lambda>g. grant_profile g = profile) (filter (is_own_current did) (cs_grants s1)) = Some g"
      "remember did key profile authorize g s1 = (Inr cg, t)"
  | (added) now s1 device where "timestamp clk = Inr now" "expire_pending_grants now s = (Inr (), s1)"
      "find (\<lambda>g. grant_profile g = profile) (filter (is_own_current did) (cs_grants s1)) = None"
      "client_device_of did now s = Inr device"
      "new_grant device did key profile available labels shared authorize (live_device_ids s now) now new_id s1
        = (Inr cg, t)"
proof -
  from assms obtain now s1 device where base: "timestamp clk = Inr now"
    "expire_pending_grants now s = (Inr (), s1)" "client_device_of did now s = Inr device"
    by (auto simp: append_grant_def mutation_simps)
  then show ?thesis
    using assms that
    by (cases "find (\<lambda>q. gr_device q = did \<and> gr_key q = key) (cs_grant_requests s1)";
        cases "find (\<lambda>g. grant_profile g = profile) (filter (is_own_current did) (cs_grants s1))")
      (auto simp: append_grant_def mutation_simps)
qed

lemma append_grant_evolves:
  assumes "append_grant did profile key available labels shared authorize new_id clk s = (Inr cg, t)"
  shows "evolves s t"
  using assms
proof (cases rule: append_grant_ok)
  case (replayed now s1 req)
  then show ?thesis using expire_pending_grants_evolves replay_grant_ok by blast
next
  case (held now s1 g)
  then show ?thesis
    using expire_pending_grants_evolves by (auto simp: remember_ok intro!: evolves_grant_requests grows_append)
next
  case (added now s1 device)
  from added(2) have "evolves s s1" by (rule expire_pending_grants_evolves)
  with added(5) show ?thesis
    by (auto simp: remember_ok intro!: evolves_grant_requests evolves_grants grows_append elim!: new_grant_ok)
qed

lemma decide_grant_ok:
  assumes "decide_grant approver gid approved clk s = (Inr cg, t)"
  obtains now s1 g where "timestamp clk = Inr now" "expire_pending_grants now s = (Inr (), s1)"
    "find (\<lambda>g. grant_id g = gid) (cs_grants s1) = Some g" "grant_state g = PendingOwner"
    "grant_device g \<noteq> approver" "holds_profile s1 approver (grant_profile g)"
    "t = set_grant gid (\<lambda>g. g\<lparr>grant_state := (if approved then GrantActive else GrantRejected),
       grant_decided_at := Some now, grant_decided_by := Some approver\<rparr>) s1"
    "\<not> list_ex (\<lambda>c. cred_device c = approver \<and> cred_type c = Some ''browser'' \<and> cred_state c = Active)
       (cs_credentials s)"
proof -
  from assms obtain now s1 where base: "timestamp clk = Inr now" "expire_pending_grants now s = (Inr (), s1)"
    by (auto simp: decide_grant_def mutation_simps split: if_splits)
  then show ?thesis
    using assms that
    by (cases "find (\<lambda>g. grant_id g = gid) (cs_grants s1)")
      (auto simp: decide_grant_def mutation_simps Let_def split: if_splits)
qed

lemma decide_grant_evolves:
  assumes "decide_grant approver gid approved clk s = (Inr cg, t)"
  shows "evolves s t"
  using assms
proof (rule decide_grant_ok)
  fix now s1 g
  assume "expire_pending_grants now s = (Inr (), s1)" and
    "find (\<lambda>g. grant_id g = gid) (cs_grants s1) = Some g" "grant_state g = PendingOwner"
    and t: "t = set_grant gid (\<lambda>g. g\<lparr>grant_state := (if approved then GrantActive else GrantRejected),
       grant_decided_at := Some now, grant_decided_by := Some approver\<rparr>) s1"
  then show "evolves s t"
    unfolding t by (intro set_grant_evolves [OF expire_pending_grants_evolves]) (auto simp: record_evolves_defs)
qed

lemma revoke_grant_ok:
  assumes "revoke_grant gid requester shared clk s = (Inr cg, t)"
  obtains now s1 g where "timestamp clk = Inr now" "expire_pending_grants now s = (Inr (), s1)"
    "find (\<lambda>g. grant_id g = gid) (cs_grants s1) = Some g"
    "grant_state g \<in> {GrantActive, PendingOwner, GrantRevoked}"
    "requester = None \<or> holds_profile s1 (the requester) (grant_profile g)
       \<and> (grant_profile g \<in> set shared \<longrightarrow> grant_device g = the requester)"
    "t = set_grant gid (\<lambda>g. if grant_state g \<noteq> GrantRevoked
       then g\<lparr>grant_state := GrantRevoked, grant_decided_at := Some now\<rparr> else g) s1"
proof -
  from assms obtain now s1 where base: "timestamp clk = Inr now" "expire_pending_grants now s = (Inr (), s1)"
    by (auto simp: revoke_grant_def mutation_simps)
  then show ?thesis
    using assms that
    by (cases "find (\<lambda>g. grant_id g = gid) (cs_grants s1)"; cases requester)
      (auto simp: revoke_grant_def mutation_simps result_simps Let_def split: if_splits)
qed

lemma revoke_grant_evolves:
  assumes "revoke_grant gid requester shared clk s = (Inr cg, t)"
  shows "evolves s t"
  using assms
proof (rule revoke_grant_ok)
  fix now s1 g
  assume "expire_pending_grants now s = (Inr (), s1)" and
    "find (\<lambda>g. grant_id g = gid) (cs_grants s1) = Some g"
    "grant_state g \<in> {GrantActive, PendingOwner, GrantRevoked}"
    and t: "t = set_grant gid (\<lambda>g. if grant_state g \<noteq> GrantRevoked
       then g\<lparr>grant_state := GrantRevoked, grant_decided_at := Some now\<rparr> else g) s1"
  then show "evolves s t"
    unfolding t by (intro set_grant_evolves [OF expire_pending_grants_evolves]) (auto simp: record_evolves_defs)
qed

lemma project_ok:
  assumes "project did revision clk s = (Inr (number, gs), t)"
  obtains now all where "timestamp clk = Inr now" "current_grants s now = Inr all"
    "gs = filter (\<lambda>g. cg_device g = did) all"
    "map_of (cs_projections t) did = Some (projection_fingerprint revision gs, number)"
    "t = s \<or> t = s\<lparr>cs_projections := AList.update did (projection_fingerprint revision gs, number) (cs_projections s)\<rparr>
       \<and> (\<forall>fp n. map_of (cs_projections s) did = Some (fp, n) \<longrightarrow> n < number)"
  using assms that
  by (cases "map_of (cs_projections s) did")
    (auto simp: project_def mutation_simps Let_def update_conv' less_max_iff_disj split: if_splits)

lemma project_evolves:
  assumes "project did revision clk s = (Inr (number, gs), t)"
  shows "evolves s t"
proof -
  from assms have "t = s \<or> t = s\<lparr>cs_projections := AList.update did (projection_fingerprint revision gs, number) (cs_projections s)\<rparr>
       \<and> (\<forall>fp n. map_of (cs_projections s) did = Some (fp, n) \<longrightarrow> n < number)"
    by (rule project_ok)
  then show ?thesis
    by (auto intro!: evolves_projections simp: projections_evolve_def update_conv')
qed

section \<open>Every operation\<close>

datatype cred_op =
    CreateOffer pyval bool string string string pyval
  | SubmitRequest pyval pyval pyval pyval pyval pyval pyval pyval string string pyval
  | Authenticate pyval bool pyval pyval
  | ListRequests pyval
  | ApproveRequest pyval cred_scope pyval pyval pyval pyval pyval
  | RejectRequest pyval pyval pyval
  | ConsumeRequest pyval pyval pyval "pyval option" string "nat \<Rightarrow> string" pyval
  | Renew pyval pyval pyval pyval string string "nat \<Rightarrow> pyval"
  | Rotate pyval pyval pyval string string pyval
  | Revoke pyval pyval "nat \<Rightarrow> pyval"
  | AddClientGrant pyval pyval pyval pyval "(string \<times> string) list option" pyval pyval string pyval
  | DecideOwnerGrant pyval pyval pyval pyval
  | RevokeClientGrant pyval "pyval option" pyval pyval
  | ClientConfiguration string int pyval

fun cred_exec :: "protector \<Rightarrow> cred_data \<Rightarrow> cred_op \<Rightarrow> cred_data" where
  "cred_exec P s (CreateOffer e sh i tok c clk) = snd (create_offer P e sh i tok c clk s)"
| "cred_exec P s (SubmitRequest c e l ty rs cs ms st i cf clk) = snd (submit_request P c e l ty rs cs ms st i cf clk s)"
| "cred_exec P s (Authenticate v allow clk1 clk2) = snd (authenticate_device P v allow clk1 clk2 s)"
| "cred_exec P s (ListRequests clk) = snd (list_requests clk s)"
| "cred_exec P s (ApproveRequest r sc rs ms ps cps clk) = snd (approve_request r sc rs ms ps cps clk s)"
| "cred_exec P s (RejectRequest r why clk) = snd (reject_request r why clk s)"
| "cred_exec P s (ConsumeRequest r c st sh tok fresh clk) = snd (consume_request P r c st sh tok fresh clk s)"
| "cred_exec P s (Renew d c r g tok nonce clk) = snd (renew P d c r g tok nonce clk s)"
| "cred_exec P s (Rotate d r g tok nonce clk) = snd (rotate_credential P d r g tok nonce clk s)"
| "cred_exec P s (Revoke d why clk) = snd (revoke d why clk s)"
| "cred_exec P s (AddClientGrant d p k cp ls sh a i clk) = snd (add_client_grant d p k cp ls sh a i clk s)"
| "cred_exec P s (DecideOwnerGrant a g b clk) = snd (decide_owner_grant a g b clk s)"
| "cred_exec P s (RevokeClientGrant g r sh clk) = snd (revoke_client_grant g r sh clk s)"
| "cred_exec P s (ClientConfiguration d n clk) = snd (client_configuration d n clk s)"

lemma evolves_preorder: "reflp evolves" "transp evolves"
  by (auto simp: reflp_def transp_def intro: evolves_trans)

text \<open>The shape every operation has: checks, then one transaction (two for a renewal).\<close>

lemma authenticate_device_steps:
  assumes "reflp R" and "\<And>now s. R s (clean_credentials now s)"
  shows "stepsM R (authenticate_device P v allow clk1 clk2)"
  unfolding stepsM_def
proof
  fix s
  have "R s t" if "authenticate_device P v allow clk1 clk2 s = (r, t)" for r t
    using that assms(2) reflpD [OF assms(1)]
    by (cases "(P, v, allow, clk1, clk2)" rule: authenticate_device.cases)
      (auto simp: mutation_simps memory_mutate_def split: if_splits sum.splits prod.splits dest!: find_device_ok)
  then show "R s (snd (authenticate_device P v allow clk1 clk2 s))"
    by (metis prod.collapse)
qed

lemma bounded_values_idem:
  assumes "bounded_values v fld = Inr xs"
  shows "bounded_strings xs fld' = Inr xs" and "distinct xs"
proof -
  from assms obtain ys where v: "v = PList ys" and ok: "\<not> list_ex (\<lambda>i. i = None) (map bounded_item ys)"
    and xs: "xs = map the (map bounded_item ys)" and d: "distinct xs"
    by (cases v) (auto simp: bounded_values.simps Let_def split: if_splits)
  have "bounded_item y = Some z \<Longrightarrow> bounded_text_128 z" for y z
    by (cases y) (auto split: if_splits)
  then have "bounded_text_128 x" if "x \<in> set xs" for x
    using that ok by (auto simp: xs list_ex_iff image_iff)
  then have items: "map bounded_item (map PStr xs) = map Some xs" by simp
  show "bounded_strings xs fld' = Inr xs"
    unfolding bounded_values.simps items using d by (simp add: Let_def list_ex_iff comp_def)
  show "distinct xs" by (rule d)
qed

type_synonym enrollment_result = "(credential_material \<times> revocation_event option) cred_result"

fun enroll_ok :: "protector \<Rightarrow> (cred_data \<Rightarrow> (nat \<Rightarrow> string) \<Rightarrow> enrollment_result \<Rightarrow> bool) \<Rightarrow> cred_data \<Rightarrow> cred_op \<Rightarrow> bool" where
  "enroll_ok P allow s (ConsumeRequest r c st sh tok fresh clk) =
     allow s fresh (fst (consume_request P r c st sh tok fresh clk s))"
| "enroll_ok P allow s p = True"

lemma positive_integer_ok: "positive_integer v fld = Inr n \<Longrightarrow> 1 \<le> n"
  by (cases v) (auto split: if_splits)

text \<open>
  A preorder on states that the cleaning of an authentication and the committed
  transactions respect is respected by the operations. First those that neither enroll a
  Device nor grant a Profile.
\<close>

fun is_quiet :: "cred_op \<Rightarrow> bool" where
  "is_quiet (ConsumeRequest r c st sh tok fresh clk) = False"
| "is_quiet (AddClientGrant d p k cp ls sh a i clk) = False"
| "is_quiet (DecideOwnerGrant a g b clk) = False"
| "is_quiet p = True"

locale quiet_preorder =
  fixes P :: protector and R :: "cred_data \<Rightarrow> cred_data \<Rightarrow> bool"
  assumes R_refl: "reflp R" and R_trans: "transp R"
    and R_clean: "R s (clean_credentials now s)"
    and R_add_offer: "add_offer oid dig secs clk s = (Inr x, t) \<Longrightarrow> R s t"
    and R_add_request: "request_template endpoint lbl ty rooms caps maps storage new_id conf = Inr tmpl \<Longrightarrow>
      add_request tmpl dig clk s = (Inr req, t) \<Longrightarrow> R s t"
    and R_expire: "R s (expire_enrollment_state now s)"
    and R_approve: "length cps \<le> MAX_CLIENT_GRANTS \<Longrightarrow> distinct cps \<Longrightarrow>
      approve rid sc rs ms ps cps clk s = (Inr req, t) \<Longrightarrow> R s t"
    and R_reject: "reject rid why clk s = (Inr req, t) \<Longrightarrow> R s t"
    and R_replace: "1 \<le> gen \<Longrightarrow> replace P did gen rid renewal token nonce clk s = (Inr mat, t) \<Longrightarrow> R s t"
    and R_revoked: "mark_revoked did why clks s = (Inr event, t) \<Longrightarrow> R s t"
    and R_revoke_grant: "revoke_grant gid who shared clk s = (Inr cg, t) \<Longrightarrow> R s t"
    and R_project: "project did revision clk s = (Inr (number, gs), t) \<Longrightarrow> R s t"
begin

lemmas steps = stepsM_check [OF R_refl] stepsM_liftM [OF R_refl] stepsM_memory [OF R_refl]

lemma offer_steps: "stepsM R (create_offer P e sh i tok c clk)"
  unfolding create_offer_def Let_def
  by (intro steps stepsM_bindM [OF R_trans]) (rule R_add_offer)

lemma submit_steps: "stepsM R (submit_request P c e l ty rs cs ms st i cf clk)"
  unfolding submit_request_def by (intro steps) (rule R_add_request)

lemma list_steps: "stepsM R (list_requests clk)"
  unfolding list_requests_def by (intro steps) (auto simp: mutation_simps R_expire)

lemma approve_steps: "stepsM R (approve_request r sc rs ms ps cps clk)"
  unfolding approve_request_def
  by (intro steps) (auto simp: result_simps intro: R_approve bounded_values_idem)

lemma reject_steps: "stepsM R (reject_request r why clk)"
  unfolding reject_request_def by (intro steps) (rule R_reject)

lemma replace_steps: "1 \<le> gen \<Longrightarrow> stepsM R (replace_credential P did gen rid only tok nonce clk)"
  unfolding replace_credential_def by (intro steps) (rule R_replace)

lemma renew_steps: "stepsM R (renew P d c r g tok nonce clk)"
  unfolding renew_def
  by (intro steps stepsM_bindM [OF R_trans authenticate_device_steps [OF R_refl]])
    (auto simp: R_clean intro: stepsM_liftM [OF R_refl] replace_steps positive_integer_ok split: option.splits)

lemma rotate_steps: "stepsM R (rotate_credential P d r g tok nonce clk)"
  unfolding rotate_credential_def by (intro steps replace_steps) (rule positive_integer_ok)

lemma revoke_steps: "stepsM R (revoke d why clks)"
  unfolding revoke_def by (intro steps) (rule R_revoked)

lemma revoke_grant_steps: "stepsM R (revoke_client_grant g r sh clk)"
  unfolding revoke_client_grant_def by (intro steps) (rule R_revoke_grant)

lemma project_steps: "stepsM R (client_configuration d n clk)"
  unfolding client_configuration_def by (intro steps) (auto intro: R_project)

lemma authenticate_steps: "stepsM R (authenticate_device P v replaced clk1 clk2)"
  by (rule authenticate_device_steps [OF R_refl R_clean])

lemmas quiet_steps = offer_steps submit_steps list_steps approve_steps reject_steps renew_steps rotate_steps
  revoke_steps revoke_grant_steps project_steps authenticate_steps

lemma exec_quiet: "is_quiet p \<Longrightarrow> R s (cred_exec P s p)"
  using quiet_steps [unfolded stepsM_def] by (cases p) auto

end

text \<open>
  Then every operation. \<open>allow\<close> is what is asked of the IDs drawn when a request is consumed,
  and of the outcome.
\<close>

locale cred_preorder = quiet_preorder P R
  for P :: protector and R :: "cred_data \<Rightarrow> cred_data \<Rightarrow> bool" +
  fixes allow :: "cred_data \<Rightarrow> (nat \<Rightarrow> string) \<Rightarrow> enrollment_result \<Rightarrow> bool"
  assumes R_consume: "allow s fresh (Inr (mat, ev)) \<Longrightarrow>
      consume P rid dig storage' shr token fresh clk s = (Inr (mat, ev), t) \<Longrightarrow> R s t"
    and R_append: "append_grant did profile key available labels shared authorize new_id clk s = (Inr cg, t) \<Longrightarrow> R s t"
    and R_decide: "decide_grant did gid approved clk s = (Inr cg, t) \<Longrightarrow> R s t"
begin

lemma consume_step:
  assumes "allow s fresh (fst (consume_request P r c st sh tok fresh clk s))"
  shows "R s (snd (consume_request P r c st sh tok fresh clk s))"
  using assms unfolding consume_request_def
  by (auto simp: bindM_def liftM_def memory_mutate_def reflpD [OF R_refl] split: sum.splits prod.splits
      intro: R_consume)

lemma add_grant_steps: "stepsM R (add_client_grant d p k cp ls sh a i clk)"
  unfolding add_client_grant_def by (intro steps) (rule R_append)

lemma decide_steps: "stepsM R (decide_owner_grant a g b clk)"
  unfolding decide_owner_grant_def by (intro steps) (rule R_decide)

lemma exec_step: "enroll_ok P allow s p \<Longrightarrow> R s (cred_exec P s p)"
  using consume_step add_grant_steps decide_steps quiet_steps by (cases p) (auto simp: stepsM_def)

lemma run_steps: "allowed_run (cred_exec P) (enroll_ok P allow) s ps \<Longrightarrow> R s (run_ops (cred_exec P) s ps)"
proof (induction ps arbitrary: s)
  case Nil
  then show ?case by (simp add: reflpD [OF R_refl])
next
  case (Cons p ps)
  then show ?case using exec_step by (auto intro: transpD [OF R_trans])
qed

end

interpretation evolution: cred_preorder P evolves "\<lambda>_ _ _. True" for P
proof
  show "evolves s t" if "project did revision clk s = (Inr (number, gs), t)" for did revision clk s number gs t
    using that by (rule project_evolves)
qed (auto intro: evolves_preorder clean_credentials_evolves add_offer_evolves add_request_evolves
    expire_enrollment_state_evolves approve_evolves reject_evolves consume_evolves replace_evolves
    mark_revoked_evolves append_grant_evolves decide_grant_evolves revoke_grant_evolves)

lemma always_allowed: "allowed_run exec (enroll_ok P (\<lambda>_ _ _. True)) s ps"
proof (induction ps arbitrary: s)
  case (Cons p ps)
  then show ?case by (cases p) auto
qed simp

lemma run_evolves: "evolves s (run_ops (cred_exec P) s ps)"
  by (rule evolution.run_steps [OF always_allowed])

end
