(* ===== verification/Credential_Invariants.thy ===== *)
theory Credential_Invariants
  imports Credential_Evolution
begin

text \<open>
  Invariants of the credential state, each kept by every operation: Devices and endpoints
  correspond, a Device's generations are distinct and only its newest credential can be
  active; every credential carries the scope approved for a consumed request of its
  endpoint; a Device's current grants are at most sixteen, for distinct Profiles.
\<close>

section \<open>What each transaction leaves alone\<close>

lemma add_offer_frame: "add_offer oid dig secs clk s = (Inr x, t) \<Longrightarrow>
    cs_credentials t = cs_credentials s \<and> cs_requests t = cs_requests s \<and> cs_grants t = cs_grants s"
  by (auto simp: add_offer_def mutation_simps)

lemma add_request_frame: "add_request tmpl dig clk s = (Inr x, t) \<Longrightarrow>
    cs_credentials t = cs_credentials s \<and> cs_grants t = cs_grants s"
  by (erule add_request_ok) (simp add: set_offer_def)

lemma set_request_frame [simp]: "cs_credentials (set_request rid f s) = cs_credentials s"
  "cs_grants (set_request rid f s) = cs_grants s" "cs_offers (set_request rid f s) = cs_offers s"
  by (simp_all add: set_request_def)

lemma set_offer_frame [simp]: "cs_credentials (set_offer p st s) = cs_credentials s"
  "cs_grants (set_offer p st s) = cs_grants s"
  by (simp_all add: set_offer_def)

lemma approve_ok:
  assumes "approve rid sc rooms ms ps cps clk s = (Inr x, t)"
  obtains now r where "timestamp clk = Inr now" "find_request s rid = Some r" "req_state r = RequestPending"
    "now < req_expires r" "approvable_scope r sc rooms ms ps cps = Inr ()"
    "t = set_request rid (\<lambda>r. r\<lparr>req_approved := Some sc, req_profiles := cps, req_state := RequestApproved\<rparr>) s"
  using assms that by (auto simp: approve_def Let_def mutation_simps decidable_request_ok)

lemma reject_ok:
  assumes "reject rid why clk s = (Inr x, t)"
  obtains f where "t = set_request rid f s"
    "\<And>r. req_state (f r) = RequestRejected \<and> req_approved (f r) = req_approved r \<and> req_profiles (f r) = req_profiles r
      \<and> req_endpoint (f r) = req_endpoint r"
  using assms that by (auto simp: reject_def Let_def mutation_simps decidable_request_ok)

lemma expire_pending_grants_frame: "expire_pending_grants now s = (Inr u, t) \<Longrightarrow>
    cs_credentials t = cs_credentials s \<and> cs_requests t = cs_requests s"
  by (erule expire_pending_grants_ok) simp

lemma append_grant_frame:
  assumes "append_grant did profile key available labels shared authorize new_id clk s = (Inr cg, t)"
  shows "cs_credentials t = cs_credentials s \<and> cs_requests t = cs_requests s"
  using assms
  by (cases rule: append_grant_ok)
    (auto simp: remember_ok dest!: expire_pending_grants_frame replay_grant_ok elim!: new_grant_ok)

lemma decide_grant_frame: "decide_grant did gid approved clk s = (Inr cg, t) \<Longrightarrow>
    cs_credentials t = cs_credentials s \<and> cs_requests t = cs_requests s"
  by (erule decide_grant_ok) (auto simp: set_grant_def dest!: expire_pending_grants_frame)

lemma revoke_grant_frame: "revoke_grant gid who shared clk s = (Inr cg, t) \<Longrightarrow>
    cs_credentials t = cs_credentials s \<and> cs_requests t = cs_requests s"
  by (erule revoke_grant_ok) (auto simp: set_grant_def dest!: expire_pending_grants_frame)

lemma project_frame: "project did revision clk s = (Inr (number, gs), t) \<Longrightarrow>
    cs_credentials t = cs_credentials s \<and> cs_requests t = cs_requests s \<and> cs_grants t = cs_grants s"
  by (erule project_ok) auto

lemma issue_replacement_frame: "issue_replacement P did gen rid now token nonce current s = (Inr mat, t) \<Longrightarrow>
    cs_requests t = cs_requests s \<and> cs_grants t = cs_grants s"
  by (erule issue_replacement_ok) (auto simp: Let_def set_credential_def)

lemma replace_frame: "replace P did gen rid renewal token nonce clk s = (Inr mat, t) \<Longrightarrow>
    cs_requests t = cs_requests s \<and> cs_grants t = cs_grants s"
  by (erule replace_ok) (auto dest: replay_replacement_ok issue_replacement_frame)

lemma mark_revoked_frame: "mark_revoked did why clks s = (Inr event, t) \<Longrightarrow> cs_requests t = cs_requests s"
  by (erule mark_revoked_ok) (auto simp: end_device_grants_def revoke_replacements_def)

lemmas credential_frames = add_offer_frame add_request_frame append_grant_frame decide_grant_frame
  revoke_grant_frame project_frame

section \<open>Devices, endpoints and generations\<close>

definition credentials_ok :: "credential list \<Rightarrow> bool" where
  "credentials_ok cs \<longleftrightarrow> (\<forall>c \<in> set cs. 1 \<le> cred_generation c)
     \<and> distinct (map (\<lambda>c. (cred_device c, cred_generation c)) cs)
     \<and> (\<forall>c \<in> set cs. cred_state c = Active \<longrightarrow>
          (\<forall>c' \<in> set cs. cred_device c' = cred_device c \<longrightarrow> cred_generation c' \<le> cred_generation c))
     \<and> (\<forall>c \<in> set cs. \<forall>c' \<in> set cs. cred_device c' = cred_device c \<longleftrightarrow> cred_endpoint c' = cred_endpoint c)"

lemma credentials_ok_evolved:
  assumes "credentials_ok cs" and "list_all2 credential_evolves cs cs'"
  shows "credentials_ok cs'"
proof -
  have pre: "\<exists>c \<in> set cs. credential_evolves c c'" if "c' \<in> set cs'" for c'
    using assms(2) that by (induction cs cs' rule: list_all2_induct) auto
  have "map (\<lambda>c. (cred_device c, cred_generation c)) cs' = map (\<lambda>c. (cred_device c, cred_generation c)) cs"
    using assms(2) by (induction cs cs' rule: list_all2_induct) (auto simp: credential_evolves_def credential_core_def)
  moreover have core: "cred_device c' = cred_device c \<and> cred_generation c' = cred_generation c
      \<and> cred_endpoint c' = cred_endpoint c \<and> (cred_state c' = Active \<longrightarrow> cred_state c = Active)"
    if "credential_evolves c c'" for c c'
    using that credential_after_inactive by (auto simp: credential_evolves_def credential_core_def)
  ultimately show ?thesis
    using assms(1) unfolding credentials_ok_def by (smt (verit) pre)
qed

lemma credentials_ok_append:
  assumes "credentials_ok cs" and "1 \<le> cred_generation n"
    and "\<And>c. c \<in> set cs \<Longrightarrow> cred_device c = cred_device n \<Longrightarrow> cred_generation c < cred_generation n \<and> cred_state c \<noteq> Active"
    and "\<And>c. c \<in> set cs \<Longrightarrow> cred_device c = cred_device n \<longleftrightarrow> cred_endpoint c = cred_endpoint n"
  shows "credentials_ok (cs @ [n])"
proof -
  have "(cred_device n, cred_generation n) \<notin> (\<lambda>c. (cred_device c, cred_generation c)) ` set cs"
    using assms(3) by force
  moreover have "\<forall>c \<in> set cs. cred_device c = cred_device n \<longrightarrow> cred_generation c \<le> cred_generation n \<and> cred_state c \<noteq> Active"
    using assms(3) less_imp_le by blast
  ultimately show ?thesis
    using assms(1,2,4) unfolding credentials_ok_def by (simp, metis)
qed

lemma foldl_max_ge: "x \<in> set (y # ys) \<Longrightarrow> x \<le> foldl max y ys" for x :: int
proof (induction ys arbitrary: x y)
  case Nil
  then show ?case by simp
next
  case (Cons z zs)
  have "max y z \<le> foldl max (max y z) zs" by (rule Cons.IH) simp
  with Cons show ?case by auto
qed

lemma max_generation_ok:
  assumes "max_generation cs = Inr hi" and "c \<in> set cs"
  shows "cred_generation c \<le> hi" and "1 \<le> hi"
proof -
  from assms(1) obtain gens where
    gens: "list_all2 (\<lambda>c g. positive_integer (PInt (cred_generation c)) ''generation'' = Inr g) cs gens"
    and hi: "hi = foldl max (hd gens) (tl gens)"
    by (auto simp: max_generation_def result_simps mapE_eq_Inr)
  have "gens = map cred_generation cs"
    using gens by (induction rule: list_all2_induct) (auto split: if_splits)
  moreover have "1 \<le> cred_generation x" if "x \<in> set cs" for x
    using gens that by (induction rule: list_all2_induct) (auto split: if_splits)
  ultimately show "cred_generation c \<le> hi" "1 \<le> hi"
    using assms(2) hi foldl_max_ge [of "cred_generation c" "hd gens" "tl gens"]
    by (cases cs; force)+
qed

lemma supersede_evolves_all: "list_all2 credential_evolves cs (map (supersede now eid) cs)"
  by (simp add: list_all2_map2 list.rel_refl_strong record_evolves_defs supersede_def)

lemma enroll_credentials_ok:
  assumes enr: "enroll_device (req_endpoint r) now fresh s = (Inr (did, gen, event, i), t)"
    and ok: "credentials_ok (cs_credentials s)" and fresh: "fresh 0 \<notin> cred_device ` set (cs_credentials s)"
  shows "credentials_ok (cs_credentials t @ [issued_credential P r did gen now' token sc])"
  using enr
proof (cases rule: enroll_device_ok)
  case new
  have "c \<in> set (cs_credentials s) \<Longrightarrow> cred_endpoint c \<noteq> req_endpoint r" for c
    using new(1) by (simp add: filter_empty_conv)
  moreover have "c \<in> set (cs_credentials s) \<Longrightarrow> cred_device c \<noteq> did" for c
    using fresh new(2) by force
  ultimately show ?thesis
    using ok new by (intro credentials_ok_append) (auto simp: issued_credential_def)
next
  case (known first others top)
  let ?cs = "map (supersede now (req_endpoint r)) (cs_credentials s)"
  have t: "cs_credentials t = ?cs" by (simp add: known(5) revoke_replacements_def)
  have ok': "credentials_ok ?cs" by (rule credentials_ok_evolved [OF ok supersede_evolves_all])
  have mine: "set (first # others) = {c \<in> set (cs_credentials s). cred_endpoint c = req_endpoint r}"
    unfolding known(1) [symmetric] by auto
  then have first: "first \<in> set (cs_credentials s)" "cred_endpoint first = req_endpoint r" by auto
  have same: "cred_device c = did \<longleftrightarrow> cred_endpoint c = req_endpoint r" if "c \<in> set (cs_credentials s)" for c
    using ok first that unfolding credentials_ok_def known(2) by metis
  have below: "cred_generation c \<le> top" if "c \<in> set (cs_credentials s)" "cred_endpoint c = req_endpoint r" for c
    by (rule max_generation_ok(1) [OF known(3)]) (simp only: mine mem_Collect_eq that simp_thms)
  have "1 \<le> top" using max_generation_ok(2) [OF known(3), of first] by simp
  then show ?thesis
    unfolding t using ok' same below known(4)
    by (intro credentials_ok_append) (auto simp: issued_credential_def supersede_def split: if_splits)
qed

lemma find_credential_in:
  "find_credential s did gen = Some c \<Longrightarrow> c \<in> set (cs_credentials s) \<and> cred_device c = did \<and> cred_generation c = gen"
  unfolding find_credential_def by (drule find_in) simp

text \<open>After the current credential is marked replaced, its Device has no active credential.\<close>

lemma replaced_credentials:
  assumes "find_credential s did gen = Some current" and "cred_state current = Active"
    and "credentials_ok (cs_credentials s)"
    and "s1 = set_credential did gen (\<lambda>c. c\<lparr>cred_state := Replaced, cred_overlap := Some tm\<rparr>) s"
  shows "list_all2 credential_evolves (cs_credentials s) (cs_credentials s1)"
    and "\<And>c. c \<in> set (cs_credentials s1) \<Longrightarrow> cred_device c = did \<Longrightarrow> cred_generation c \<le> gen \<and> cred_state c \<noteq> Active"
    and "\<And>c. c \<in> set (cs_credentials s1) \<Longrightarrow> cred_device c = did \<longleftrightarrow> cred_endpoint c = cred_endpoint current"
proof -
  let ?p = "\<lambda>c. cred_device c = did \<and> cred_generation c = gen"
  let ?f = "\<lambda>c. c\<lparr>cred_state := Replaced, cred_overlap := Some tm\<rparr>"
  have s1: "cs_credentials s1 = update_first ?p ?f (cs_credentials s)"
    by (simp add: assms(4) set_credential_def)
  note cur = find_credential_in [OF assms(1)]
  have "grows credential_evolves (cs_credentials s) (cs_credentials s1)"
    unfolding s1 using assms(1,2) unfolding find_credential_def
    by (intro grows_update_found [OF credential_evolves_refl]) (auto simp: record_evolves_defs)
  then show ev: "list_all2 credential_evolves (cs_credentials s) (cs_credentials s1)"
    by (simp add: grows_def s1)
  have ok1: "credentials_ok (cs_credentials s1)" by (rule credentials_ok_evolved [OF assms(3) ev])
  have cur1: "?f current \<in> set (cs_credentials s1)"
    unfolding s1 using assms(1) unfolding find_credential_def by (rule set_update_first)
  fix c
  assume c: "c \<in> set (cs_credentials s1)"
  show "cred_device c = did \<longleftrightarrow> cred_endpoint c = cred_endpoint current"
    using ok1 c cur1 cur unfolding credentials_ok_def by force
  assume d: "cred_device c = did"
  from c s1 consider "c \<in> set (cs_credentials s)" | "cred_state c = Replaced" "cred_generation c = gen"
    by (auto dest!: in_update_first)
  then have le: "cred_generation c \<le> gen"
    using assms(2,3) cur d unfolding credentials_ok_def by cases force+
  have "cred_state c \<noteq> Active"
  proof
    assume "cred_state c = Active"
    then have "gen \<le> cred_generation c" using ok1 c cur1 cur d unfolding credentials_ok_def by force
    then have "c = ?f current"
      using ok1 c cur1 cur d le distinct_map_unique [of _ "cs_credentials s1" c "?f current"]
      unfolding credentials_ok_def by fastforce
    with \<open>cred_state c = Active\<close> show False by (metis credential.select_convs(4) credential.surjective credential.update_convs(4,11) credential_state.distinct(1))
  qed
  with le show "cred_generation c \<le> gen \<and> cred_state c \<noteq> Active" by simp
qed

lemma replace_credentials_ok:
  assumes "replace P did gen rid renewal token nonce clk s = (Inr mat, t)" and "1 \<le> gen"
    and ok: "credentials_ok (cs_credentials s)"
  shows "credentials_ok (cs_credentials t)"
  using assms(1)
proof (cases rule: replace_ok)
  case (replayed now existing)
  then show ?thesis using ok replay_replacement_ok by blast
next
  case (issued now current)
  from issued(7) show ?thesis
  proof (rule issue_replacement_ok)
    fix sc
    let ?s1 = "set_credential did gen (\<lambda>c. c\<lparr>cred_state := Replaced,
             cred_overlap := Some (now + ROTATION_OVERLAP_SECONDS)\<rparr>) s"
    assume t: "t = (let s1 = ?s1
          in s1\<lparr>cs_credentials := cs_credentials s1 @ [successor_credential P current did gen now token sc],
                cs_replacements := cs_replacements s @ [sealed_replacement P did gen rid now token nonce sc]\<rparr>)"
    note old = replaced_credentials [OF issued(2) issued(5) ok refl, where tm = "now + ROTATION_OVERLAP_SECONDS"]
    have "credentials_ok (cs_credentials ?s1)" by (rule credentials_ok_evolved [OF ok old(1)])
    then have "credentials_ok (cs_credentials ?s1 @ [successor_credential P current did gen now token sc])"
      using old(2,3) assms(2) by (intro credentials_ok_append) (force simp: successor_credential_def)+
    then show ?thesis by (simp add: t Let_def)
  qed
qed

section \<open>Reading a scope back changes nothing\<close>

lemma bounded_strings_same: "bounded_strings xs fld = Inr ys \<Longrightarrow> ys = xs"
proof -
  have item: "bounded_item (PStr x) = Some y \<Longrightarrow> y = x" for x y
    by (auto split: if_splits)
  show "bounded_strings xs fld = Inr ys \<Longrightarrow> ys = xs"
    using item by (auto simp: bounded_values.simps Let_def list_ex_iff intro!: map_idI split: if_splits)
qed

lemma touch_record_same: "touch_binding_of (touch_record t) = Inr t' \<Longrightarrow> t' = Some t"
proof -
  assume "touch_binding_of (touch_record t) = Inr t'"
  then obtain ids where "bounded_strings [touch_room t, touch_profile t] ''touch_binding'' = Inr ids"
    and t': "t' = Some \<lparr>touch_room = ids ! 0, touch_profile = ids ! 1\<rparr>"
    by (auto simp: touch_record_def has_exactly_def value_simps bind_touch_def result_simps)
  then have "ids = [touch_room t, touch_profile t]" by (intro bounded_strings_same)
  then show ?thesis by (simp add: t')
qed

lemma reread_scope_same: "reread_scope sc = Inr sc' \<Longrightarrow> sc' = sc"
proof -
  assume r: "reread_scope sc = Inr sc'"
  let ?t = "case scope_touch sc of None \<Rightarrow> PNone | Some t \<Rightarrow> touch_record t"
  have "reread_scope sc = scope_from_values (PList (map PStr (scope_rooms sc)))
     (PList (map PStr (scope_capabilities sc))) (PList (map PStr (scope_mappings sc))) ?t"
    by (cases "scope_touch sc") (simp_all add: reread_scope_def scope_record_def value_simps)
  with r obtain rs cs ms tb where "bounded_strings (scope_rooms sc) ''rooms'' = Inr rs"
    "bounded_strings (scope_capabilities sc) ''capabilities'' = Inr cs"
    "bounded_strings (scope_mappings sc) ''wake_mappings'' = Inr ms" "touch_binding_of ?t = Inr tb"
    and sc': "sc' = \<lparr>scope_rooms = rs, scope_capabilities = cs, scope_mappings = ms, scope_touch = tb\<rparr>"
    by (auto simp: scope_from_values_def result_simps split: if_splits)
  then have "rs = scope_rooms sc" "cs = scope_capabilities sc" "ms = scope_mappings sc" "tb = scope_touch sc"
    by (auto dest: bounded_strings_same touch_record_same split: option.splits)
  then show ?thesis by (simp add: sc')
qed

section \<open>Where a credential's scope comes from\<close>

definition scope_within :: "cred_scope \<Rightarrow> cred_scope \<Rightarrow> bool" where
  "scope_within sc requested \<longleftrightarrow> set (scope_rooms sc) \<subseteq> set (scope_rooms requested)
     \<and> set (scope_capabilities sc) \<subseteq> set (scope_capabilities requested)"

definition request_ok :: "enrollment \<Rightarrow> bool" where
  "request_ok r \<longleftrightarrow> (req_state r \<in> {RequestApproved, RequestConsumed} \<longrightarrow>
       (\<exists>sc. req_approved r = Some sc \<and> scope_within sc (req_scope r)))
     \<and> distinct (req_profiles r) \<and> length (req_profiles r) \<le> MAX_CLIENT_GRANTS
     \<and> bounded_text_128 (req_endpoint r)"

definition issued_under :: "enrollment list \<Rightarrow> credential \<Rightarrow> bool" where
  "issued_under rs c \<longleftrightarrow> (\<exists>r \<in> set rs. req_state r = RequestConsumed \<and> req_endpoint r = cred_endpoint c
     \<and> req_approved r = Some (cred_scope_of c))"

definition provenance :: "cred_data \<Rightarrow> bool" where
  "provenance s \<longleftrightarrow> (\<forall>r \<in> set (cs_requests s). request_ok r)
     \<and> (\<forall>c \<in> set (cs_credentials s). issued_under (cs_requests s) c)"

lemma issued_under_grows:
  assumes "grows request_evolves rs rs'" and "issued_under rs c"
  shows "issued_under rs' c"
proof -
  from assms(2) obtain r where r: "r \<in> set rs" "req_state r = RequestConsumed"
    "req_endpoint r = cred_endpoint c" "req_approved r = Some (cred_scope_of c)"
    by (auto simp: issued_under_def)
  from grows_member [OF assms(1) r(1)] obtain r' where "r' \<in> set rs'" "request_evolves r r'" by blast
  with r show ?thesis
    by (auto simp: issued_under_def request_evolves_def request_core_def intro!: bexI [of _ r'])
qed

lemma issued_under_evolved: "issued_under rs c \<Longrightarrow> credential_evolves c c' \<Longrightarrow> issued_under rs c'"
  by (auto simp: issued_under_def credential_evolves_def credential_core_def)

lemma issued_under_all:
  "(\<forall>c \<in> set cs. issued_under rs c) \<Longrightarrow> list_all2 credential_evolves cs cs' \<Longrightarrow> \<forall>c \<in> set cs'. issued_under rs c"
  by (rotate_tac, induction cs cs' rule: list_all2_induct) (auto intro: issued_under_evolved)

text \<open>A transaction that only evolves credentials, and requests that stay in order.\<close>

lemma provenance_step:
  assumes "provenance s" and "evolves s t"
    and "\<forall>r \<in> set (cs_requests t). request_ok r"
    and "list_all2 credential_evolves (cs_credentials s) (cs_credentials t)"
  shows "provenance t"
proof -
  have "\<forall>c \<in> set (cs_credentials t). issued_under (cs_requests s) c"
    using assms(1,4) by (auto simp: provenance_def dest: issued_under_all)
  with assms show ?thesis
    by (auto simp: provenance_def evolves_def intro: issued_under_grows)
qed

lemma credentials_unchanged: "cs_credentials t = cs_credentials s \<Longrightarrow>
    list_all2 credential_evolves (cs_credentials s) (cs_credentials t)"
  by (simp add: list.rel_refl reflpD [OF credential_evolves_refl])

lemma request_ok_update:
  assumes "\<forall>r \<in> set (cs_requests s). request_ok r" and "find_request s rid = Some r" and "request_ok (f r)"
  shows "\<forall>r \<in> set (cs_requests (set_request rid f s)). request_ok r"
proof -
  have "\<forall>r \<in> set (update_first (\<lambda>r. req_id r = rid) f rs). request_ok r"
    if "\<forall>r \<in> set rs. request_ok r" "find (\<lambda>r. req_id r = rid) rs = Some r" for rs
    using that assms(3) by (induction rs) (auto split: if_splits)
  with assms(1,2) show ?thesis by (simp add: set_request_def find_request_def)
qed

lemma find_request_in: "find_request s rid = Some r \<Longrightarrow> r \<in> set (cs_requests s) \<and> req_id r = rid"
  unfolding find_request_def by (drule find_in) simp

lemma require_ident_ok: "require_ident v fld = Inr x \<Longrightarrow> v = PStr x \<and> bounded_text_128 x"
  by (cases v) (auto split: if_splits)

lemma template_ok: "request_template e l ty rs cs ms st i cf = Inr tmpl \<Longrightarrow>
    request_ok (tmpl\<lparr>req_offer := x, req_expires := y\<rparr>)"
  by (auto simp: request_template_def result_simps request_ok_def MAX_CLIENT_GRANTS_def dest: require_ident_ok)

lemma approvable_within: "approvable_scope r sc rooms ms ps cps = Inr () \<Longrightarrow> scope_within sc (req_scope r)"
  by (auto simp: approvable_scope_def result_simps assert_subset_of_def scope_within_def dest: reread_scope_same)

lemma add_request_provenance:
  assumes "request_template e l ty rs cs ms st i cf = Inr tmpl" and "add_request tmpl dig clk s = (Inr x, t)"
    and "provenance s"
  shows "provenance t"
proof (rule provenance_step [OF assms(3) add_request_evolves [OF assms(2)]])
  from assms(2) show "\<forall>r \<in> set (cs_requests t). request_ok r"
    using assms(3) template_ok [OF assms(1)] by (auto elim!: add_request_ok simp: provenance_def)
  show "list_all2 credential_evolves (cs_credentials s) (cs_credentials t)"
    using add_request_frame [OF assms(2)] by (simp add: credentials_unchanged)
qed

lemma approve_provenance:
  assumes "approve rid sc rooms ms ps cps clk s = (Inr x, t)" and "provenance s"
    and "length cps \<le> MAX_CLIENT_GRANTS" and "distinct cps"
  shows "provenance t"
  using assms(1)
proof (rule approve_ok)
  fix now r
  assume r: "find_request s rid = Some r" "approvable_scope r sc rooms ms ps cps = Inr ()"
    and t: "t = set_request rid (\<lambda>r. r\<lparr>req_approved := Some sc, req_profiles := cps, req_state := RequestApproved\<rparr>) s"
  show ?thesis
  proof (rule provenance_step [OF assms(2) approve_evolves [OF assms(1)]])
    show "\<forall>r \<in> set (cs_requests t). request_ok r"
      unfolding t using assms(2-4) r approvable_within [OF r(2)] find_request_in [OF r(1)]
      by (intro request_ok_update) (auto simp: provenance_def request_ok_def)
  qed (simp add: credentials_unchanged t)
qed

lemma reject_provenance:
  assumes "reject rid why clk s = (Inr x, t)" and "provenance s"
  shows "provenance t"
proof (rule provenance_step [OF assms(2) reject_evolves [OF assms(1)]])
  from assms(1) obtain now r where r: "find_request s rid = Some r"
    by (auto simp: reject_def mutation_simps decidable_request_ok)
  obtain f where t: "t = set_request rid f s"
    and f: "\<And>r. req_state (f r) = RequestRejected \<and> req_approved (f r) = req_approved r \<and> req_profiles (f r) = req_profiles r
      \<and> req_endpoint (f r) = req_endpoint r"
    using reject_ok [OF assms(1)] by metis
  have "request_ok r" using assms(2) find_request_in [OF r] by (simp add: provenance_def)
  then have "request_ok (f r)" using f [of r] by (simp add: request_ok_def)
  then show "\<forall>r \<in> set (cs_requests t). request_ok r"
    unfolding t using assms(2) r by (intro request_ok_update) (simp_all add: provenance_def)
  show "list_all2 credential_evolves (cs_credentials s) (cs_credentials t)"
    by (simp add: t credentials_unchanged)
qed

lemma expire_provenance: "provenance s \<Longrightarrow> provenance (expire_enrollment_state now s)"
  by (rule provenance_step [OF _ expire_enrollment_state_evolves])
    (auto simp: expire_enrollment_state_def credentials_unchanged provenance_def request_ok_def expire_request_def
      split: if_splits)

lemma consume_provenance:
  assumes con: "consume P rid dig storage shared token fresh clk s = (Inr (mat, event), t)" and prov: "provenance s"
  shows "provenance t"
proof -
  from con obtain now r s1 i sc s2 where
    ok: "consumable rid dig storage shared now s = (Inr r, s)"
    and enr: "enroll_device (req_endpoint r) now fresh s = (Inr (mat_device mat, mat_generation mat, event, i), s1)"
    and sc: "approved_scope (req_approved r) = Inr sc"
    and iss: "issue_client_grants (mat_device mat) r shared now fresh i
       (s1\<lparr>cs_credentials := cs_credentials s1 @
         [issued_credential P r (mat_device mat) (mat_generation mat) now token sc]\<rparr>) = (Inr (mat_grants mat), s2)"
    and t: "t = set_offer (\<lambda>o1. offer_id o1 = req_offer r) OfferConsumed
       (set_request rid (\<lambda>r. r\<lparr>req_state := RequestConsumed\<rparr>) s2)"
    by (rule consume_ok)
  from ok obtain o1 where r: "find_request s rid = Some r" "req_state r = RequestApproved" by (rule consumable_ok)
  have approved: "req_approved r = Some sc"
    using sc by (cases "req_approved r") (auto dest: reread_scope_same)
  have rq: "cs_requests s2 = cs_requests s"
    using issue_client_grants_frame [OF iss] enroll_device_frame [OF enr] by auto
  have reqs: "cs_requests t = cs_requests (set_request rid (\<lambda>r. r\<lparr>req_state := RequestConsumed\<rparr>) s)"
    by (simp add: t set_request_def rq)
  have creds: "cs_credentials t = cs_credentials s1 @
      [issued_credential P r (mat_device mat) (mat_generation mat) now token sc]"
    using issue_client_grants_frame [OF iss] by (simp add: t)
  have old: "list_all2 credential_evolves (cs_credentials s) (cs_credentials s1)"
    using enr
    by (cases rule: enroll_device_ok) (auto simp: credentials_unchanged revoke_replacements_def supersede_evolves_all)
  have "request_ok r" using prov find_request_in [OF r(1)] by (simp add: provenance_def)
  then have "\<forall>r \<in> set (cs_requests t). request_ok r"
    unfolding reqs using prov r
    by (intro request_ok_update [OF _ r(1)]) (auto simp: provenance_def request_ok_def)
  moreover have "issued_under (cs_requests t) c" if "c \<in> set (cs_credentials s1)" for c
  proof -
    have "issued_under (cs_requests s) c"
      using prov old that issued_under_all by (auto simp: provenance_def)
    then show ?thesis
      using consume_evolves [OF con] by (auto simp: evolves_def intro: issued_under_grows)
  qed
  moreover have "issued_under (cs_requests t) (issued_credential P r (mat_device mat) (mat_generation mat) now token sc)"
  proof -
    have "r\<lparr>req_state := RequestConsumed\<rparr> \<in> set (cs_requests t)"
      unfolding reqs set_request_def using r(1) unfolding find_request_def by (auto intro: set_update_first)
    then show ?thesis
      by (auto simp: issued_under_def issued_credential_def approved intro!: bexI [of _ "r\<lparr>req_state := RequestConsumed\<rparr>"])
  qed
  ultimately show ?thesis by (auto simp: provenance_def creds)
qed

lemma replace_provenance:
  assumes "replace P did gen rid renewal token nonce clk s = (Inr mat, t)" and "provenance s"
  shows "provenance t"
  using assms(1)
proof (cases rule: replace_ok)
  case (replayed now existing)
  then show ?thesis using assms(2) replay_replacement_ok by blast
next
  case (issued now current)
  from issued(7) show ?thesis
  proof (rule issue_replacement_ok)
    fix sc
    let ?s1 = "set_credential did gen (\<lambda>c. c\<lparr>cred_state := Replaced,
             cred_overlap := Some (now + ROTATION_OVERLAP_SECONDS)\<rparr>) s"
    assume sc: "reread_scope (cred_scope_of current) = Inr sc"
      and t: "t = (let s1 = ?s1
          in s1\<lparr>cs_credentials := cs_credentials s1 @ [successor_credential P current did gen now token sc],
                cs_replacements := cs_replacements s @ [sealed_replacement P did gen rid now token nonce sc]\<rparr>)"
    have "issued_under (cs_requests s) current"
      using assms(2) find_credential_in [OF issued(2)] by (simp add: provenance_def)
    then have new: "issued_under (cs_requests s) (successor_credential P current did gen now token sc)"
      using reread_scope_same [OF sc] by (simp add: issued_under_def successor_credential_def)
    have "issued_under (cs_requests s) c" if "c \<in> set (cs_credentials ?s1)" for c
      using that assms(2)
      by (auto simp: set_credential_def provenance_def issued_under_def dest!: in_update_first)
    with new show ?thesis
      using assms(2) by (auto simp: t Let_def provenance_def set_credential_def)
  qed
qed

lemma mark_revoked_provenance:
  assumes "mark_revoked did why clks s = (Inr event, t)" and "provenance s"
  shows "provenance t"
proof (rule provenance_step [OF assms(2) mark_revoked_evolves [OF assms(1)]])
  show "\<forall>r \<in> set (cs_requests t). request_ok r"
    using mark_revoked_frame [OF assms(1)] assms(2) by (simp add: provenance_def)
  show "list_all2 credential_evolves (cs_credentials s) (cs_credentials t)"
    using assms(1)
    by (rule mark_revoked_ok) (auto simp: end_device_grants_def revoke_replacements_def
        elim!: list_all2_mono intro: revokes_evolves)
qed

section \<open>A Device's current grants\<close>

definition own_profiles :: "grant list \<Rightarrow> string \<Rightarrow> string list" where
  "own_profiles gs did = map grant_profile (filter (is_own_current did) gs)"

definition grants_ok :: "grant list \<Rightarrow> bool" where
  "grants_ok gs \<longleftrightarrow> (\<forall>did. distinct (own_profiles gs did) \<and> length (own_profiles gs did) \<le> MAX_CLIENT_GRANTS)
     \<and> (\<forall>g \<in> set gs. grant_state g = PendingOwner \<longrightarrow> grant_pending_until g \<noteq> None)"

lemma grant_after_current: "grant_after s t \<Longrightarrow> t \<in> {GrantActive, PendingOwner} \<Longrightarrow> s \<in> {GrantActive, PendingOwner}"
  by (cases s) auto

lemma grant_after_pending: "grant_after s PendingOwner \<Longrightarrow> s = PendingOwner"
  by (cases s) auto

lemma evolved_grant_current:
  "grant_evolves g h \<Longrightarrow> is_own_current did h \<Longrightarrow> is_own_current did g \<and> grant_profile g = grant_profile h"
  using grant_after_current by (auto simp: grant_evolves_def grant_core_def is_own_current_def)

lemma own_profiles_evolved:
  assumes "list_all2 grant_evolves gs hs"
  shows "set (own_profiles hs did) \<subseteq> set (own_profiles gs did)
    \<and> length (own_profiles hs did) \<le> length (own_profiles gs did)
    \<and> (distinct (own_profiles gs did) \<longrightarrow> distinct (own_profiles hs did))"
  using assms
proof (induction gs hs rule: list_all2_induct)
  case Nil
  then show ?case by simp
next
  case (Cons g gs h hs)
  then show ?case
    using evolved_grant_current [of g h did] by (auto simp: own_profiles_def)
qed

lemma pending_evolved:
  "list_all2 grant_evolves gs hs \<Longrightarrow> \<forall>g \<in> set gs. grant_state g = PendingOwner \<longrightarrow> grant_pending_until g \<noteq> None
    \<Longrightarrow> \<forall>g \<in> set hs. grant_state g = PendingOwner \<longrightarrow> grant_pending_until g \<noteq> None"
  by (induction gs hs rule: list_all2_induct)
    (auto simp: grant_evolves_def grant_core_def dest: grant_after_pending)

lemma grants_ok_evolved: "grants_ok gs \<Longrightarrow> list_all2 grant_evolves gs hs \<Longrightarrow> grants_ok hs"
  unfolding grants_ok_def using own_profiles_evolved pending_evolved le_trans by metis

lemma grants_ok_append:
  assumes "grants_ok gs" and "grant_profile g \<notin> set (own_profiles gs (grant_device g))"
    and "length (own_profiles gs (grant_device g)) < MAX_CLIENT_GRANTS"
    and "grant_state g = PendingOwner \<longrightarrow> grant_pending_until g \<noteq> None"
  shows "grants_ok (gs @ [g])"
  using assms by (auto simp: grants_ok_def own_profiles_def is_own_current_def)

definition issued_grant :: "string \<Rightarrow> string \<Rightarrow> string \<Rightarrow> string \<Rightarrow> string \<Rightarrow> rat \<Rightarrow> bool \<Rightarrow> bool \<Rightarrow> grant" where
  "issued_grant gid did p lbl ty now shared held =
     (let st = (if shared then GrantActive else if held then PendingOwner else GrantActive)
      in \<lparr>grant_id = gid, grant_device = did, grant_profile = p, grant_state = st,
          grant_label = lbl, grant_type = ty, grant_created = now, grant_bootstrap = (\<not> shared \<and> \<not> held),
          grant_pending_until = (if st = PendingOwner then Some (now + PENDING_OWNER_GRANT_TTL_SECONDS) else None),
          grant_decided_at = None, grant_decided_by = None\<rparr>)"

lemma issue_grants_step:
  assumes "issue_grants shared live did lbl ty now fresh i (p # ps) s = (Inr out, t)"
  obtains g out' where
    "g = issued_grant (''grant-'' @ fresh i) did p lbl ty now (p \<in> set shared) (held_elsewhere s live did p)"
    "issue_grants shared live did lbl ty now fresh (Suc i) ps (s\<lparr>cs_grants := cs_grants s @ [g]\<rparr>) = (Inr out', t)"
proof -
  have "\<exists>out'. issue_grants shared live did lbl ty now fresh (Suc i) ps (s\<lparr>cs_grants := cs_grants s @
      [issued_grant (''grant-'' @ fresh i) did p lbl ty now (p \<in> set shared) (held_elsewhere s live did p)]\<rparr>) = (Inr out', t)"
    using assms
    by (cases "p \<in> set shared"; cases "held_elsewhere s live did p")
      (auto simp: mutation_simps issued_grant_def Let_def split: if_splits)
  then show ?thesis using that by blast
qed

lemma issue_grants_ok:
  assumes "issue_grants shared live did lbl ty now fresh i ps s = (Inr out, t)"
    and "grants_ok (cs_grants s)" and "distinct ps" and "set ps \<inter> set (own_profiles (cs_grants s) did) = {}"
    and "length (own_profiles (cs_grants s) did) + length ps \<le> MAX_CLIENT_GRANTS"
  shows "grants_ok (cs_grants t)"
  using assms
proof (induction ps arbitrary: i s out)
  case Nil
  then show ?case by (simp add: mutation_simps)
next
  case (Cons p ps)
  from Cons.prems(1) obtain g out' where
    def: "g = issued_grant (''grant-'' @ fresh i) did p lbl ty now (p \<in> set shared) (held_elsewhere s live did p)"
    and rest: "issue_grants shared live did lbl ty now fresh (Suc i) ps (s\<lparr>cs_grants := cs_grants s @ [g]\<rparr>) = (Inr out', t)"
    by (rule issue_grants_step)
  have g: "grant_device g = did" "grant_profile g = p" "grant_state g = PendingOwner \<longrightarrow> grant_pending_until g \<noteq> None"
      "grant_state g \<in> {GrantActive, PendingOwner}"
    by (auto simp: def issued_grant_def Let_def)
  have "grants_ok (cs_grants s @ [g])"
    using Cons.prems g by (intro grants_ok_append) auto
  moreover have "own_profiles (cs_grants s @ [g]) did = own_profiles (cs_grants s) did @ [p]"
    using g by (auto simp: own_profiles_def is_own_current_def)
  ultimately show ?case
    using Cons.prems by (intro Cons.IH [OF rest]) auto
qed

lemma expire_pending_grants_list: "expire_pending_grants now s = (Inr u, t) \<Longrightarrow>
    list_all2 grant_evolves (cs_grants s) (cs_grants t)"
  by (erule expire_pending_grants_ok) (auto elim!: list_all2_mono intro: expire_pending_grant_evolves)

lemma end_device_grants_list: "list_all2 grant_evolves (cs_grants s) (cs_grants (end_device_grants did now s))"
  by (auto simp: end_device_grants_def list_all2_map2 record_evolves_defs end_grant_def intro!: list.rel_refl_strong)

lemma end_grant_ended: "\<not> is_own_current did (end_grant did now g)"
  by (simp add: is_own_current_def end_grant_def)

lemma set_grant_list:
  "find (\<lambda>g. grant_id g = gid) (cs_grants s) = Some g \<Longrightarrow> grant_evolves g (f g) \<Longrightarrow>
    list_all2 grant_evolves (cs_grants s) (cs_grants (set_grant gid f s))"
  using grows_update_found [OF grant_evolves_refl, of "\<lambda>g. grant_id g = gid" "cs_grants s" g f]
  by (simp add: set_grant_def grows_def)

lemma issue_client_grants_ok:
  assumes "issue_client_grants did r shared now fresh i s = (Inr out, t)"
    and "grants_ok (cs_grants s)" and "length (req_profiles r) \<le> MAX_CLIENT_GRANTS"
  shows "grants_ok (cs_grants t)"
proof -
  from assms(1) obtain s1 ps where s1: "expire_pending_grants now s = (Inr (), s1)"
    and ps: "bounded_strings (req_profiles r) ''client_profiles'' = Inr ps"
    and iss: "issue_grants (case shared of None \<Rightarrow> [] | Some xs \<Rightarrow> xs)
        (live_device_ids (end_device_grants did now s1) now) did (req_label r) (req_type r) now fresh i ps
        (end_device_grants did now s1) = (Inr out, t)"
    by (auto simp: issue_client_grants_def mutation_simps)
  have "grants_ok (cs_grants (end_device_grants did now s1))"
    by (rule grants_ok_evolved [OF grants_ok_evolved [OF assms(2) expire_pending_grants_list [OF s1]]
          end_device_grants_list])
  moreover have "own_profiles (cs_grants (end_device_grants did now s1)) did = []"
    by (simp add: own_profiles_def end_device_grants_def filter_empty_conv end_grant_ended)
  moreover have "distinct ps" "ps = req_profiles r"
    using bounded_values_idem(2) [OF ps] bounded_strings_same [OF ps] by simp_all
  ultimately show ?thesis
    using assms(3) by (intro issue_grants_ok [OF iss]) auto
qed

lemma consume_grants_ok:
  assumes con: "consume P rid dig storage shared token fresh clk s = (Inr (mat, event), t)"
    and "grants_ok (cs_grants s)" and "provenance s"
  shows "grants_ok (cs_grants t)"
  using con
proof (rule consume_ok)
  fix now r s1 i sc s2
  assume ok: "consumable rid dig storage shared now s = (Inr r, s)"
    and enr: "enroll_device (req_endpoint r) now fresh s = (Inr (mat_device mat, mat_generation mat, event, i), s1)"
    and iss: "issue_client_grants (mat_device mat) r shared now fresh i
       (s1\<lparr>cs_credentials := cs_credentials s1 @
         [issued_credential P r (mat_device mat) (mat_generation mat) now token sc]\<rparr>) = (Inr (mat_grants mat), s2)"
    and t: "t = set_offer (\<lambda>o1. offer_id o1 = req_offer r) OfferConsumed
       (set_request rid (\<lambda>r. r\<lparr>req_state := RequestConsumed\<rparr>) s2)"
  from ok have "find_request s rid = Some r" by (rule consumable_ok)
  then have "request_ok r" using assms(3) find_request_in by (auto simp: provenance_def)
  then show ?thesis
    using issue_client_grants_ok [OF iss] assms(2) enroll_device_frame [OF enr]
    by (simp add: t request_ok_def)
qed

lemma append_grant_ok_grants:
  assumes "append_grant did profile key available labels shared authorize new_id clk s = (Inr cg, t)"
    and "grants_ok (cs_grants s)"
  shows "grants_ok (cs_grants t)"
  using assms(1)
proof (cases rule: append_grant_ok)
  case (replayed now s1 req)
  then show ?thesis
    using grants_ok_evolved [OF assms(2) expire_pending_grants_list] replay_grant_ok by blast
next
  case (held now s1 g)
  then show ?thesis
    using grants_ok_evolved [OF assms(2) expire_pending_grants_list] by (auto simp: remember_ok)
next
  case (added now s1 device)
  have ok: "grants_ok (cs_grants s1)"
    using grants_ok_evolved [OF assms(2) expire_pending_grants_list [OF added(2)]] .
  have new: "profile \<notin> set (own_profiles (cs_grants s1) did)"
    using added(3) by (auto simp: find_None_iff own_profiles_def)
  from added(5) show ?thesis
    using ok new
    by (auto elim!: new_grant_ok simp: remember_ok own_profiles_def added_grant_def intro!: grants_ok_append)
qed

lemma decide_grant_list:
  assumes "decide_grant approver gid approved clk s = (Inr cg, t)" and "grants_ok (cs_grants s)"
  shows "grants_ok (cs_grants t)"
  using assms(1)
proof (rule decide_grant_ok)
  fix now s1 g
  assume s1: "expire_pending_grants now s = (Inr (), s1)"
    and g: "find (\<lambda>g. grant_id g = gid) (cs_grants s1) = Some g" "grant_state g = PendingOwner"
    and t: "t = set_grant gid (\<lambda>g. g\<lparr>grant_state := (if approved then GrantActive else GrantRejected),
       grant_decided_at := Some now, grant_decided_by := Some approver\<rparr>) s1"
  show ?thesis
    unfolding t using g
    by (intro grants_ok_evolved [OF grants_ok_evolved [OF assms(2) expire_pending_grants_list [OF s1]]]
        set_grant_list) (auto simp: record_evolves_defs)
qed

lemma revoke_grant_list:
  assumes "revoke_grant gid who shared clk s = (Inr cg, t)" and "grants_ok (cs_grants s)"
  shows "grants_ok (cs_grants t)"
  using assms(1)
proof (rule revoke_grant_ok)
  fix now s1 g
  assume s1: "expire_pending_grants now s = (Inr (), s1)"
    and g: "find (\<lambda>g. grant_id g = gid) (cs_grants s1) = Some g"
      "grant_state g \<in> {GrantActive, PendingOwner, GrantRevoked}"
    and t: "t = set_grant gid (\<lambda>g. if grant_state g \<noteq> GrantRevoked
       then g\<lparr>grant_state := GrantRevoked, grant_decided_at := Some now\<rparr> else g) s1"
  show ?thesis
    unfolding t using g
    by (intro grants_ok_evolved [OF grants_ok_evolved [OF assms(2) expire_pending_grants_list [OF s1]]]
        set_grant_list) (auto simp: record_evolves_defs)
qed

section \<open>The invariant of the state\<close>

definition cred_inv :: "cred_data \<Rightarrow> bool" where
  "cred_inv s \<longleftrightarrow> credentials_ok (cs_credentials s) \<and> provenance s \<and> grants_ok (cs_grants s)"

text \<open>The ID factory never returns the ID of a Device that already exists.\<close>

definition new_device_id :: "cred_data \<Rightarrow> (nat \<Rightarrow> string) \<Rightarrow> enrollment_result \<Rightarrow> bool" where
  "new_device_id s fresh out \<longleftrightarrow> fresh 0 \<notin> cred_device ` set (cs_credentials s)"

lemma cred_invI:
  assumes "cred_inv s \<Longrightarrow> credentials_ok (cs_credentials t)" "cred_inv s \<Longrightarrow> provenance t"
    "cred_inv s \<Longrightarrow> grants_ok (cs_grants t)"
  shows "cred_inv s \<longrightarrow> cred_inv t"
  using assms by (simp add: cred_inv_def)

lemma cred_inv_same:
  "cs_credentials t = cs_credentials s \<Longrightarrow> cs_requests t = cs_requests s \<Longrightarrow> (cred_inv s \<Longrightarrow> grants_ok (cs_grants t))
    \<Longrightarrow> cred_inv s \<longrightarrow> cred_inv t"
  by (simp add: cred_inv_def provenance_def)

lemma credentials_ok_same: "cred_inv s \<Longrightarrow> cs_credentials t = cs_credentials s \<Longrightarrow> credentials_ok (cs_credentials t)"
  by (simp add: cred_inv_def)

lemma clean_credentials_list:
  "list_all2 credential_evolves (cs_credentials s) (cs_credentials (clean_credentials now s))"
  by (auto simp: clean_credentials_def list_all2_map2 record_evolves_defs state_at_def lapsed_def
      intro!: list.rel_refl_strong)

lemma clean_inv: "cred_inv s \<longrightarrow> cred_inv (clean_credentials now s)"
proof (rule cred_invI)
  assume inv: "cred_inv s"
  show "credentials_ok (cs_credentials (clean_credentials now s))"
    using inv credentials_ok_evolved [OF _ clean_credentials_list] by (simp add: cred_inv_def)
  show "provenance (clean_credentials now s)"
    by (rule provenance_step [OF _ clean_credentials_evolves _ clean_credentials_list])
      (use inv in \<open>simp_all add: cred_inv_def provenance_def clean_credentials_def\<close>)
  show "grants_ok (cs_grants (clean_credentials now s))"
    using inv by (simp add: cred_inv_def clean_credentials_def)
qed

lemma consume_inv:
  assumes "consume P rid dig storage shared token fresh clk s = (Inr (mat, event), t)"
    and "fresh 0 \<notin> cred_device ` set (cs_credentials s)"
  shows "cred_inv s \<longrightarrow> cred_inv t"
proof (rule cred_invI)
  assume inv: "cred_inv s"
  show "provenance t" "grants_ok (cs_grants t)"
    using consume_provenance [OF assms(1)] consume_grants_ok [OF assms(1)] inv by (simp_all add: cred_inv_def)
  from assms(1) show "credentials_ok (cs_credentials t)"
  proof (rule consume_ok)
    fix now r s1 i sc s2
    assume enr: "enroll_device (req_endpoint r) now fresh s = (Inr (mat_device mat, mat_generation mat, event, i), s1)"
      and iss: "issue_client_grants (mat_device mat) r shared now fresh i
       (s1\<lparr>cs_credentials := cs_credentials s1 @
         [issued_credential P r (mat_device mat) (mat_generation mat) now token sc]\<rparr>) = (Inr (mat_grants mat), s2)"
      and t: "t = set_offer (\<lambda>o1. offer_id o1 = req_offer r) OfferConsumed
       (set_request rid (\<lambda>r. r\<lparr>req_state := RequestConsumed\<rparr>) s2)"
    show ?thesis
      using enroll_credentials_ok [OF enr _ assms(2)] inv issue_client_grants_frame [OF iss]
      by (simp add: t cred_inv_def)
  qed
qed

lemma replace_inv:
  assumes "replace P did gen rid renewal token nonce clk s = (Inr mat, t)" and "1 \<le> gen"
  shows "cred_inv s \<longrightarrow> cred_inv t"
  using replace_credentials_ok [OF assms] replace_provenance [OF assms(1)] replace_frame [OF assms(1)]
  by (simp add: cred_inv_def)

lemma mark_revoked_inv:
  assumes "mark_revoked did why clks s = (Inr event, t)"
  shows "cred_inv s \<longrightarrow> cred_inv t"
  using assms
proof (rule mark_revoked_ok)
  fix cs now
  assume cs: "list_all2 (revokes did) (cs_credentials s) cs"
    and t: "t = end_device_grants did now (revoke_replacements did (s\<lparr>cs_credentials := cs\<rparr>))"
  have "list_all2 credential_evolves (cs_credentials s) cs"
    using cs by (rule list_all2_mono) (rule revokes_evolves)
  moreover have "list_all2 grant_evolves (cs_grants s) (cs_grants t)"
    using end_device_grants_list [of "revoke_replacements did (s\<lparr>cs_credentials := cs\<rparr>)" did now]
    by (simp add: t revoke_replacements_def)
  ultimately show ?thesis
    using mark_revoked_provenance [OF assms] credentials_ok_evolved grants_ok_evolved
    by (auto simp: cred_inv_def t end_device_grants_def revoke_replacements_def)
qed

interpretation invariant: cred_preorder P "\<lambda>s t. cred_inv s \<longrightarrow> cred_inv t" new_device_id for P
proof
  show "reflp (\<lambda>s t. cred_inv s \<longrightarrow> cred_inv t)" "transp (\<lambda>s t. cred_inv s \<longrightarrow> cred_inv t)"
    by (auto simp: reflp_def transp_def)
  show "cred_inv s \<longrightarrow> cred_inv (clean_credentials now s)" for now s by (rule clean_inv)
  show "cred_inv s \<longrightarrow> cred_inv t" if "add_offer oid dig secs clk s = (Inr x, t)" for oid dig secs clk s x t
    using add_offer_frame [OF that] by (simp add: cred_inv_def provenance_def)
  show "cred_inv s \<longrightarrow> cred_inv t" if "request_template endpoint lbl ty rooms caps maps storage new_id conf = Inr tmpl"
    "add_request tmpl dig clk s = (Inr req, t)"
    for endpoint lbl ty rooms caps maps storage new_id conf tmpl dig clk s req t
    using add_request_frame [OF that(2)] add_request_provenance [OF that] by (simp add: cred_inv_def)
  show "cred_inv s \<longrightarrow> cred_inv (expire_enrollment_state now s)" for s now
    using expire_provenance [of s now] by (simp add: cred_inv_def expire_enrollment_state_def)
  show "cred_inv s \<longrightarrow> cred_inv t" if "length cps \<le> MAX_CLIENT_GRANTS" "distinct cps"
    "approve rid sc rs ms ps cps clk s = (Inr req, t)" for cps rid sc rs ms ps clk s req t
    using approve_provenance [OF that(3) _ that(1,2)] that(3)
    by (auto elim!: approve_ok simp: cred_inv_def)
  show "cred_inv s \<longrightarrow> cred_inv t" if "reject rid why clk s = (Inr req, t)" for rid why clk s req t
    using reject_provenance [OF that] that by (auto elim!: reject_ok simp: cred_inv_def)
  show "cred_inv s \<longrightarrow> cred_inv t" if "new_device_id s fresh (Inr (mat, ev))"
    "consume P rid dig storage' shr token fresh clk s = (Inr (mat, ev), t)"
    for s fresh mat ev rid dig storage' shr token clk t
    using consume_inv [OF that(2)] that(1) by (simp add: new_device_id_def)
  show "cred_inv s \<longrightarrow> cred_inv t" if "1 \<le> gen" "replace P did gen rid renewal token nonce clk s = (Inr mat, t)"
    for gen did rid renewal token nonce clk s mat t
    using replace_inv [OF that(2,1)] .
  show "cred_inv s \<longrightarrow> cred_inv t" if "mark_revoked did why clks s = (Inr event, t)" for did why clks s event t
    using mark_revoked_inv [OF that] .
  show "cred_inv s \<longrightarrow> cred_inv t"
    if "append_grant did profile key available labels shared authorize new_id clk s = (Inr cg, t)"
    for did profile key available labels shared authorize new_id clk s cg t
    using append_grant_frame [OF that] append_grant_ok_grants [OF that] by (intro cred_inv_same) (auto simp: cred_inv_def)
  show "cred_inv s \<longrightarrow> cred_inv t" if "decide_grant did gid approved clk s = (Inr cg, t)" for did gid approved clk s cg t
    using decide_grant_frame [OF that] decide_grant_list [OF that] by (intro cred_inv_same) (auto simp: cred_inv_def)
  show "cred_inv s \<longrightarrow> cred_inv t" if "revoke_grant gid who shared clk s = (Inr cg, t)" for gid who shared clk s cg t
    using revoke_grant_frame [OF that] revoke_grant_list [OF that] by (intro cred_inv_same) (auto simp: cred_inv_def)
  show "cred_inv s \<longrightarrow> cred_inv t" if "project did revision clk s = (Inr (number, gs), t)" for did revision clk s number gs t
    using project_frame [OF that] by (simp add: cred_inv_def provenance_def)
qed

lemma EMPTY_STATE_inv: "cred_inv EMPTY_STATE"
  by (simp add: cred_inv_def credentials_ok_def provenance_def grants_ok_def own_profiles_def EMPTY_STATE_def)

lemma cred_inv_run:
  "allowed_run (cred_exec P) (enroll_ok P new_device_id) s ps \<Longrightarrow> cred_inv s \<Longrightarrow> cred_inv (run_ops (cred_exec P) s ps)"
  using invariant.run_steps by blast

end
