(* ===== verification/Credential_Demo.thy ===== *)
theory Credential_Demo
  imports Credential_Invariants
begin

text \<open>
  A small concrete household: a protector with transparent cryptography, and the state after
  a TUI client was offered a code, submitted its request, was approved for one Profile and
  consumed the approval. The witnesses of the credential properties evaluate the operations
  on it.
\<close>

definition demo_crypto :: crypto where
  "demo_crypto = \<lparr>hmac_sha256 = (\<lambda>key msg. msg), hexdigest = (\<lambda>bytes. bytes),
     aes_encrypt = (\<lambda>key nonce msg aad. msg), aes_decrypt = (\<lambda>key nonce msg aad. Some msg),
     b64_encode = (\<lambda>bytes. bytes), b64_decode = Some\<rparr>"

lemma demo_crypto_ok: "crypto_ok demo_crypto"
  by (simp add: crypto_ok_def demo_crypto_def)

definition demo_protector :: protector where
  "demo_protector = \<lparr>prot_crypto = demo_crypto, root_secret = ''k'', replacement_key = ''r''\<rparr>"

definition demo_scope :: cred_scope where
  "demo_scope = \<lparr>scope_rooms = [], scope_capabilities = [''client_claim''], scope_mappings = [], scope_touch = None\<rparr>"

definition demo_ids :: "nat \<Rightarrow> string" where
  "demo_ids i = (if i = 0 then ''tui'' else ''1'')"

definition demo_enroll :: "cred_op list" where
  "demo_enroll =
    [CreateOffer (PInt 300) False ''o1'' ''code'' ''short'' (PFloat (Fin 0)),
     SubmitRequest (PStr ''code'') (PStr ''e1'') (PStr ''Laptop'') (PStr ''tui'') (PList [])
       (PList [PStr ''client_claim'']) (PList []) (PStr SECURE_STORAGE_PLATFORM) ''r1'' ''ABCD1234'' (PFloat (Fin 10)),
     ApproveRequest (PStr ''r1'') demo_scope (PList []) (PList []) (PList [PStr ''anna'']) (PList [PStr ''anna'']) (PFloat (Fin 20)),
     ConsumeRequest (PStr ''r1'') (PStr ''code'') (PStr SECURE_STORAGE_PLATFORM) (Some (PList [])) ''token'' demo_ids (PFloat (Fin 30))]"

definition demo_enrolled :: cred_data where
  "demo_enrolled = run_ops (cred_exec demo_protector) EMPTY_STATE demo_enroll"

text \<open>Reading the result of an evaluated operation.\<close>

lemma result_ok: "\<not> isl (fst r) \<Longrightarrow> \<exists>x t. r = (Inr x, t)"
  by (cases r; cases "fst r") auto

definition demo_at :: "nat \<Rightarrow> pyval" where
  "demo_at i = PFloat (Fin 60)"

end
