(* ===== verification/Credential_Properties.thy ===== *)
theory Credential_Properties
  imports Credential_Demo
begin

text \<open>
  The properties of the credential service, over single calls and over runs of operations
  from any state or from the empty one.
\<close>

section \<open>Authentication\<close>

lemma scan_found:
  assumes "foldE (\<lambda>found c. if accepts dig allow now c then bindE (authenticated_of c) (\<lambda>a. Inr (Some a))
      else Inr found) acc cs = Inr (Some a)"
  shows "acc = Some a \<or> (\<exists>c \<in> set cs. accepts dig allow now c \<and> authenticated_of c = Inr a)"
  using assms
proof (induction cs arbitrary: acc)
  case Nil
  then show ?case by simp
next
  case (Cons c cs)
  then show ?case by (force simp: result_simps split: if_splits)
qed

lemma authenticated_of_ok: "authenticated_of c = Inr a \<Longrightarrow> auth_device a = cred_device c
    \<and> auth_endpoint a = cred_endpoint c \<and> auth_generation a = cred_generation c \<and> auth_scope a = cred_scope_of c"
  by (auto simp: authenticated_of_def result_simps dest: reread_scope_same split: if_splits)

lemma authenticate_device_ok:
  assumes "authenticate_device P v allow clk1 clk2 s = (Inr found, t)" and "found \<noteq> None"
  obtains token now where "v = PStr token" "scan_credentials (digest P token) allow now (cs_credentials s) = Inr found"
    "timestamp clk1 = Inr now \<and> t = s \<or> timestamp clk2 = Inr now \<and> t = clean_credentials now s"
  using assms that
  by (cases "(P, v, allow, clk1, clk2)" rule: authenticate_device.cases)
    (auto simp: mutation_simps split: if_splits sum.splits prod.splits dest!: find_device_ok,
      (metis (no_types, lifting) find_device_ok prod.collapse sum.inject(2) fst_conv)+)

text \<open>
  C3. Authentication is sound. If a presented value is accepted, then the state holds a
  credential whose digest is the digest of that value; the identity, generation and scope
  returned are that credential's; at the time read it was active and unexpired or, where
  replaced credentials are allowed, replaced and inside its overlap; and the call changed
  nothing but marked what had lapsed by then.
\<close>

theorem authentication_sound:
  assumes "authenticate_device P v allow clk1 clk2 s = (Inr (Some a), t)"
  shows "\<exists>token now. v = PStr token
    \<and> (timestamp clk1 = Inr now \<and> t = s \<or> timestamp clk2 = Inr now \<and> t = clean_credentials now s)
    \<and> (\<exists>c \<in> set (cs_credentials s). cred_digest c = digest P token
        \<and> auth_device a = cred_device c \<and> auth_endpoint a = cred_endpoint c
        \<and> auth_generation a = cred_generation c \<and> auth_scope a = cred_scope_of c
        \<and> (cred_state c = Active \<and> now < cred_expires c
           \<or> allow \<and> cred_state c = Replaced \<and> now < overlap_until c))"
proof -
  from assms obtain token now where v: "v = PStr token"
    and scan: "scan_credentials (digest P token) allow now (cs_credentials s) = Inr (Some a)"
    and time: "timestamp clk1 = Inr now \<and> t = s \<or> timestamp clk2 = Inr now \<and> t = clean_credentials now s"
    by (rule authenticate_device_ok) simp
  from scan obtain c where c: "c \<in> set (cs_credentials s)" "accepts (digest P token) allow now c"
    "authenticated_of c = Inr a"
    unfolding scan_credentials_def by (auto dest!: scan_found)
  have "cred_digest c = digest P token \<and> (cred_state c = Active \<and> now < cred_expires c
      \<or> allow \<and> cred_state c = Replaced \<and> now < overlap_until c)"
    using c(2) by (auto simp: accepts_def state_at_def lapsed_def split: if_splits)
  with c v time authenticated_of_ok [OF c(3)] show ?thesis by blast
qed

theorem authentication_sound_witness:
  "\<exists>a. authenticate_device demo_protector (PStr ''token'') False (demo_at 0) (demo_at 1) demo_enrolled
      = (Inr (Some a), demo_enrolled)
    \<and> (\<exists>c \<in> set (cs_credentials demo_enrolled). cred_digest c = digest demo_protector ''token''
        \<and> auth_device a = cred_device c)"
proof -
  let ?a = "\<lparr>auth_device = ''tui'', auth_endpoint = ''e1'', auth_generation = 1, auth_scope = demo_scope\<rparr>"
  have run: "authenticate_device demo_protector (PStr ''token'') False (demo_at 0) (demo_at 1) demo_enrolled
      = (Inr (Some ?a), demo_enrolled)"
    by code_simp
  from authentication_sound [OF run] show ?thesis
    by (intro exI [of _ ?a] conjI run) auto
qed

section \<open>Revocation\<close>

definition locked_out :: "string \<Rightarrow> cred_data \<Rightarrow> bool" where
  "locked_out did s \<longleftrightarrow> (\<forall>c \<in> set (cs_credentials s). cred_device c = did \<longrightarrow> cred_state c = Revoked)"

definition not_enrolling :: "string \<Rightarrow> cred_data \<Rightarrow> (nat \<Rightarrow> string) \<Rightarrow> enrollment_result \<Rightarrow> bool" where
  "not_enrolling did s fresh out \<longleftrightarrow> (case out of Inl e \<Rightarrow> True | Inr (mat, ev) \<Rightarrow> mat_device mat \<noteq> did)"

lemma locked_out_evolved:
  "list_all2 credential_evolves (cs_credentials s) cs \<Longrightarrow> locked_out did s \<Longrightarrow>
    \<forall>c \<in> set cs. cred_device c = did \<longrightarrow> cred_state c = Revoked"
proof -
  assume "list_all2 credential_evolves (cs_credentials s) cs" and "locked_out did s"
  moreover have "list_all2 credential_evolves xs cs \<Longrightarrow> \<forall>c \<in> set xs. cred_device c = did \<longrightarrow> cred_state c = Revoked
    \<Longrightarrow> \<forall>c \<in> set cs. cred_device c = did \<longrightarrow> cred_state c = Revoked" for xs
    by (induction xs cs rule: list_all2_induct) (auto simp: credential_evolves_def credential_core_def)
  ultimately show ?thesis by (simp add: locked_out_def)
qed

lemma consume_locked_out:
  assumes "consume P rid dig st sh token fresh clk s = (Inr (mat, ev), t)" and "mat_device mat \<noteq> did"
    and "locked_out did s"
  shows "locked_out did t"
  using assms(1)
proof (rule consume_ok)
  fix now r s1 i sc s2
  assume enr: "enroll_device (req_endpoint r) now fresh s = (Inr (mat_device mat, mat_generation mat, ev, i), s1)"
    and iss: "issue_client_grants (mat_device mat) r sh now fresh i
       (s1\<lparr>cs_credentials := cs_credentials s1 @
         [issued_credential P r (mat_device mat) (mat_generation mat) now token sc]\<rparr>) = (Inr (mat_grants mat), s2)"
    and t: "t = set_offer (\<lambda>o1. offer_id o1 = req_offer r) OfferConsumed
       (set_request rid (\<lambda>r. r\<lparr>req_state := RequestConsumed\<rparr>) s2)"
  have "list_all2 credential_evolves (cs_credentials s) (cs_credentials s1)"
    using enr
    by (cases rule: enroll_device_ok) (auto simp: credentials_unchanged revoke_replacements_def supersede_evolves_all)
  from locked_out_evolved [OF this assms(3)] show ?thesis
    using issue_client_grants_frame [OF iss] assms(2)
    by (auto simp: t locked_out_def issued_credential_def)
qed

lemma replace_locked_out:
  assumes "replace P d gen rid renewal token nonce clk s = (Inr mat, t)" and "locked_out did s"
  shows "locked_out did t"
  using assms(1)
proof (cases rule: replace_ok)
  case (replayed now existing)
  then show ?thesis using assms(2) replay_replacement_ok by blast
next
  case (issued now current)
  have d: "d \<noteq> did" using assms(2) find_credential_in [OF issued(2)] issued(5) by (auto simp: locked_out_def)
  have old: "list_all2 credential_evolves (cs_credentials s) (cs_credentials (set_credential d gen
      (\<lambda>c. c\<lparr>cred_state := Replaced, cred_overlap := Some tm\<rparr>) s))" for tm
    using grows_update_found [OF credential_evolves_refl issued(2) [unfolded find_credential_def],
        of "\<lambda>c. c\<lparr>cred_state := Replaced, cred_overlap := Some tm\<rparr>"] issued(5)
    by (simp add: set_credential_def grows_def record_evolves_defs)
  from issued(7) show ?thesis
    by (rule issue_replacement_ok)
      (use d locked_out_evolved [OF old assms(2)] in
        \<open>simp add: locked_out_def Let_def successor_credential_def\<close>)
qed

lemma locked_out_same: "cs_credentials t = cs_credentials s \<Longrightarrow> locked_out did s \<longrightarrow> locked_out did t"
  by (simp add: locked_out_def)

lemma locked_out_step: "list_all2 credential_evolves (cs_credentials s) (cs_credentials t) \<Longrightarrow>
    locked_out did s \<longrightarrow> locked_out did t"
  using locked_out_evolved by (auto simp: locked_out_def)

lemma mark_revoked_list: "mark_revoked did why clks s = (Inr event, t) \<Longrightarrow>
    list_all2 (revokes did) (cs_credentials s) (cs_credentials t)"
  by (erule mark_revoked_ok) (simp add: end_device_grants_def revoke_replacements_def)

lemma revokes_state: "revokes did c c' \<Longrightarrow> cred_device c' = did \<Longrightarrow> cred_state c' = Revoked"
  by (auto simp: revokes_def split: if_splits)

lemma revokes_locked_out: "list_all2 (revokes did) cs (cs_credentials t) \<Longrightarrow> locked_out did t"
  unfolding locked_out_def by (metis revokes_state in_set_conv_nth list_all2_conv_all_nth)

interpretation lockout: cred_preorder P "\<lambda>s t. locked_out did s \<longrightarrow> locked_out did t" "not_enrolling did" for P did
proof
  show "reflp (\<lambda>s t. locked_out did s \<longrightarrow> locked_out did t)" "transp (\<lambda>s t. locked_out did s \<longrightarrow> locked_out did t)"
    by (auto simp: reflp_def transp_def)
  show "locked_out did s \<longrightarrow> locked_out did (clean_credentials now s)" for s now
    by (rule locked_out_step [OF clean_credentials_list])
  show "locked_out did s \<longrightarrow> locked_out did (expire_enrollment_state now s)" for s now
    by (rule locked_out_same) (simp add: expire_enrollment_state_def)
  show "locked_out did s \<longrightarrow> locked_out did t" if "mark_revoked d why clks s = (Inr event, t)" for d why clks s event t
    by (rule locked_out_step, rule list_all2_mono [OF mark_revoked_list [OF that]]) (rule revokes_evolves)
  show "locked_out did s \<longrightarrow> locked_out did t" if "not_enrolling did s fresh (Inr (mat, ev))"
    "consume P rid dig storage' shr token fresh clk s = (Inr (mat, ev), t)"
    for s fresh mat ev rid dig storage' shr token clk t
    using consume_locked_out [OF that(2)] that(1) by (simp add: not_enrolling_def)
  show "locked_out did s \<longrightarrow> locked_out did t" if "1 \<le> gen" "replace P d gen rid renewal token nonce clk s = (Inr mat, t)"
    for gen d rid renewal token nonce clk s mat t
    using replace_locked_out [OF that(2)] by blast
qed (auto simp: locked_out_def dest!: credential_frames elim!: approve_ok reject_ok)

text \<open>
  C4. A revoked Device stays out. Once a Device has been revoked, whatever operations follow
  (renewals, rotations, retries of either, other enrollments), as long as none of them
  enrolls that same Device again, no presented value authenticates as it: neither normally
  nor with replaced credentials allowed.
\<close>

theorem revoked_device_locked_out:
  assumes revoked: "revoke (PStr did) reason clks s = (Inr event, t)"
    and run: "allowed_run (cred_exec P) (enroll_ok P (not_enrolling did)) t ps"
    and auth: "authenticate_device P v allow clk1 clk2 (run_ops (cred_exec P) t ps) = (Inr (Some a), u)"
  shows "auth_device a \<noteq> did"
proof -
  from revoked obtain why where "mark_revoked did why clks s = (Inr event, t)"
    by (auto simp: revoke_def mutation_simps split: if_splits)
  from mark_revoked_list [OF this] have "locked_out did t" by (rule revokes_locked_out)
  then have "locked_out did (run_ops (cred_exec P) t ps)"
    using lockout.run_steps [OF run] by blast
  moreover from auth obtain token now where
    "scan_credentials (digest P token) allow now (cs_credentials (run_ops (cred_exec P) t ps)) = Inr (Some a)"
    by (rule authenticate_device_ok) auto
  then obtain c where "c \<in> set (cs_credentials (run_ops (cred_exec P) t ps))"
    "accepts (digest P token) allow now c" "authenticated_of c = Inr a"
    unfolding scan_credentials_def by (auto dest!: scan_found)
  ultimately show ?thesis
    using authenticated_of_ok by (auto simp: locked_out_def accepts_def state_at_def split: if_splits)
qed

definition demo_two :: cred_data where
  "demo_two = run_ops (cred_exec demo_protector) demo_enrolled
    [CreateOffer (PInt 300) False ''o2'' ''other'' ''short'' (PFloat (Fin 40)),
     SubmitRequest (PStr ''other'') (PStr ''e2'') (PStr ''Phone'') (PStr ''ios'') (PList [])
       (PList [PStr ''client_claim'']) (PList []) (PStr SECURE_STORAGE_PLATFORM) ''r2'' ''ABCD1234'' (PFloat (Fin 41)),
     ApproveRequest (PStr ''r2'') demo_scope (PList []) (PList []) (PList [PStr ''anna'']) (PList [PStr ''anna'']) (PFloat (Fin 42)),
     ConsumeRequest (PStr ''r2'') (PStr ''other'') (PStr SECURE_STORAGE_PLATFORM) (Some (PList [])) ''token2''
       (\<lambda>i. if i = 0 then ''ios'' else ''2'') (PFloat (Fin 43))]"

lemma demo_revocable: "\<not> isl (fst (revoke (PStr ''tui'') PNone demo_at demo_two))"
  by code_simp

theorem revoked_device_locked_out_witness:
  "\<exists>event t a u. revoke (PStr ''tui'') PNone demo_at demo_two = (Inr event, t)
    \<and> authenticate_device demo_protector (PStr ''token2'') True (demo_at 0) (demo_at 1)
        (run_ops (cred_exec demo_protector) t [Authenticate (PStr ''token'') True (demo_at 0) (demo_at 1)]) = (Inr (Some a), u)
    \<and> auth_device a \<noteq> ''tui''"
proof -
  let ?ops = "[Authenticate (PStr ''token'') True (demo_at 0) (demo_at 1)]"
  obtain event t where r: "revoke (PStr ''tui'') PNone demo_at demo_two = (Inr event, t)"
    using result_ok [OF demo_revocable] by blast
  let ?a = "\<lparr>auth_device = ''ios'', auth_endpoint = ''e2'', auth_generation = 1, auth_scope = demo_scope\<rparr>"
  have "fst (authenticate_device demo_protector (PStr ''token2'') True (demo_at 0) (demo_at 1)
      (run_ops (cred_exec demo_protector) (snd (revoke (PStr ''tui'') PNone demo_at demo_two)) ?ops)) = Inr (Some ?a)"
    by code_simp
  then obtain u where u: "authenticate_device demo_protector (PStr ''token2'') True (demo_at 0) (demo_at 1)
      (run_ops (cred_exec demo_protector) t ?ops) = (Inr (Some ?a), u)"
    using r by (metis prod.collapse snd_conv)
  have "auth_device ?a \<noteq> ''tui''"
    by (rule revoked_device_locked_out [OF r _ u]) simp
  with r u show ?thesis by blast
qed

section \<open>Reachable states\<close>

definition reachable :: "protector \<Rightarrow> cred_data \<Rightarrow> bool" where
  "reachable P s \<longleftrightarrow> (\<exists>ps. allowed_run (cred_exec P) (enroll_ok P new_device_id) EMPTY_STATE ps
     \<and> s = run_ops (cred_exec P) EMPTY_STATE ps)"

lemma reachable_inv: "reachable P s \<Longrightarrow> cred_inv s"
  unfolding reachable_def using cred_inv_run EMPTY_STATE_inv by blast

lemma demo_enrolled_reachable: "reachable demo_protector demo_enrolled"
  unfolding reachable_def
proof (intro exI [of _ demo_enroll] conjI)
  show "allowed_run (cred_exec demo_protector) (enroll_ok demo_protector new_device_id) EMPTY_STATE demo_enroll"
    by code_simp
  show "demo_enrolled = run_ops (cred_exec demo_protector) EMPTY_STATE demo_enroll"
    by (rule demo_enrolled_def)
qed

text \<open>
  C10. In every reachable state a Device has at most one active credential, it is the one of
  the Device's highest generation, no two of its credentials share a generation, and two
  credentials belong to the same Device exactly when they belong to the same endpoint.
  (The IDs drawn for new Devices are assumed not to repeat.)
\<close>

theorem one_active_credential:
  assumes "reachable P s" and "c \<in> set (cs_credentials s)" and "c' \<in> set (cs_credentials s)"
  shows "(cred_device c' = cred_device c \<longleftrightarrow> cred_endpoint c' = cred_endpoint c)
    \<and> (cred_device c' = cred_device c \<longrightarrow>
         (cred_generation c' = cred_generation c \<longrightarrow> c' = c)
       \<and> (cred_state c = Active \<longrightarrow> cred_generation c' \<le> cred_generation c)
       \<and> (cred_state c = Active \<and> cred_state c' = Active \<longrightarrow> c' = c))"
proof -
  have ok: "credentials_ok (cs_credentials s)" using reachable_inv [OF assms(1)] by (simp add: cred_inv_def)
  have unique: "c' = c" if "cred_device c' = cred_device c" "cred_generation c' = cred_generation c"
    using ok assms(2,3) that distinct_map_unique [of "\<lambda>c. (cred_device c, cred_generation c)"]
    unfolding credentials_ok_def by blast
  have newest: "cred_generation y \<le> cred_generation x"
    if "cred_state x = Active" "cred_device y = cred_device x" "x \<in> {c, c'}" "y \<in> {c, c'}" for x y
    using ok assms(2,3) that unfolding credentials_ok_def by blast
  have "cred_device c' = cred_device c \<longleftrightarrow> cred_endpoint c' = cred_endpoint c"
    using ok assms(2,3) unfolding credentials_ok_def by blast
  moreover have "c' = c" if "cred_device c' = cred_device c" "cred_state c = Active" "cred_state c' = Active"
    using newest [of c c'] newest [of c' c] that by (intro unique) simp_all
  ultimately show ?thesis using unique newest [of c c'] by simp
qed

theorem one_active_credential_witness:
  "cred_state (hd (cs_credentials demo_enrolled)) = Active
    \<and> {c' \<in> set (cs_credentials demo_enrolled). cred_state c' = Active \<and> cred_device c' = ''tui''}
        = {hd (cs_credentials demo_enrolled)}"
proof -
  have c: "hd (cs_credentials demo_enrolled) \<in> set (cs_credentials demo_enrolled)"
    "cred_state (hd (cs_credentials demo_enrolled)) = Active" "cred_device (hd (cs_credentials demo_enrolled)) = ''tui''"
    by code_simp+
  have "c' = hd (cs_credentials demo_enrolled)"
    if "c' \<in> set (cs_credentials demo_enrolled)" "cred_state c' = Active" "cred_device c' = ''tui''" for c'
    using one_active_credential [OF demo_enrolled_reachable c(1) that(1)] c that by simp
  with c show ?thesis by blast
qed

text \<open>
  C6. No operation extends a credential's authority. In every reachable state the scope of
  each credential, however often it was renewed or rotated, is exactly the scope that was
  approved for an enrollment request of the same endpoint which has been consumed, and its
  rooms and capabilities are among those the endpoint had asked for.
\<close>

theorem credential_scope_was_approved:
  assumes "reachable P s" and "c \<in> set (cs_credentials s)"
  shows "\<exists>r \<in> set (cs_requests s). req_state r = RequestConsumed \<and> req_endpoint r = cred_endpoint c
    \<and> req_approved r = Some (cred_scope_of c)
    \<and> set (scope_rooms (cred_scope_of c)) \<subseteq> set (scope_rooms (req_scope r))
    \<and> set (scope_capabilities (cred_scope_of c)) \<subseteq> set (scope_capabilities (req_scope r))"
proof -
  have "provenance s" using reachable_inv [OF assms(1)] by (simp add: cred_inv_def)
  with assms(2) show ?thesis
    by (force simp: provenance_def issued_under_def request_ok_def scope_within_def)
qed

theorem credential_scope_was_approved_witness:
  "\<exists>r \<in> set (cs_requests demo_enrolled). req_state r = RequestConsumed \<and> req_endpoint r = ''e1''
    \<and> req_approved r = Some demo_scope"
proof -
  have c: "hd (cs_credentials demo_enrolled) \<in> set (cs_credentials demo_enrolled)" by code_simp
  have e: "cred_endpoint (hd (cs_credentials demo_enrolled)) = ''e1''"
    "cred_scope_of (hd (cs_credentials demo_enrolled)) = demo_scope" by code_simp+
  from credential_scope_was_approved [OF demo_enrolled_reachable c] show ?thesis
    unfolding e by blast
qed

text \<open>
  C27. A Device never holds more than sixteen current grants, active or waiting for an
  owner, and never two for the same Profile, in any reachable state; and every grant that
  waits has a time at which it lapses.
\<close>

theorem current_grants_bounded:
  assumes "reachable P s"
  shows "length (own_profiles (cs_grants s) did) \<le> 16 \<and> distinct (own_profiles (cs_grants s) did)
    \<and> (g \<in> set (cs_grants s) \<longrightarrow> grant_state g = PendingOwner \<longrightarrow> grant_pending_until g \<noteq> None)"
  using reachable_inv [OF assms] by (auto simp: cred_inv_def grants_ok_def MAX_CLIENT_GRANTS_def)

theorem current_grants_bounded_witness:
  "own_profiles (cs_grants demo_enrolled) ''tui'' = [''anna''] \<and> length (own_profiles (cs_grants demo_enrolled) ''tui'') \<le> 16"
proof
  show "own_profiles (cs_grants demo_enrolled) ''tui'' = [''anna'']" by code_simp
  show "length (own_profiles (cs_grants demo_enrolled) ''tui'') \<le> 16"
    using current_grants_bounded [OF demo_enrolled_reachable] by blast
qed

section \<open>Single use\<close>

lemma consume_request_ok:
  assumes "consume_request P rv cv st shared token fresh clk s = (Inr (mat, ev), t)"
  obtains rid code sh where "rv = PStr rid" "require_code cv = Inr code"
    "consume P rid (digest P code) st sh token fresh clk s = (Inr (mat, ev), t)"
  using assms by (auto simp: consume_request_def mutation_simps dest: require_ident_ok)

lemma consume_marks:
  assumes "consume P rid dig st sh token fresh clk s = (Inr (mat, ev), t)"
  obtains r o1 where "find_request s rid = Some r" "req_state r = RequestApproved"
    "find (\<lambda>x. offer_id x = req_offer r) (cs_offers s) = Some o1" "offer_digest o1 = dig"
    "offer_state o1 = OfferPending" "find (\<lambda>x. offer_id x = req_offer r) (cs_offers t) = Some (o1\<lparr>offer_state := OfferConsumed\<rparr>)"
  using assms
proof (rule consume_ok)
  fix now r s1 i sc s2
  assume ok: "consumable rid dig st sh now s = (Inr r, s)"
    and enr: "enroll_device (req_endpoint r) now fresh s = (Inr (mat_device mat, mat_generation mat, ev, i), s1)"
    and iss: "issue_client_grants (mat_device mat) r sh now fresh i
       (s1\<lparr>cs_credentials := cs_credentials s1 @
         [issued_credential P r (mat_device mat) (mat_generation mat) now token sc]\<rparr>) = (Inr (mat_grants mat), s2)"
    and t: "t = set_offer (\<lambda>o1. offer_id o1 = req_offer r) OfferConsumed
       (set_request rid (\<lambda>r. r\<lparr>req_state := RequestConsumed\<rparr>) s2)"
  from ok obtain o1 where o1: "find_request s rid = Some r" "req_state r = RequestApproved"
    "find (\<lambda>x. offer_id x = req_offer r) (cs_offers s) = Some o1" "offer_digest o1 = dig"
    "offer_state o1 = OfferPending"
    by (rule consumable_ok)
  have "cs_offers t = update_first (\<lambda>x. offer_id x = req_offer r) (\<lambda>x. x\<lparr>offer_state := OfferConsumed\<rparr>) (cs_offers s)"
    using issue_client_grants_frame [OF iss] enroll_device_frame [OF enr] by (simp add: t set_offer_def)
  then have "find (\<lambda>x. offer_id x = req_offer r) (cs_offers t) = Some (o1\<lparr>offer_state := OfferConsumed\<rparr>)"
    using o1(3) by (simp add: find_update_first)
  with o1 show thesis by (rule that)
qed

text \<open>
  C12. A one-time code yields at most one credential. When a request has been consumed,
  then, whatever operations follow, no request that came in under the same offer (the same
  request included) can ever be consumed.
\<close>

theorem offer_yields_one_credential:
  assumes first: "consume_request P (PStr rid) code storage shared token fresh clk s = (Inr out, t)"
    and r: "find_request s rid = Some r"
    and r': "find_request (run_ops (cred_exec P) t ps) rid' = Some r'" "req_offer r' = req_offer r"
  shows "fst (consume_request P (PStr rid') code' storage' shared' token' fresh' clk' (run_ops (cred_exec P) t ps)) \<noteq> Inr out'"
proof
  let ?u = "run_ops (cred_exec P) t ps"
  assume "fst (consume_request P (PStr rid') code' storage' shared' token' fresh' clk' ?u) = Inr out'"
  then obtain mat' ev' w dig' sh' where "consume P rid' dig' storage' sh' token' fresh' clk' ?u = (Inr (mat', ev'), w)"
    by (cases out'; cases "consume_request P (PStr rid') code' storage' shared' token' fresh' clk' ?u")
      (auto elim: consume_request_ok)
  then obtain r2 o2 where "find_request ?u rid' = Some r2" "find (\<lambda>x. offer_id x = req_offer r2) (cs_offers ?u) = Some o2"
    "offer_state o2 = OfferPending"
    by (rule consume_marks)
  then have "find (\<lambda>x. offer_id x = req_offer r') (cs_offers ?u) = Some o2" "offer_state o2 = OfferPending"
    using r'(1) by simp_all
  moreover obtain o1 where "find (\<lambda>x. offer_id x = req_offer r) (cs_offers t) = Some (o1\<lparr>offer_state := OfferConsumed\<rparr>)"
    using first r by (cases out) (auto elim!: consume_request_ok consume_marks)
  then obtain o3 where "find (\<lambda>x. offer_id x = req_offer r) (cs_offers ?u) = Some o3"
    "offer_evolves (o1\<lparr>offer_state := OfferConsumed\<rparr>) o3"
    using grows_find [of offer_evolves "cs_offers t" "cs_offers ?u" "\<lambda>x. offer_id x = req_offer r"]
      run_evolves [of t P ps] by (auto simp: evolves_def offer_evolves_def offer_core_def)
  ultimately show False using r'(2) by (simp add: offer_evolves_def)
qed

definition demo_ready :: cred_data where
  "demo_ready = run_ops (cred_exec demo_protector) EMPTY_STATE (butlast demo_enroll)"

theorem offer_yields_one_credential_witness:
  "\<exists>out t r. consume_request demo_protector (PStr ''r1'') (PStr ''code'') (PStr SECURE_STORAGE_PLATFORM) (Some (PList []))
      ''token'' demo_ids (demo_at 0) demo_ready = (Inr out, t)
    \<and> find_request demo_ready ''r1'' = Some r \<and> find_request t ''r1'' = Some (r\<lparr>req_state := RequestConsumed\<rparr>)
    \<and> (\<forall>out'. fst (consume_request demo_protector (PStr ''r1'') (PStr ''code'') (PStr SECURE_STORAGE_PLATFORM) (Some (PList []))
          ''again'' demo_ids (demo_at 1) t) \<noteq> Inr out')"
proof -
  let ?con = "consume_request demo_protector (PStr ''r1'') (PStr ''code'') (PStr SECURE_STORAGE_PLATFORM) (Some (PList []))
      ''token'' demo_ids (demo_at 0) demo_ready"
  let ?r = "the (find_request demo_ready ''r1'')"
  have "\<not> isl (fst ?con)" by code_simp
  then obtain out t where con: "?con = (Inr out, t)" using result_ok by blast
  have r: "find_request demo_ready ''r1'' = Some ?r" by code_simp
  have "find_request (snd ?con) ''r1'' = Some (?r\<lparr>req_state := RequestConsumed\<rparr>)" by code_simp
  then have r': "find_request (run_ops (cred_exec demo_protector) t []) ''r1'' = Some (?r\<lparr>req_state := RequestConsumed\<rparr>)"
    using con by simp
  have "fst (consume_request demo_protector (PStr ''r1'') (PStr ''code'') (PStr SECURE_STORAGE_PLATFORM) (Some (PList []))
      ''again'' demo_ids (demo_at 1) t) \<noteq> Inr out'" for out'
    using offer_yields_one_credential [OF con r r'] by simp
  with con r r' show ?thesis by auto
qed

end
