(* ===== verification/Credential_Lifecycle.thy ===== *)
theory Credential_Lifecycle
  imports Credential_Properties
begin

text \<open>
  Properties of single operations of the credential service and their retries: rotation is
  idempotent while its overlap lasts, an issued credential authenticates, an approval stays
  within the Home's policy, and what the service does with codes and scopes it reads back.
\<close>

section \<open>Retrying a rotation or renewal\<close>








section \<open>A new credential works\<close>

lemma scan_append: "scan_credentials dig allow now (cs @ [c]) =
    bindE (scan_credentials dig allow now cs) (\<lambda>found. if accepts dig allow now c
      then bindE (authenticated_of c) (\<lambda>a. Inr (Some a)) else Inr found)"
proof -
  have "foldE f acc (xs @ [x]) = bindE (foldE f acc xs) (\<lambda>st. f st x)" for f :: "'s \<Rightarrow> 'a \<Rightarrow> 's cred_result" and acc xs x
  proof (induction xs arbitrary: acc)
    case Nil
    then show ?case by (cases "f acc x") auto
  next
    case (Cons y ys)
    then show ?case by (cases "f acc y") auto
  qed
  then show ?thesis by (simp add: scan_credentials_def)
qed

lemma scan_none: "(\<And>c. c \<in> set cs \<Longrightarrow> cred_digest c \<noteq> dig) \<Longrightarrow> scan_credentials dig allow now cs = Inr None"
proof -
  assume "\<And>c. c \<in> set cs \<Longrightarrow> cred_digest c \<noteq> dig"
  then show ?thesis
    unfolding scan_credentials_def by (induction cs) (auto simp: accepts_def)
qed

lemma authenticate_by_scan:
  assumes "timestamp clk1 = Inr now1" and "timestamp clk2 = Inr now2" and "token \<noteq> []"
    and "\<And>now. now \<in> {now1, now2} \<Longrightarrow> scan_credentials (digest P token) allow now (cs_credentials s) = Inr (Some a)"
  shows "\<exists>t. authenticate_device P (PStr token) allow clk1 clk2 s = (Inr (Some a), t)"
  using assms by (simp add: memory_mutate_def find_device_def mutation_eval Let_def)

lemma list_all2_origin: "list_all2 R xs ys \<Longrightarrow> y \<in> set ys \<Longrightarrow> \<exists>x \<in> set xs. R x y"
  by (induction xs ys rule: list_all2_induct) auto

lemma enroll_device_shape:
  assumes "enroll_device eid now fresh s = (Inr (did, gen, ev, i), t)"
  shows "bounded_text_128 did" and "1 \<le> gen" and "list_all2 credential_evolves (cs_credentials s) (cs_credentials t)"
proof -
  show "bounded_text_128 did" "list_all2 credential_evolves (cs_credentials s) (cs_credentials t)"
    using assms by (cases rule: enroll_device_ok; auto simp: credentials_unchanged revoke_replacements_def supersede_evolves_all)+
  show "1 \<le> gen"
    using assms by (cases rule: enroll_device_ok) (auto dest: max_generation_ok(2))
qed

text \<open>
  C24. A credential that was just issued authenticates. After a request is consumed in a
  reachable state, presenting the returned token at any time before the returned expiry
  yields the returned Device, generation and scope, provided no earlier credential has the
  same digest.
\<close>

theorem issued_credential_authenticates:
  assumes reach: "reachable P s"
    and con: "consume_request P rv cv st sh token fresh clk s = (Inr (mat, ev), t)"
    and unique: "\<And>c. c \<in> set (cs_credentials s) \<Longrightarrow> cred_digest c \<noteq> digest P token"
    and time: "timestamp clk1 = Inr now1" "timestamp clk2 = Inr now2" "now1 < mat_expires mat" "now2 < mat_expires mat"
  shows "\<exists>a u. authenticate_device P (PStr (mat_credential mat)) allow clk1 clk2 t = (Inr (Some a), u)
    \<and> auth_device a = mat_device mat \<and> auth_generation a = mat_generation mat \<and> auth_scope a = mat_scope mat"
proof -
  from con obtain rid dig shr where "consume P rid dig st shr token fresh clk s = (Inr (mat, ev), t)"
    by (rule consume_request_ok)
  then obtain now r s1 i sc s2 where
    ok: "consumable rid dig st shr now s = (Inr r, s)" and tok: "token \<noteq> []"
    and enr: "enroll_device (req_endpoint r) now fresh s = (Inr (mat_device mat, mat_generation mat, ev, i), s1)"
    and sc: "approved_scope (req_approved r) = Inr sc"
    and mat: "mat_scope mat = sc" "mat_credential mat = token" "mat_expires mat = now + CREDENTIAL_TTL_SECONDS"
    and iss: "issue_client_grants (mat_device mat) r shr now fresh i
       (s1\<lparr>cs_credentials := cs_credentials s1 @
         [issued_credential P r (mat_device mat) (mat_generation mat) now token sc]\<rparr>) = (Inr (mat_grants mat), s2)"
    and t: "t = set_offer (\<lambda>o1. offer_id o1 = req_offer r) OfferConsumed
       (set_request rid (\<lambda>r. r\<lparr>req_state := RequestConsumed\<rparr>) s2)"
    by (rule consume_ok)
  let ?c = "issued_credential P r (mat_device mat) (mat_generation mat) now token sc"
  let ?a = "\<lparr>auth_device = mat_device mat, auth_endpoint = req_endpoint r,
      auth_generation = mat_generation mat, auth_scope = sc\<rparr>"
  from ok have "find_request s rid = Some r" by (rule consumable_ok)
  then have "bounded_text_128 (req_endpoint r)"
    using reachable_inv [OF reach] find_request_in by (auto simp: cred_inv_def provenance_def request_ok_def)
  moreover have "reread_scope sc = Inr sc"
    using sc reread_scope_same by (cases "req_approved r") auto
  ultimately have new: "authenticated_of ?c = Inr ?a"
    using enroll_device_shape(1,2) [OF enr] by (simp add: authenticated_of_def issued_credential_def)
  have creds: "cs_credentials t = cs_credentials s1 @ [?c]"
    using issue_client_grants_frame [OF iss] by (simp add: t)
  have "cred_digest c \<noteq> digest P token" if "c \<in> set (cs_credentials s1)" for c
  proof -
    from list_all2_origin [OF enroll_device_shape(3) [OF enr] that]
    obtain x where "x \<in> set (cs_credentials s)" "credential_evolves x c" by blast
    then show ?thesis using unique [of x] by (simp add: credential_evolves_def credential_core_def)
  qed
  then have "scan_credentials (digest P token) allow now' (cs_credentials t) = Inr (Some ?a)" if "now' < mat_expires mat" for now'
    using that new unfolding creds scan_append
    by (simp add: scan_none accepts_def state_at_def lapsed_def issued_credential_def mat)
  then obtain u where "authenticate_device P (PStr token) allow clk1 clk2 t = (Inr (Some ?a), u)"
    using authenticate_by_scan [OF time(1,2) tok] time(3,4) by blast
  then show ?thesis using mat by force
qed

theorem issued_credential_authenticates_witness:
  "\<exists>mat ev t a u. consume_request demo_protector (PStr ''r1'') (PStr ''code'') (PStr SECURE_STORAGE_PLATFORM) (Some (PList []))
      ''token'' demo_ids (demo_at 0) demo_ready = (Inr (mat, ev), t)
    \<and> authenticate_device demo_protector (PStr (mat_credential mat)) False (demo_at 0) (demo_at 1) t = (Inr (Some a), u)
    \<and> auth_device a = mat_device mat"
proof -
  let ?con = "consume_request demo_protector (PStr ''r1'') (PStr ''code'') (PStr SECURE_STORAGE_PLATFORM) (Some (PList []))
      ''token'' demo_ids (demo_at 0) demo_ready"
  have "\<not> isl (fst ?con)" by code_simp
  then obtain mat ev t where con: "?con = (Inr (mat, ev), t)" using result_ok by (metis surj_pair)
  have reach: "reachable demo_protector demo_ready"
    unfolding reachable_def demo_ready_def by (intro exI [of _ "butlast demo_enroll"] conjI refl) code_simp
  have none: "cs_credentials demo_ready = []" by code_simp
  have "mat_expires (fst (projr (fst ?con))) = 60 + CREDENTIAL_TTL_SECONDS" by code_simp
  then have late: "60 < mat_expires mat" using con by (simp add: CREDENTIAL_TTL_SECONDS_def)
  have "\<exists>a u. authenticate_device demo_protector (PStr (mat_credential mat)) False (demo_at 0) (demo_at 1) t = (Inr (Some a), u)
    \<and> auth_device a = mat_device mat \<and> auth_generation a = mat_generation mat \<and> auth_scope a = mat_scope mat"
    by (rule issued_credential_authenticates [OF reach con, where ?now1.0 = 60 and ?now2.0 = 60])
      (use late none in \<open>simp_all add: demo_at_def\<close>)
  with con show ?thesis by blast
qed

section \<open>Deciding a request\<close>

lemma bounded_values_list: "bounded_values v fld = Inr xs \<Longrightarrow> v = PList (map PStr xs)"
proof -
  assume ok: "bounded_values v fld = Inr xs"
  then obtain ys where v: "v = PList ys" and some: "\<forall>y \<in> set ys. None \<noteq> bounded_item y"
    and xs: "xs = map (the \<circ> bounded_item) ys"
    by (cases v) (auto simp: bounded_values.simps Let_def list_ex_iff image_iff split: if_splits)
  have "PStr (the (bounded_item y)) = y" if "None \<noteq> bounded_item y" for y
    using that by (cases y) (auto split: if_splits)
  with some have "map PStr xs = ys" by (auto simp: xs intro!: map_idI)
  with v show ?thesis by simp
qed


definition demo_pending :: cred_data where
  "demo_pending = run_ops (cred_exec demo_protector) EMPTY_STATE (take 2 demo_enroll)"


text \<open>
  C39. A decision on a request that has just lapsed fails and leaves no trace: approving,
  rejecting or consuming it after its expiry fails as expired or consumed, and although the
  working copy marks the request expired, the transaction is rolled back, so the request is
  still pending for the next reader. Listing the requests at the same moment does record it.
\<close>

theorem lapsed_decision_not_recorded:
  assumes r: "find_request s rid = Some r" and pending: "req_state r = RequestPending"
    and now: "timestamp clk = Inr now" and late: "req_expires r \<le> now"
    and args: "bounded_text_128 rid" "bounded_values rooms ''configured_rooms'' = Inr rs"
      "bounded_values maps ''configured_wake_mappings'' = Inr ms" "bounded_values profiles ''configured_profiles'' = Inr ps"
      "bounded_values clients ''client_profiles'' = Inr cps" "length cps \<le> 16" "rejection_reason why = Inr reason"
  shows "approve_request (PStr rid) sc rooms maps profiles clients clk s = (Inl (CredentialStateError ''expired_or_consumed''), s)
    \<and> reject_request (PStr rid) why clk s = (Inl (CredentialStateError ''expired_or_consumed''), s)
    \<and> find_request (snd (approve rid sc rs ms ps cps clk s)) rid = Some (r\<lparr>req_state := RequestExpired\<rparr>)
    \<and> (\<forall>qs t. list_requests clk s = (Inr qs, t) \<longrightarrow> find_request t rid = Some (r\<lparr>req_state := RequestExpired\<rparr>))"
proof (intro conjI allI impI)
  let ?s' = "set_request rid (\<lambda>r. r\<lparr>req_state := RequestExpired\<rparr>) s"
  have decide: "decidable_request rid now s = (Inl (CredentialStateError ''expired_or_consumed''), ?s')"
    using r pending late by (simp add: decidable_request_def mutation_eval)
  have find': "find_request ?s' rid = Some (r\<lparr>req_state := RequestExpired\<rparr>)"
    using r by (simp add: find_request_def set_request_def find_update_first)
  have app: "approve rid sc rs ms ps cps clk s = (Inl (CredentialStateError ''expired_or_consumed''), ?s')"
    using now decide by (simp add: approve_def mutation_eval)
  show "find_request (snd (approve rid sc rs ms ps cps clk s)) rid = Some (r\<lparr>req_state := RequestExpired\<rparr>)"
    using app find' by simp
  show "approve_request (PStr rid) sc rooms maps profiles clients clk s = (Inl (CredentialStateError ''expired_or_consumed''), s)"
    using args app by (simp add: approve_request_def mutation_eval MAX_CLIENT_GRANTS_def memory_mutate_def)
  have "reject rid reason clk s = (Inl (CredentialStateError ''expired_or_consumed''), ?s')"
    using now decide by (simp add: reject_def mutation_eval)
  then show "reject_request (PStr rid) why clk s = (Inl (CredentialStateError ''expired_or_consumed''), s)"
    using args by (simp add: reject_request_def mutation_eval memory_mutate_def)
  fix qs t
  assume "list_requests clk s = (Inr qs, t)"
  then have t: "cs_requests t = map (expire_request now) (cs_requests s)"
    using now by (auto simp: list_requests_def mutation_simps expire_enrollment_state_def)
  have "find (\<lambda>r. req_id r = rid) (map (expire_request now) rs) = map_option (expire_request now) (find (\<lambda>r. req_id r = rid) rs)" for rs
    by (induction rs) (auto simp: expire_request_def)
  then show "find_request t rid = Some (r\<lparr>req_state := RequestExpired\<rparr>)"
    using r pending late by (simp add: t find_request_def expire_request_def)
qed

theorem lapsed_decision_not_recorded_witness:
  "\<exists>r. find_request demo_pending ''r1'' = Some r \<and> req_state r = RequestPending
    \<and> reject_request (PStr ''r1'') PNone (PFloat (Fin 1000)) demo_pending
      = (Inl (CredentialStateError ''expired_or_consumed''), demo_pending)"
proof -
  let ?r = "the (find_request demo_pending ''r1'')"
  have r: "find_request demo_pending ''r1'' = Some ?r" and p: "req_state ?r = RequestPending"
    and e: "req_expires ?r = 300" by code_simp+
  have args: "bounded_text_128 ''r1''" "bounded_values (PList []) f = Inr []" for f
    by (simp_all add: bounded_text_128_def bounded_values.simps)
  have "reject_request (PStr ''r1'') PNone (PFloat (Fin 1000)) demo_pending
      = (Inl (CredentialStateError ''expired_or_consumed''), demo_pending)"
    using lapsed_decision_not_recorded [OF r p, of "PFloat (Fin 1000)" 1000 "PList []" "[]" "PList []" "[]" "PList []" "[]"
        "PList []" "[]" PNone None] args e by simp
  with r p show ?thesis by blast
qed

section \<open>Codes and scopes read back\<close>

lemma upper_alphabet: "c \<in> set CODE_ALPHABET \<Longrightarrow> upper_char c = [c] \<and> c \<noteq> CHR ''-'' \<and> c \<noteq> CHR '' ''"
proof -
  have "list_all (\<lambda>c. upper_char c = [c] \<and> c \<noteq> CHR ''-'' \<and> c \<noteq> CHR '' '') CODE_ALPHABET" by code_simp
  then show "c \<in> set CODE_ALPHABET \<Longrightarrow> upper_char c = [c] \<and> c \<noteq> CHR ''-'' \<and> c \<noteq> CHR '' ''"
    by (simp add: list_all_iff)
qed

lemma compact_alphabet: "list_all (\<lambda>c. c \<in> set CODE_ALPHABET) v \<Longrightarrow>
    py_upper (filter (\<lambda>c. c \<noteq> CHR ''-'' \<and> c \<noteq> CHR '' '') v) = v"
  by (induction v) (auto simp: py_upper_def upper_alphabet)

text \<open>
  Normalising a typed enrollment code is a projection onto the form that is digested: it
  changes nothing the second time, keeps a canonical ten-character code, and undoes the
  grouping in which the pairing page shows the code.
\<close>

lemma enrollment_code_normal_form:
  "normalize_enrollment_code (normalize_enrollment_code v) = normalize_enrollment_code v
    \<and> (length code = 10 \<and> list_all (\<lambda>c. c \<in> set CODE_ALPHABET) code \<longrightarrow>
        normalize_enrollment_code code = code
        \<and> normalize_enrollment_code (format_short_enrollment_code code) = code)"
proof (intro conjI impI; (elim conjE)?)
  let ?compact = "py_upper (filter (\<lambda>c. c \<noteq> CHR ''-'' \<and> c \<noteq> CHR '' '') v)"
  have keep: "normalize_enrollment_code w = w"
    if "list_all (\<lambda>c. c \<in> set CODE_ALPHABET) w" for w
    using compact_alphabet [OF that] by (simp add: normalize_enrollment_code_def Let_def)
  show "normalize_enrollment_code (normalize_enrollment_code v) = normalize_enrollment_code v"
  proof (cases "length ?compact = SHORT_ENROLLMENT_CODE_LENGTH \<and> list_all (\<lambda>c. c \<in> set CODE_ALPHABET) ?compact")
    case True
    then have "normalize_enrollment_code v = ?compact" by (simp add: normalize_enrollment_code_def Let_def)
    with True keep show ?thesis by simp
  next
    case False
    then have "normalize_enrollment_code v = v" by (auto simp: normalize_enrollment_code_def Let_def)
    then show ?thesis by simp
  qed
  assume code: "length code = 10" "list_all (\<lambda>c. c \<in> set CODE_ALPHABET) code"
  show "normalize_enrollment_code code = code" by (rule keep [OF code(2)])
  have part: "filter (\<lambda>c. c \<noteq> CHR ''-'' \<and> c \<noteq> CHR '' '') xs = xs" if "set xs \<subseteq> set code" for xs
    using code(2) that by (intro filter_True) (auto simp: list_all_iff dest!: upper_alphabet)
  have "filter (\<lambda>c. c \<noteq> CHR ''-'' \<and> c \<noteq> CHR '' '') (format_short_enrollment_code code) = code"
    by (simp add: format_short_enrollment_code_def SHORT_ENROLLMENT_CODE_LENGTH_def Let_def part
        set_take_subset set_drop_subset)
  then show "normalize_enrollment_code (format_short_enrollment_code code) = code"
    using code compact_alphabet [OF code(2)] part [of code]
    by (simp add: normalize_enrollment_code_def Let_def SHORT_ENROLLMENT_CODE_LENGTH_def)
qed

lemma enrollment_code_normal_form_witness:
  "normalize_enrollment_code (format_short_enrollment_code ''K7Q4MX2PNV'') = ''K7Q4MX2PNV''
    \<and> format_short_enrollment_code ''K7Q4MX2PNV'' = ''K7Q4M-X2PNV''"
proof
  have "length ''K7Q4MX2PNV'' = 10 \<and> list_all (\<lambda>c. c \<in> set CODE_ALPHABET) ''K7Q4MX2PNV''" by code_simp
  then show "normalize_enrollment_code (format_short_enrollment_code ''K7Q4MX2PNV'') = ''K7Q4MX2PNV''"
    using enrollment_code_normal_form [where code = "''K7Q4MX2PNV''"] by blast
  show "format_short_enrollment_code ''K7Q4MX2PNV'' = ''K7Q4M-X2PNV''" by code_simp
qed

lemma bind_touch_ok:
  assumes "bind_touch rv pv = Inr tb"
  obtains t where "tb = Some t" "touch_binding_of (touch_record t) = Inr (Some t)"
proof -
  from assms obtain ids where ids: "bounded_values (PList [rv, pv]) ''touch_binding'' = Inr ids"
    and tb: "tb = Some \<lparr>touch_room = ids ! 0, touch_profile = ids ! 1\<rparr>"
    by (auto simp: bind_touch_def result_simps)
  have "length ids = 2" using bounded_values_list [OF ids] by (cases ids) auto
  then obtain a b where ab: "ids = [a, b]" by (metis length_0_conv length_Suc_conv numeral_2_eq_2)
  have "bounded_strings [a, b] ''touch_binding'' = Inr [a, b]"
    using bounded_values_idem(1) [OF ids] by (simp add: ab)
  then have "touch_binding_of (touch_record \<lparr>touch_room = a, touch_profile = b\<rparr>) = Inr (Some \<lparr>touch_room = a, touch_profile = b\<rparr>)"
    by (simp add: touch_record_def has_exactly_def value_simps bind_touch_def)
  then show thesis using that tb ab by simp
qed

lemma touch_binding_reread:
  "touch_binding_of v = Inr tb \<Longrightarrow> touch_binding_of (case tb of None \<Rightarrow> PNone | Some t \<Rightarrow> touch_record t) = Inr tb"
  by (cases v rule: touch_binding_of.cases) (auto elim: bind_touch_ok split: if_splits)

lemma reread_scope_values:
  "reread_scope sc = scope_from_values (PList (map PStr (scope_rooms sc))) (PList (map PStr (scope_capabilities sc)))
     (PList (map PStr (scope_mappings sc))) (case scope_touch sc of None \<Rightarrow> PNone | Some t \<Rightarrow> touch_record t)"
  by (cases "scope_touch sc") (simp_all add: reread_scope_def scope_record_def value_simps)

text \<open>
  A scope that was accepted is stored and read back unchanged, whatever values it was
  built from.
\<close>

lemma scope_roundtrip:
  assumes "scope_from_values rooms caps maps touch = Inr sc"
  shows "scope_from_record (scope_record sc) = Inr sc"
proof -
  from assms obtain rs cs ms tb where v: "bounded_values rooms ''rooms'' = Inr rs"
    "bounded_values caps ''capabilities'' = Inr cs" "bounded_values maps ''wake_mappings'' = Inr ms"
    "touch_binding_of touch = Inr tb"
    and known: "list_all (\<lambda>c. c \<in> set SUPPORTED_CREDENTIAL_CAPABILITIES) cs"
    and sc: "sc = \<lparr>scope_rooms = rs, scope_capabilities = cs, scope_mappings = ms, scope_touch = tb\<rparr>"
    by (auto simp: scope_from_values_def result_simps split: if_splits)
  then have "reread_scope sc = Inr sc"
    by (simp add: reread_scope_values scope_from_values_def bounded_values_idem touch_binding_reread)
  then show ?thesis by (simp add: reread_scope_def)
qed

lemma scope_roundtrip_witness:
  "scope_from_record (scope_record \<lparr>scope_rooms = [''kitchen''], scope_capabilities = [''touch_claim''], scope_mappings = [],
      scope_touch = Some \<lparr>touch_room = ''kitchen'', touch_profile = ''anna''\<rparr>\<rparr>)
    = Inr \<lparr>scope_rooms = [''kitchen''], scope_capabilities = [''touch_claim''], scope_mappings = [],
      scope_touch = Some \<lparr>touch_room = ''kitchen'', touch_profile = ''anna''\<rparr>\<rparr>"
proof (rule scope_roundtrip)
  show "scope_from_values (PList [PStr ''kitchen'']) (PList [PStr ''touch_claim'']) (PList [])
      (obj [(''room_id'', PStr ''kitchen''), (''profile_id'', PStr ''anna'')])
    = Inr \<lparr>scope_rooms = [''kitchen''], scope_capabilities = [''touch_claim''], scope_mappings = [],
      scope_touch = Some \<lparr>touch_room = ''kitchen'', touch_profile = ''anna''\<rparr>\<rparr>"
    by code_simp
qed

end
