(* ===== verification/Grant_Properties.thy ===== *)
theory Grant_Properties
  imports Credential_Properties
begin

text \<open>
  Properties of the client grants: no Profile someone else holds is granted without the
  consent of a holder, and the revision of a Device's configuration projection identifies
  what the Device was shown.
\<close>

section \<open>Consent\<close>

text \<open>Every grant that is active afterwards was active before, at the same place.\<close>

definition no_new_active :: "grant list \<Rightarrow> grant list \<Rightarrow> bool" where
  "no_new_active gs hs \<longleftrightarrow> (\<forall>i < length hs. grant_state (hs ! i) = GrantActive \<longrightarrow>
     i < length gs \<and> grant_state (gs ! i) = GrantActive)"

lemma no_new_active_refl [simp]: "no_new_active gs gs"
  by (simp add: no_new_active_def)

lemma no_new_active_trans: "no_new_active a b \<Longrightarrow> no_new_active b c \<Longrightarrow> no_new_active a c"
  unfolding no_new_active_def by blast

lemma no_new_active_pointwise:
  "list_all2 (\<lambda>g h. grant_state h = GrantActive \<longrightarrow> grant_state g = GrantActive) gs hs \<Longrightarrow> no_new_active gs hs"
  by (auto simp: no_new_active_def list_all2_conv_all_nth)

lemma expire_pending_no_new: "expire_pending_grants now s = (Inr u, t) \<Longrightarrow> no_new_active (cs_grants s) (cs_grants t)"
  by (erule expire_pending_grants_ok)
    (auto intro!: no_new_active_pointwise elim!: list_all2_mono
      simp: expire_pending_grant_def result_simps split: if_splits)

lemma end_device_no_new: "no_new_active (cs_grants s) (cs_grants (end_device_grants did now s))"
  by (rule no_new_active_pointwise)
    (auto simp: end_device_grants_def list_all2_map2 end_grant_def intro!: list.rel_refl_strong)

lemma update_no_new:
  "(\<And>g. grant_state (f g) \<noteq> GrantActive) \<Longrightarrow> no_new_active gs (update_first p f gs)"
proof (rule no_new_active_pointwise)
  assume f: "\<And>g. grant_state (f g) \<noteq> GrantActive"
  show "list_all2 (\<lambda>g h. grant_state h = GrantActive \<longrightarrow> grant_state g = GrantActive) gs (update_first p f gs)"
    by (induction gs) (auto simp: f intro: list.rel_refl_strong)
qed

lemma revoke_grant_no_new:
  assumes "revoke_grant gid who shared clk s = (Inr cg, t)"
  shows "no_new_active (cs_grants s) (cs_grants t)"
  using assms
proof (rule revoke_grant_ok)
  fix now s1 g
  assume s1: "expire_pending_grants now s = (Inr (), s1)"
    and t: "t = set_grant gid (\<lambda>g. if grant_state g \<noteq> GrantRevoked
       then g\<lparr>grant_state := GrantRevoked, grant_decided_at := Some now\<rparr> else g) s1"
  show ?thesis
    unfolding t set_grant_def
    by (rule no_new_active_trans [OF expire_pending_no_new [OF s1]]) (simp add: update_no_new)
qed

lemma mark_revoked_no_new:
  assumes "mark_revoked did why clks s = (Inr event, t)"
  shows "no_new_active (cs_grants s) (cs_grants t)"
  using assms
proof (rule mark_revoked_ok)
  fix cs now
  assume t: "t = end_device_grants did now (revoke_replacements did (s\<lparr>cs_credentials := cs\<rparr>))"
  show ?thesis
    using end_device_no_new [of "revoke_replacements did (s\<lparr>cs_credentials := cs\<rparr>)" did now]
    by (simp add: t revoke_replacements_def)
qed

interpretation consent: quiet_preorder P "\<lambda>s t. no_new_active (cs_grants s) (cs_grants t)" for P
proof
  show "transp (\<lambda>s t. no_new_active (cs_grants s) (cs_grants t))"
    by (auto simp: transp_def intro: no_new_active_trans)
  show "no_new_active (cs_grants s) (cs_grants t)" if "revoke_grant gid who shared clk s = (Inr cg, t)"
    for gid who shared clk s cg t
    using that by (rule revoke_grant_no_new)
  show "no_new_active (cs_grants s) (cs_grants t)" if "mark_revoked did why clks s = (Inr event, t)"
    for did why clks s event t
    using that by (rule mark_revoked_no_new)
qed (auto simp: reflp_def clean_credentials_def expire_enrollment_state_def
    dest!: add_offer_frame add_request_frame replace_frame project_frame elim!: approve_ok reject_ok)

text \<open>
  What other Devices hold is not touched by the expiry of waiting grants, by the end of one
  Device's grants or by what is issued to that Device.
\<close>

definition same_for_others :: "string \<Rightarrow> grant \<Rightarrow> grant \<Rightarrow> bool" where
  "same_for_others did g h \<longleftrightarrow> grant_device h = grant_device g \<and> grant_profile h = grant_profile g
     \<and> (grant_device g \<noteq> did \<longrightarrow> (grant_state h = GrantActive \<longleftrightarrow> grant_state g = GrantActive))"

lemma held_elsewhere_same:
  "list_all2 (same_for_others did) (cs_grants s) (cs_grants t) \<Longrightarrow> held_elsewhere t live did p = held_elsewhere s live did p"
proof -
  have "list_all2 (same_for_others did) gs hs \<Longrightarrow>
    list_ex (\<lambda>g. grant_profile g = p \<and> grant_state g = GrantActive \<and> grant_device g \<noteq> did \<and> grant_device g \<in> set live) hs
    = list_ex (\<lambda>g. grant_profile g = p \<and> grant_state g = GrantActive \<and> grant_device g \<noteq> did \<and> grant_device g \<in> set live) gs"
    for gs hs
    by (induction gs hs rule: list_all2_induct) (auto simp: same_for_others_def)
  then show "list_all2 (same_for_others did) (cs_grants s) (cs_grants t) \<Longrightarrow> held_elsewhere t live did p = held_elsewhere s live did p"
    by (simp add: held_elsewhere_def)
qed

lemma expire_pending_same: "expire_pending_grants now s = (Inr u, t) \<Longrightarrow>
    list_all2 (same_for_others did) (cs_grants s) (cs_grants t)"
  by (erule expire_pending_grants_ok)
    (auto elim!: list_all2_mono simp: same_for_others_def expire_pending_grant_def result_simps split: if_splits)

lemma end_device_same: "list_all2 (same_for_others did) (cs_grants s) (cs_grants (end_device_grants did now s))"
  by (auto simp: end_device_grants_def list_all2_map2 same_for_others_def end_grant_def intro!: list.rel_refl_strong)

lemma same_for_others_trans: "list_all2 (same_for_others did) a b \<Longrightarrow> list_all2 (same_for_others did) b c
    \<Longrightarrow> list_all2 (same_for_others did) a c"
  by (rule list_all2_trans) (auto simp: same_for_others_def)

text \<open>What an operation may add as active: shared Profiles and those no live Device holds.\<close>

definition may_hold :: "cred_data \<Rightarrow> string list \<Rightarrow> string list \<Rightarrow> grant \<Rightarrow> bool" where
  "may_hold s shared live g \<longleftrightarrow> grant_state g = GrantActive \<longrightarrow>
     grant_profile g \<in> set shared \<or> \<not> held_elsewhere s live (grant_device g) (grant_profile g)"

lemma issue_grants_new:
  assumes "issue_grants shared live did lbl ty now fresh i ps s = (Inr out, t)"
  shows "\<exists>new. cs_grants t = cs_grants s @ new \<and> (\<forall>g \<in> set new. grant_device g = did \<and> may_hold s shared live g)"
  using assms
proof (induction ps arbitrary: i s out)
  case Nil
  then show ?case by (simp add: mutation_simps)
next
  case (Cons p ps)
  from Cons.prems obtain g out' where
    g: "g = issued_grant (''grant-'' @ fresh i) did p lbl ty now (p \<in> set shared) (held_elsewhere s live did p)"
    and rest: "issue_grants shared live did lbl ty now fresh (Suc i) ps (s\<lparr>cs_grants := cs_grants s @ [g]\<rparr>) = (Inr out', t)"
    by (rule issue_grants_step)
  have first: "grant_device g = did \<and> may_hold s shared live g"
    by (simp add: g issued_grant_def may_hold_def Let_def)
  have "held_elsewhere (s\<lparr>cs_grants := cs_grants s @ [g]\<rparr>) live did q = held_elsewhere s live did q" for q
    using first by (simp add: held_elsewhere_def)
  then have "may_hold (s\<lparr>cs_grants := cs_grants s @ [g]\<rparr>) shared live h \<Longrightarrow> grant_device h = did \<Longrightarrow> may_hold s shared live h" for h
    by (simp add: may_hold_def)
  with Cons.IH [OF rest] first show ?case by force
qed

lemma issue_client_grants_new:
  assumes "issue_client_grants did r shared now fresh i s = (Inr out, t)"
  obtains gs new where "cs_grants t = gs @ new" "no_new_active (cs_grants s) gs" "length gs = length (cs_grants s)"
    "\<forall>g \<in> set new. may_hold s (case shared of None \<Rightarrow> [] | Some xs \<Rightarrow> xs) (live_device_ids s now) g"
proof -
  from assms obtain s1 ps where s1: "expire_pending_grants now s = (Inr (), s1)"
    and iss: "issue_grants (case shared of None \<Rightarrow> [] | Some xs \<Rightarrow> xs)
        (live_device_ids (end_device_grants did now s1) now) did (req_label r) (req_type r) now fresh i ps
        (end_device_grants did now s1) = (Inr out, t)"
    by (auto simp: issue_client_grants_def mutation_simps)
  let ?s2 = "end_device_grants did now s1"
  have same: "list_all2 (same_for_others did) (cs_grants s) (cs_grants ?s2)"
    using same_for_others_trans [OF expire_pending_same [OF s1] end_device_same] .
  have live: "live_device_ids ?s2 now = live_device_ids s now"
    using expire_pending_grants_frame [OF s1] by (simp add: live_device_ids_def end_device_grants_def)
  from issue_grants_new [OF iss] obtain new where new: "cs_grants t = cs_grants ?s2 @ new"
    "\<forall>g \<in> set new. grant_device g = did \<and> may_hold ?s2 (case shared of None \<Rightarrow> [] | Some xs \<Rightarrow> xs) (live_device_ids ?s2 now) g"
    by blast
  show thesis
  proof (rule that [OF new(1)])
    show "no_new_active (cs_grants s) (cs_grants ?s2)"
      by (rule no_new_active_trans [OF expire_pending_no_new [OF s1] end_device_no_new])
    show "length (cs_grants ?s2) = length (cs_grants s)" using same by (simp add: list_all2_lengthD)
    show "\<forall>g \<in> set new. may_hold s (case shared of None \<Rightarrow> [] | Some xs \<Rightarrow> xs) (live_device_ids s now) g"
      using new(2) held_elsewhere_same [OF same] unfolding may_hold_def live by metis
  qed
qed

lemma consume_new_grants:
  assumes "consume P rid dig st sh token fresh clk s = (Inr (mat, ev), t)"
  obtains gs new now where "timestamp clk = Inr now" "cs_grants t = gs @ new" "no_new_active (cs_grants s) gs"
    "length gs = length (cs_grants s)"
    "\<forall>g \<in> set new. may_hold s (case sh of None \<Rightarrow> [] | Some xs \<Rightarrow> xs) (live_device_ids t now) g"
  using assms
proof (rule consume_ok)
  fix now r s1 i sc s2
  assume now: "timestamp clk = Inr now"
    and enr: "enroll_device (req_endpoint r) now fresh s = (Inr (mat_device mat, mat_generation mat, ev, i), s1)"
    and iss: "issue_client_grants (mat_device mat) r sh now fresh i
       (s1\<lparr>cs_credentials := cs_credentials s1 @
         [issued_credential P r (mat_device mat) (mat_generation mat) now token sc]\<rparr>) = (Inr (mat_grants mat), s2)"
    and t: "t = set_offer (\<lambda>o1. offer_id o1 = req_offer r) OfferConsumed
       (set_request rid (\<lambda>r. r\<lparr>req_state := RequestConsumed\<rparr>) s2)"
  let ?s' = "s1\<lparr>cs_credentials := cs_credentials s1 @
         [issued_credential P r (mat_device mat) (mat_generation mat) now token sc]\<rparr>"
  have grants: "cs_grants ?s' = cs_grants s" using enroll_device_frame [OF enr] by simp
  have live: "live_device_ids t now = live_device_ids ?s' now"
    using issue_client_grants_frame [OF iss] by (simp add: t live_device_ids_def)
  have held: "held_elsewhere ?s' live did p = held_elsewhere s live did p" for live did p
    using grants by (simp add: held_elsewhere_def)
  from iss obtain gs new where new: "cs_grants s2 = gs @ new" "no_new_active (cs_grants ?s') gs"
    "length gs = length (cs_grants ?s')"
    "\<forall>g \<in> set new. may_hold ?s' (case sh of None \<Rightarrow> [] | Some xs \<Rightarrow> xs) (live_device_ids ?s' now) g"
    by (rule issue_client_grants_new)
  have may: "may_hold ?s' ps (live_device_ids ?s' now) g \<longleftrightarrow> may_hold s ps (live_device_ids t now) g" for ps g
    unfolding may_hold_def live held by (rule refl)
  show thesis
  proof (rule that [OF now, of gs new])
    show "cs_grants t = gs @ new" using new(1) by (simp add: t)
    show "no_new_active (cs_grants s) gs" using new(2) by (simp only: grants)
    show "length gs = length (cs_grants s)" using new(3) by (simp only: grants)
    show "\<forall>g \<in> set new. may_hold s (case sh of None \<Rightarrow> [] | Some xs \<Rightarrow> xs) (live_device_ids t now) g"
      using new(4) by (simp only: may)
  qed
qed

lemma append_new_grants:
  assumes "append_grant did profile key available labels shared authorize new_id clk s = (Inr cg, t)"
  obtains gs new now where "timestamp clk = Inr now" "cs_grants t = gs @ new" "no_new_active (cs_grants s) gs"
    "length gs = length (cs_grants s)" "\<forall>g \<in> set new. may_hold s shared (live_device_ids t now) g"
  using assms
proof (cases rule: append_grant_ok)
  case (replayed now s1 req)
  then show thesis
    using that [of now "cs_grants t" "[]"] replay_grant_ok expire_pending_no_new
      list_all2_lengthD [OF expire_pending_same [OF replayed(2)]] by fastforce
next
  case (held now s1 g)
  then show thesis
    using that [of now "cs_grants t" "[]"] expire_pending_no_new
      list_all2_lengthD [OF expire_pending_same [OF held(2)]] by (auto simp: remember_ok)
next
  case (added now s1 device)
  have same: "held_elsewhere s1 live did p = held_elsewhere s live did p" for live p
    by (rule held_elsewhere_same [OF expire_pending_same [OF added(2)]])
  have live: "live_device_ids t now = live_device_ids s now"
    using append_grant_frame [OF assms] by (simp add: live_device_ids_def)
  from added(5) show thesis
  proof (rule new_grant_ok)
    fix lbl ty boot
    assume boot: "boot \<longleftrightarrow> profile \<notin> set shared \<and> \<not> held_elsewhere s1 (live_device_ids s now) did profile \<and> authorize"
      and r: "remember did key profile authorize
       (added_grant (''grant-'' @ new_id) did profile lbl ty now (profile \<in> set shared) boot)
       (s1\<lparr>cs_grants := cs_grants s1 @
         [added_grant (''grant-'' @ new_id) did profile lbl ty now (profile \<in> set shared) boot]\<rparr>) = (Inr cg, t)"
    let ?g = "added_grant (''grant-'' @ new_id) did profile lbl ty now (profile \<in> set shared) boot"
    have "may_hold s shared (live_device_ids t now) ?g"
      using boot by (auto simp: may_hold_def added_grant_def same live)
    then show thesis
      using that [OF added(1), of "cs_grants s1" "[?g]"] r expire_pending_no_new [OF added(2)]
        list_all2_lengthD [OF expire_pending_same [OF added(2)]] by (simp add: remember_ok)
  qed
qed

lemma update_first_nth:
  "i < length xs \<Longrightarrow> update_first p f xs ! i = xs ! i
    \<or> p (xs ! i) \<and> update_first p f xs ! i = f (xs ! i) \<and> find p xs = Some (xs ! i)"
proof (induction xs arbitrary: i)
  case Nil
  then show ?case by simp
next
  case (Cons x xs)
  then show ?case by (cases i) auto
qed

lemma decide_new_grants:
  assumes "decide_grant approver gid approved clk s = (Inr cg, t)" and "i < length (cs_grants t)"
    and "grant_state (cs_grants t ! i) = GrantActive" and "grant_state (cs_grants s ! i) \<noteq> GrantActive"
  shows "approved \<and> grant_device (cs_grants t ! i) \<noteq> approver \<and> holds_profile s approver (grant_profile (cs_grants t ! i))
    \<and> grant_decided_by (cs_grants t ! i) = Some approver
    \<and> \<not> list_ex (\<lambda>c. cred_device c = approver \<and> cred_type c = Some ''browser'' \<and> cred_state c = Active) (cs_credentials s)"
  using assms(1)
proof (rule decide_grant_ok)
  fix now s1 g
  assume s1: "expire_pending_grants now s = (Inr (), s1)"
    and g: "find (\<lambda>g. grant_id g = gid) (cs_grants s1) = Some g" "grant_device g \<noteq> approver"
      "holds_profile s1 approver (grant_profile g)"
    and t: "t = set_grant gid (\<lambda>g. g\<lparr>grant_state := (if approved then GrantActive else GrantRejected),
       grant_decided_at := Some now, grant_decided_by := Some approver\<rparr>) s1"
    and browser: "\<not> list_ex (\<lambda>c. cred_device c = approver \<and> cred_type c = Some ''browser'' \<and> cred_state c = Active)
       (cs_credentials s)"
  let ?f = "\<lambda>g. g\<lparr>grant_state := (if approved then GrantActive else GrantRejected),
       grant_decided_at := Some now, grant_decided_by := Some approver\<rparr>"
  have i: "i < length (cs_grants s1)" using assms(2) by (simp add: t set_grant_def)
  have "grant_state (cs_grants s1 ! i) \<noteq> GrantActive"
    using expire_pending_no_new [OF s1] i assms(4) unfolding no_new_active_def by blast
  then have "cs_grants t ! i = ?f (cs_grants s1 ! i)" "find (\<lambda>g. grant_id g = gid) (cs_grants s1) = Some (cs_grants s1 ! i)"
    using update_first_nth [OF i, of "\<lambda>g. grant_id g = gid" ?f] assms(3) by (auto simp: t set_grant_def)
  with g have "cs_grants t ! i = ?f g" by simp
  moreover have "holds_profile s approver p" if held: "holds_profile s1 approver p" for p
  proof -
    obtain h where h: "h \<in> set (cs_grants s1)" "grant_device h = approver" "grant_profile h = p" "grant_state h = GrantActive"
      using held by (auto simp: holds_profile_def list_ex_iff)
    then obtain h0 where "h0 \<in> set (cs_grants s)" "same_for_others (grant_device h @ ''x'') h0 h"
      using expire_pending_same [OF s1] by (metis list_all2_conv_all_nth in_set_conv_nth)
    with h show ?thesis by (auto simp: holds_profile_def list_ex_iff same_for_others_def intro!: bexI [of _ h0])
  qed
  ultimately show ?thesis using assms(3) g browser by (auto split: if_splits)
qed

text \<open>
  The operations that add a grant, with the Profiles their caller says are shared and their
  clock.
\<close>

definition shared_names :: "pyval \<Rightarrow> string list" where
  "shared_names v = (case bounded_values v ''shared_profiles'' of Inr xs \<Rightarrow> xs | Inl _ \<Rightarrow> [])"

fun introduces :: "cred_op \<Rightarrow> (string list \<times> pyval) option" where
  "introduces (ConsumeRequest r c st sh tok fresh clk) = Some (case sh of None \<Rightarrow> [] | Some v \<Rightarrow> shared_names v, clk)"
| "introduces (AddClientGrant d p k cp ls sh a i clk) = Some (shared_names sh, clk)"
| "introduces p = None"

definition adds_grants :: "string list \<Rightarrow> pyval \<Rightarrow> cred_data \<Rightarrow> cred_data \<Rightarrow> bool" where
  "adds_grants shared clk s t \<longleftrightarrow> s = t \<or> (\<exists>now gs new. timestamp clk = Inr now \<and> cs_grants t = gs @ new
     \<and> no_new_active (cs_grants s) gs \<and> length gs = length (cs_grants s)
     \<and> (\<forall>g \<in> set new. may_hold s shared (live_device_ids t now) g))"

lemma adds_grants_refl: "reflp (adds_grants shared clk)"
  by (simp add: reflp_def adds_grants_def)

lemma consume_request_adds:
  "stepsM (adds_grants (case sh of None \<Rightarrow> [] | Some v \<Rightarrow> shared_names v) clk) (consume_request P r c st sh tok fresh clk)"
  unfolding consume_request_def
proof (intro stepsM_check [OF adds_grants_refl] stepsM_memory [OF adds_grants_refl])
  fix rid code shared s x t
  assume sh: "(case sh of None \<Rightarrow> Inr None | Some v \<Rightarrow> bindE (bounded_values v ''shared_profiles'') (\<lambda>xs. Inr (Some xs)))
      = Inr shared"
    and ok: "consume P rid (digest P code) st shared tok fresh clk s = (Inr x, t)"
  have "(case shared of None \<Rightarrow> [] | Some xs \<Rightarrow> xs) = (case sh of None \<Rightarrow> [] | Some v \<Rightarrow> shared_names v)"
    using sh by (auto simp: shared_names_def bindE_def split: option.splits sum.splits)
  moreover obtain mat ev where x: "x = (mat, ev)" by fastforce
  ultimately show "adds_grants (case sh of None \<Rightarrow> [] | Some v \<Rightarrow> shared_names v) clk s t"
    using consume_new_grants [OF ok [unfolded x]] unfolding adds_grants_def by metis
qed

lemma add_client_grant_adds: "stepsM (adds_grants (shared_names sh) clk) (add_client_grant d p k cp ls sh a i clk)"
  unfolding add_client_grant_def
proof (intro stepsM_check [OF adds_grants_refl] stepsM_memory [OF adds_grants_refl], goal_cases)
  case (1 did pid key labels available shared u auth s x t)
  have "shared = shared_names sh" using 1(6) by (simp add: shared_names_def)
  with append_new_grants [OF 1(9)] show ?case unfolding adds_grants_def by metis
qed

definition decided :: "cred_op \<Rightarrow> cred_data \<Rightarrow> cred_data \<Rightarrow> nat \<Rightarrow> bool" where
  "decided p s t i \<longleftrightarrow> (\<exists>approver gid clk. p = DecideOwnerGrant (PStr approver) gid (PBool True) clk
     \<and> grant_device (cs_grants t ! i) \<noteq> approver \<and> holds_profile s approver (grant_profile (cs_grants t ! i))
     \<and> grant_decided_by (cs_grants t ! i) = Some approver
     \<and> \<not> list_ex (\<lambda>c. cred_device c = approver \<and> cred_type c = Some ''browser'' \<and> cred_state c = Active) (cs_credentials s))"

lemma decide_owner_grant_decides:
  "stepsM (\<lambda>s t. s = t \<or> (\<forall>i < length (cs_grants t). grant_state (cs_grants t ! i) = GrantActive \<longrightarrow>
     grant_state (cs_grants s ! i) \<noteq> GrantActive \<longrightarrow> decided (DecideOwnerGrant a g b clk) s t i))
     (decide_owner_grant a g b clk)" (is "stepsM ?R _")
proof -
  have refl: "reflp ?R" by (simp add: reflp_def)
  show ?thesis
    unfolding decide_owner_grant_def
  proof (intro stepsM_check [OF refl] stepsM_memory [OF refl])
    fix did gid ok s cg t
    assume a: "require_ident a ''device_id'' = Inr did"
      and b: "(case b of PBool b \<Rightarrow> Inr b | _ \<Rightarrow> invalid ''approve must be a boolean'') = Inr ok"
      and run: "decide_grant did gid ok clk s = (Inr cg, t)"
    have "a = PStr did" using a by (cases a) (auto split: if_splits)
    moreover have "b = PBool ok" using b by (cases b) auto
    ultimately show "?R s t"
      using decide_new_grants [OF run] by (auto simp: decided_def)
  qed
qed

lemma decide_exec_length:
  "length (cs_grants (cred_exec P s (DecideOwnerGrant a g b clk))) = length (cs_grants s)"
proof -
  have "stepsM (\<lambda>s t. length (cs_grants t) = length (cs_grants s)) (decide_owner_grant a g b clk)"
    unfolding decide_owner_grant_def
    by (intro stepsM_check stepsM_memory)
      (auto simp: reflp_def set_grant_def elim!: decide_grant_ok
        dest!: expire_pending_same [THEN list_all2_lengthD])
  then show ?thesis by (simp add: stepsM_def)
qed

lemma adds_new_active:
  assumes "adds_grants shared clk s t" and "i < length (cs_grants t)" and "grant_state (cs_grants t ! i) = GrantActive"
    and new: "i < length (cs_grants s) \<longrightarrow> grant_state (cs_grants s ! i) \<noteq> GrantActive"
  shows "\<exists>now. timestamp clk = Inr now \<and> (grant_profile (cs_grants t ! i) \<in> set shared
     \<or> \<not> held_elsewhere s (live_device_ids t now) (grant_device (cs_grants t ! i)) (grant_profile (cs_grants t ! i)))"
proof -
  from assms obtain now gs fresh where now: "timestamp clk = Inr now" and t: "cs_grants t = gs @ fresh"
    and old: "no_new_active (cs_grants s) gs" "length gs = length (cs_grants s)"
    and may: "\<forall>g \<in> set fresh. may_hold s shared (live_device_ids t now) g"
    unfolding adds_grants_def by auto
  have "\<not> i < length gs"
    using old new assms(3) by (auto simp: no_new_active_def t nth_append)
  then have "cs_grants t ! i \<in> set fresh"
    using assms(2) by (simp add: t nth_append)
  then show ?thesis using may now assms(3) unfolding may_hold_def by blast
qed

text \<open>
  C7. No Profile is granted without consent. A grant that an operation makes active was
  either approved by the Device that decided it, which is another Device, holds that Profile
  itself through an active grant and is no browser; or it was added by an enrollment or a
  request for one more Profile, and then the Profile is shared with the household or no other
  live Device held it.
\<close>

theorem grant_needs_consent:
  assumes "i < length (cs_grants (cred_exec P s p))"
    and "grant_state (cs_grants (cred_exec P s p) ! i) = GrantActive"
    and "i < length (cs_grants s) \<longrightarrow> grant_state (cs_grants s ! i) \<noteq> GrantActive"
  shows "decided p s (cred_exec P s p) i
    \<or> (\<exists>shared clk now. introduces p = Some (shared, clk) \<and> timestamp clk = Inr now
        \<and> (grant_profile (cs_grants (cred_exec P s p) ! i) \<in> set shared
           \<or> \<not> held_elsewhere s (live_device_ids (cred_exec P s p) now)
                (grant_device (cs_grants (cred_exec P s p) ! i)) (grant_profile (cs_grants (cred_exec P s p) ! i))))"
proof (cases "is_quiet p")
  case True
  from consent.exec_quiet [OF this, of s P] assms show ?thesis
    by (simp add: no_new_active_def)
next
  case False
  then consider (consume) r c st sh tok fresh clk where "p = ConsumeRequest r c st sh tok fresh clk"
    | (add) d q k cp ls sh a j clk where "p = AddClientGrant d q k cp ls sh a j clk"
    | (decide) a g b clk where "p = DecideOwnerGrant a g b clk"
    by (cases p) auto
  then show ?thesis
  proof cases
    case consume
    then show ?thesis
      using adds_new_active [OF _ assms] consume_request_adds by (fastforce simp: stepsM_def)
  next
    case add
    then show ?thesis
      using adds_new_active [OF _ assms] add_client_grant_adds by (fastforce simp: stepsM_def)
  next
    case decide
    have "grant_state (cs_grants s ! i) \<noteq> GrantActive"
      using assms(1,3) decide_exec_length [of P s a g b clk] by (simp add: decide)
    then show ?thesis
      using decide_owner_grant_decides [of a g b clk] assms(1,2) unfolding decide stepsM_def cred_exec.simps by metis
  qed
qed

theorem grant_needs_consent_witness:
  "decided (DecideOwnerGrant (PStr ''tui'') (PStr ''grant-2'') (PBool True) (demo_at 0)) demo_two
     (cred_exec demo_protector demo_two (DecideOwnerGrant (PStr ''tui'') (PStr ''grant-2'') (PBool True) (demo_at 0))) 1"
  (is "decided ?p _ ?t 1")
proof -
  have len: "1 < length (cs_grants ?t)" by code_simp
  have new: "grant_state (cs_grants ?t ! 1) = GrantActive" by code_simp
  have old: "1 < length (cs_grants demo_two) \<longrightarrow> grant_state (cs_grants demo_two ! 1) \<noteq> GrantActive" by code_simp
  from grant_needs_consent [OF len new old] show ?thesis by simp
qed

section \<open>The configuration projection\<close>

text \<open>
  C30. The revision a Device is given for its configuration identifies what it was shown: over
  any run of operations after it was read it does not go back, and where a later read returns
  the same revision, the configuration revision and the Device's grants with their states are
  the ones of the earlier read.
\<close>

theorem projection_revision_tracks_grants:
  assumes first: "client_configuration did rev1 clk1 s = (Inr (m, gs), t)"
    and second: "client_configuration did rev2 clk2 (run_ops (cred_exec P) t ps) = (Inr (n, hs), u)"
  shows "m \<le> n \<and> (m = n \<longrightarrow> rev1 = rev2 \<and> map (\<lambda>g. (cg_id g, cg_state g)) gs = map (\<lambda>g. (cg_id g, cg_state g)) hs)"
proof -
  have entry: "map_of (cs_projections t) did = Some (projection_fingerprint rev1 gs, m)"
    if "client_configuration did rev1 clk1 s = (Inr (m, gs), t)" for did rev1 clk1 s m gs t
    using that unfolding client_configuration_def
    by (auto simp: memory_mutate_def split: prod.splits sum.splits elim: project_ok)
  let ?s' = "run_ops (cred_exec P) t ps"
  have "evolves t (run_ops (cred_exec P) t (ps @ [ClientConfiguration did rev2 clk2]))" by (rule run_evolves)
  then have "projections_evolve (cs_projections t) (cs_projections u)"
    using second by (simp add: evolves_def run_ops_append)
  with entry [OF first] entry [OF second] have "projection_fingerprint rev2 hs = projection_fingerprint rev1 gs \<and> n = m \<or> m < n"
    unfolding projections_evolve_def by fastforce
  then show ?thesis by (auto simp: projection_fingerprint_def)
qed

theorem projection_revision_tracks_grants_witness:
  "\<exists>m n gs hs t u. client_configuration ''tui'' 1 (demo_at 0) demo_enrolled = (Inr (m, gs), t)
    \<and> client_configuration ''tui'' 1 (demo_at 1) (run_ops (cred_exec demo_protector) t
        [RevokeClientGrant (PStr ''grant-1'') None (PList []) (demo_at 0)]) = (Inr (n, hs), u)
    \<and> m = 1 \<and> n = 2 \<and> m \<le> n"
proof -
  let ?one = "client_configuration ''tui'' 1 (demo_at 0) demo_enrolled"
  let ?rest = "\<lambda>t. client_configuration ''tui'' 1 (demo_at 1) (run_ops (cred_exec demo_protector) t
        [RevokeClientGrant (PStr ''grant-1'') None (PList []) (demo_at 0)])"
  have one: "\<not> isl (fst ?one)" "fst (projr (fst ?one)) = 1" by code_simp+
  then obtain gs t where first: "?one = (Inr (1, gs), t)" using result_ok [OF one(1)] by auto
  have two: "\<not> isl (fst (?rest (snd ?one)))" "fst (projr (fst (?rest (snd ?one)))) = 2" by code_simp+
  then obtain hs u where second: "?rest t = (Inr (2, hs), u)"
    using result_ok [OF two(1)] first by auto
  from projection_revision_tracks_grants [OF first second] first second show ?thesis by blast
qed

text \<open>
  Peeking at the revision agrees with reading the configuration: it returns a revision
  exactly when a read now would return that revision and leave the stored projection as it
  is, and nothing when a read would have to record a new one.
\<close>

lemma projection_peek_agrees:
  assumes dev: "require_ident device ''device_id'' = Inr did"
    and reading: "client_configuration did revision clk s = (Inr (n, gs), t)"
  shows "client_configuration_revision device revision clk s = Inr (if t = s then Some n else None)"
proof -
  have p: "project did revision clk s = (Inr (n, gs), t)"
    using reading by (auto simp: client_configuration_def memory_mutate_def split: prod.splits sum.splits)
  then obtain now all where now: "timestamp clk = Inr now" and all: "current_grants s now = Inr all"
    and gs: "gs = filter (\<lambda>g. cg_device g = did) all" by (rule project_ok)
  have changed: "s\<lparr>cs_projections := AList.update did v (cs_projections s)\<rparr> \<noteq> s"
    if differs: "map_of (cs_projections s) did \<noteq> Some v" for v
    using differs by (metis cred_data.select_convs(7) cred_data.surjective cred_data.update_convs(7) update_Some_unfold update_conv' fun_upd_same)
  show ?thesis
  proof (cases "map_of (cs_projections s) did")
    case None
    then have "t \<noteq> s"
      using p changed by (auto simp: project_def mutation_simps Let_def now all)
    with None show ?thesis by (simp add: client_configuration_revision_def dev bindE_def)
  next
    case (Some v)
    obtain old number where v: "v = (old, number)" by (cases v)
    show ?thesis
    proof (cases "old = projection_fingerprint revision gs")
      case True
      then show ?thesis
        using p Some by (simp add: client_configuration_revision_def project_def mutation_simps Let_def dev now all v gs)
    next
      case False
      then have "t \<noteq> s"
        using p Some changed by (auto simp: project_def mutation_simps Let_def now all v gs)
      with False Some show ?thesis
        by (simp add: client_configuration_revision_def dev now all v gs bindE_def)
    qed
  qed
qed

lemma projection_peek_agrees_witness:
  "\<exists>gs t. client_configuration ''tui'' 1 (demo_at 0) demo_enrolled = (Inr (1, gs), t) \<and> t \<noteq> demo_enrolled
    \<and> client_configuration_revision (PStr ''tui'') 1 (demo_at 0) demo_enrolled = Inr None"
proof -
  let ?one = "client_configuration ''tui'' 1 (demo_at 0) demo_enrolled"
  have one: "\<not> isl (fst ?one)" "fst (projr (fst ?one)) = 1" by code_simp+
  then obtain gs t where first: "?one = (Inr (1, gs), t)" using result_ok [OF one(1)] by auto
  have "length (cs_projections (snd ?one)) \<noteq> length (cs_projections demo_enrolled)" by code_simp
  then have new: "t \<noteq> demo_enrolled" using first by auto
  have "require_ident (PStr ''tui'') ''device_id'' = Inr ''tui''" by code_simp
  from projection_peek_agrees [OF this first] first new show ?thesis by auto
qed

end
