(* ===== verification/Health.thy ===== *)
theory Health
  imports Credential_Protector
begin

text \<open>
  Health checks of one endpoint (\<open>domain/health.py\<close>): the validated values, the check that
  runs every stage within one deadline, and the bounded response body. A dataclass with a
  \<open>__post_init__\<close> is a record with a constructor that checks its arguments. What a probe
  or the delivery port does within the time it is given is an argument; so are the
  readings of the clock, each what \<open>float(clock())\<close> gives, or nothing where it raises.
\<close>

section \<open>Vocabulary\<close>

definition HEALTH_CHECK_TIMEOUT_SECONDS :: rat where "HEALTH_CHECK_TIMEOUT_SECONDS = 5"

definition HEALTH_STAGE_ORDER :: "string list" where
  "HEALTH_STAGE_ORDER = [''route'', ''authorization'', ''bridge'', ''standard'', ''device_local'']"

definition HEALTH_STAGE_STATUSES :: "string list" where
  "HEALTH_STAGE_STATUSES = [''verified'', ''unavailable'', ''unsupported'', ''stale'', ''timed_out'']"

definition HEALTH_OVERALL_STATUSES :: "string list" where
  "HEALTH_OVERALL_STATUSES = [''healthy'', ''degraded'', ''unavailable'']"

definition HEALTH_DELIVERY_STATUSES :: "string list" where
  "HEALTH_DELIVERY_STATUSES = [''idle'', ''active'', ''uncertain'', ''unavailable'']"

definition HEALTH_ACTIVITIES :: "string list" where
  "HEALTH_ACTIVITIES = [''ready'', ''open'', ''capture'', ''turn'', ''playback'', ''response_ready'',
     ''playback_complete'', ''idle'']"

definition HEALTH_REASONS :: "string list" where
  "HEALTH_REASONS = [''authorization_unavailable'', ''bridge_unavailable'', ''bridge_timeout'',
     ''delivery_state_unavailable'', ''health_provider_unavailable'', ''probe_failed'', ''probe_timeout'',
     ''response_too_large'', ''route_identity_mismatch'', ''route_timeout'', ''route_unavailable'',
     ''route_unauthorized'', ''standard_not_configured'', ''standard_protocol_error'', ''standard_timeout'',
     ''standard_unavailable'', ''stale_target'', ''unsupported'']"

definition HEALTH_ACTIONS :: "string list" where
  "HEALTH_ACTIONS = [''check_endpoint_capabilities'', ''inspect_home_bridge'', ''inspect_standard_gateway'',
     ''refresh_configuration'', ''refresh_pairing'', ''retry_health_check'']"

lemmas vocabulary = HEALTH_STAGE_ORDER_def HEALTH_STAGE_STATUSES_def HEALTH_OVERALL_STATUSES_def
  HEALTH_DELIVERY_STATUSES_def HEALTH_ACTIVITIES_def HEALTH_REASONS_def HEALTH_ACTIONS_def

section \<open>Values\<close>

datatype health_error = HealthValidationError string | HealthOverflowError

type_synonym 'a health_result = "(health_error, 'a) result"

abbreviation unhealthy :: "string \<Rightarrow> 'a health_result" where
  "unhealthy m \<equiv> Inl (HealthValidationError m)"

abbreviation require_health :: "bool \<Rightarrow> string \<Rightarrow> unit health_result" where
  "require_health b m \<equiv> checkE b (HealthValidationError m)"

fun str_in :: "pyval \<Rightarrow> string list \<Rightarrow> bool" where
  "str_in (PStr s) xs \<longleftrightarrow> s \<in> set xs"
| "str_in v xs \<longleftrightarrow> False"

fun str_of :: "pyval \<Rightarrow> string" where
  "str_of (PStr s) = s"
| "str_of v = []"

fun opt_str :: "string option \<Rightarrow> pyval" where
  "opt_str None = PNone"
| "opt_str (Some s) = PStr s"

record health_probe =
  hp_status :: string
  hp_reason :: "string option"
  hp_action :: "string option"

definition make_probe :: "pyval \<Rightarrow> pyval \<Rightarrow> pyval \<Rightarrow> health_probe health_result" where
  "make_probe st reason action =
     bindE (require_health (str_in st HEALTH_STAGE_STATUSES) ''health probe status is invalid'') (\<lambda>_.
     if st = PStr ''verified''
     then bindE (require_health (reason = PNone \<and> action = PNone)
            ''verified health probe cannot contain failure fields'') (\<lambda>_.
          Inr \<lparr>hp_status = ''verified'', hp_reason = None, hp_action = None\<rparr>)
     else bindE (require_health (str_in reason HEALTH_REASONS) ''health probe reason is not allowlisted'') (\<lambda>_.
          bindE (require_health (str_in action HEALTH_ACTIONS) ''health probe next action is not allowlisted'') (\<lambda>_.
          Inr \<lparr>hp_status = str_of st, hp_reason = Some (str_of reason), hp_action = Some (str_of action)\<rparr>)))"

definition probe_verified :: "health_probe health_result" where
  "probe_verified = make_probe (PStr ''verified'') PNone PNone"

definition probe_unavailable :: "string \<Rightarrow> string \<Rightarrow> health_probe health_result" where
  "probe_unavailable reason action = make_probe (PStr ''unavailable'') (PStr reason) (PStr action)"

definition probe_timed_out :: "string \<Rightarrow> string \<Rightarrow> health_probe health_result" where
  "probe_timed_out reason action = make_probe (PStr ''timed_out'') (PStr reason) (PStr action)"

definition probe_unsupported :: "health_probe health_result" where
  "probe_unsupported = make_probe (PStr ''unsupported'') (PStr ''unsupported'') (PStr ''check_endpoint_capabilities'')"

record health_stage =
  hs_name :: string
  hs_status :: string
  hs_reason :: "string option"
  hs_action :: "string option"

definition make_stage :: "pyval \<Rightarrow> pyval \<Rightarrow> pyval \<Rightarrow> pyval \<Rightarrow> health_stage health_result" where
  "make_stage name st reason action =
     bindE (require_health (str_in name HEALTH_STAGE_ORDER) ''health stage name is invalid'') (\<lambda>_.
     bindE (make_probe st reason action) (\<lambda>p.
     Inr \<lparr>hs_name = str_of name, hs_status = hp_status p, hs_reason = hp_reason p, hs_action = hp_action p\<rparr>))"

definition stage_from_probe :: "string \<Rightarrow> health_probe \<Rightarrow> health_stage health_result" where
  "stage_from_probe name p =
     make_stage (PStr name) (PStr (hp_status p)) (opt_str (hp_reason p)) (opt_str (hp_action p))"

definition stage_probe_of :: "health_stage \<Rightarrow> health_probe health_result" where
  "stage_probe_of st = make_probe (PStr (hs_status st)) (opt_str (hs_reason st)) (opt_str (hs_action st))"



record health_delivery =
  hd_status :: string
  hd_activity :: "string option"
  hd_reason :: "string option"

definition make_delivery :: "pyval \<Rightarrow> pyval \<Rightarrow> pyval \<Rightarrow> health_delivery health_result" where
  "make_delivery st activity reason =
     bindE (require_health (str_in st HEALTH_DELIVERY_STATUSES) ''health delivery status is invalid'') (\<lambda>_.
     bindE (require_health (activity = PNone \<or> str_in activity HEALTH_ACTIVITIES)
              ''health delivery activity is invalid'') (\<lambda>_.
     bindE (if st = PStr ''unavailable''
            then require_health (reason = PStr ''delivery_state_unavailable'')
              ''unavailable delivery state has an invalid reason''
            else require_health (reason = PNone) ''delivery state reason is not allowed'') (\<lambda>_.
     bindE (require_health (\<not> (st = PStr ''idle'' \<and> activity \<noteq> PNone)) ''idle delivery state cannot have activity'') (\<lambda>_.
     bindE (require_health (\<not> (st = PStr ''active'' \<and> activity = PNone)) ''active delivery state requires activity'') (\<lambda>_.
     Inr \<lparr>hd_status = str_of st, hd_activity = (if activity = PNone then None else Some (str_of activity)),
          hd_reason = (if reason = PNone then None else Some (str_of reason))\<rparr>)))))"

definition delivery_unavailable :: "health_delivery health_result" where
  "delivery_unavailable = make_delivery (PStr ''unavailable'') PNone (PStr ''delivery_state_unavailable'')"


section \<open>The complete result\<close>

definition overall_status :: "(string \<times> health_probe) list \<Rightarrow> string" where
  "overall_status results =
     (if list_ex (\<lambda>n. case map_of results n of None \<Rightarrow> True | Some p \<Rightarrow> hp_status p \<noteq> ''verified'')
           [''route'', ''authorization'', ''bridge'', ''standard''] then ''unavailable''
      else case map_of results ''device_local'' of
          None \<Rightarrow> ''degraded''
        | Some p \<Rightarrow> if hp_status p \<noteq> ''verified'' then ''degraded'' else ''healthy'')"

record health_report =
  hr_correlation :: string
  hr_status :: string
  hr_stages :: "health_stage list"
  hr_delivery :: health_delivery

definition CORRELATION_ALPHABET :: string where
  "CORRELATION_ALPHABET = ''abcdefghijklmnopqrstuvwxyzABCDEFGHIJKLMNOPQRSTUVWXYZ0123456789-_''"

fun correlation_ok :: "pyval \<Rightarrow> bool" where
  "correlation_ok (PStr s) \<longleftrightarrow> take 5 s = ''corr-'' \<and> 6 \<le> length s \<and> length s \<le> 128
     \<and> list_all (\<lambda>c. c \<in> set CORRELATION_ALPHABET) s"
| "correlation_ok v \<longleftrightarrow> False"

definition named_probe :: "health_stage \<Rightarrow> (string \<times> health_probe) health_result" where
  "named_probe st = bindE (stage_probe_of st) (\<lambda>p. Inr (hs_name st, p))"

definition make_report :: "pyval \<Rightarrow> string \<Rightarrow> health_stage list \<Rightarrow> health_delivery \<Rightarrow> health_report health_result" where
  "make_report correlation st stages delivery =
     bindE (require_health (correlation_ok correlation) ''health correlation ID is invalid'') (\<lambda>_.
     bindE (require_health (st \<in> set HEALTH_OVERALL_STATUSES) ''health overall status is invalid'') (\<lambda>_.
     bindE (require_health (stages \<noteq> []) ''health stages must be a non-empty tuple'') (\<lambda>_.
     bindE (require_health (length stages \<le> length HEALTH_STAGE_ORDER) ''health stage count exceeds the bound'') (\<lambda>_.
     bindE (require_health (distinct (map hs_name stages)) ''health stages must have unique names'') (\<lambda>_.
     bindE (require_health (list_all (\<lambda>n. n \<in> set (map hs_name stages))
              [''route'', ''authorization'', ''bridge'', ''standard'']) ''health result is missing a required stage'') (\<lambda>_.
     bindE (mapE named_probe stages) (\<lambda>results.
     bindE (require_health (st = overall_status results) ''health overall status does not match stages'') (\<lambda>_.
     Inr \<lparr>hr_correlation = str_of correlation, hr_status = st, hr_stages = stages, hr_delivery = delivery\<rparr>))))))))"




section \<open>Calls to the ports\<close>

text \<open>
  What an operation started on its own thread does within the time it is given: it returns
  an object, raises an \<open>Exception\<close>, ends its thread in another way, or is still running.
  An object of the expected class is \<open>Some\<close>, any other \<open>None\<close>.
\<close>

datatype 'a port_call = Returned "'a option" | RaisedException | ThreadDied | StillRunning

fun bounded_call :: "'a port_call \<Rightarrow> (unit, 'a option \<times> bool) result" where
  "bounded_call StillRunning = Inr (None, True)"
| "bounded_call RaisedException = Inl ()"
| "bounded_call ThreadDied = Inr (None, False)"
| "bounded_call (Returned x) = Inr (x, False)"

definition reason_for_stage :: "string \<Rightarrow> string" where
  "reason_for_stage st = the (map_of [(''route'', ''route_unavailable''),
     (''authorization'', ''authorization_unavailable''), (''bridge'', ''bridge_unavailable''),
     (''standard'', ''standard_unavailable''), (''device_local'', ''unsupported'')] st)"

definition action_for_stage :: "string \<Rightarrow> string" where
  "action_for_stage st = the (map_of [(''route'', ''retry_health_check''),
     (''authorization'', ''refresh_pairing''), (''bridge'', ''inspect_home_bridge''),
     (''standard'', ''inspect_standard_gateway''), (''device_local'', ''check_endpoint_capabilities'')] st)"

definition default_probe :: "string \<Rightarrow> health_probe health_result" where
  "default_probe st =
     (if st = ''route'' then probe_verified
      else if st = ''device_local'' then probe_unsupported
      else probe_unavailable (if st = ''bridge'' then ''health_provider_unavailable'' else ''standard_not_configured'')
        (action_for_stage st))"

definition invoke_probe :: "string \<Rightarrow> health_probe port_call \<Rightarrow> health_probe health_result" where
  "invoke_probe st call = (case bounded_call call of
       Inl _ \<Rightarrow> probe_unavailable (reason_for_stage st) (action_for_stage st)
     | Inr (result, timed_out) \<Rightarrow>
         if timed_out
         then probe_timed_out (if st = ''standard'' then ''standard_timeout'' else ''probe_timeout'') (action_for_stage st)
         else case result of
             None \<Rightarrow> probe_unavailable ''probe_failed'' (action_for_stage st)
           | Some p \<Rightarrow> Inr p)"

type_synonym probe_port = "string \<Rightarrow> rat \<Rightarrow> health_probe port_call"
type_synonym delivery_port = "rat \<Rightarrow> health_delivery port_call"

definition read_delivery :: "delivery_port option \<Rightarrow> rat \<Rightarrow> health_delivery health_result" where
  "read_delivery port timeout = (case port of
       None \<Rightarrow> make_delivery (PStr ''idle'') PNone PNone
     | Some f \<Rightarrow>
         if timeout \<le> 0 then delivery_unavailable
         else case bounded_call (f timeout) of
             Inl _ \<Rightarrow> delivery_unavailable
           | Inr (result, timed_out) \<Rightarrow>
               if timed_out then delivery_unavailable
               else case result of None \<Rightarrow> delivery_unavailable | Some d \<Rightarrow> Inr d)"

section \<open>The check\<close>

definition deadline_at :: "rat \<Rightarrow> pyfloat option \<Rightarrow> rat health_result" where
  "deadline_at timeout clk =
     (if timeout \<le> 0 then unhealthy ''health timeout must be positive''
      else case clk of Some (Fin t) \<Rightarrow> Inr (t + timeout) | _ \<Rightarrow> unhealthy ''health deadline is invalid'')"

fun health_deadline :: "pyval \<Rightarrow> pyfloat option \<Rightarrow> rat health_result" where
  "health_deadline (PInt n) clk = (case float_of_int n of
       None \<Rightarrow> Inl HealthOverflowError | Some q \<Rightarrow> deadline_at q clk)"
| "health_deadline (PFloat (Fin q)) clk = deadline_at q clk"
| "health_deadline v clk = unhealthy ''health timeout must be positive''"

definition health_remaining :: "rat \<Rightarrow> pyfloat option \<Rightarrow> rat health_result" where
  "health_remaining deadline clk = (case clk of
       Some (Fin t) \<Rightarrow> Inr (max 0 (deadline - t))
     | _ \<Rightarrow> unhealthy ''health remaining time is invalid'')"

definition stage_probe :: "probe_port option \<Rightarrow> string \<Rightarrow> rat \<Rightarrow> health_probe health_result" where
  "stage_probe port name remaining =
     (if remaining \<le> 0 then probe_timed_out ''probe_timeout'' ''retry_health_check''
      else case port of
          None \<Rightarrow> default_probe name
        | Some f \<Rightarrow> invoke_probe name (f name remaining))"

text \<open>One turn of the loop per stage; \<open>clk i\<close> is the \<open>i\<close>-th reading of the clock.\<close>

fun run_stages :: "probe_port option \<Rightarrow> rat \<Rightarrow> (nat \<Rightarrow> pyfloat option) \<Rightarrow> nat \<Rightarrow> string list
    \<Rightarrow> ((string \<times> health_probe) \<times> health_stage) list health_result" where
  "run_stages port deadline clk i [] = Inr []"
| "run_stages port deadline clk i (name # names) =
     bindE (health_remaining deadline (clk i)) (\<lambda>remaining.
     bindE (stage_probe port name remaining) (\<lambda>p.
     bindE (stage_from_probe name p) (\<lambda>st.
     bindE (run_stages port deadline clk (Suc i) names) (\<lambda>rest. Inr (((name, p), st) # rest)))))"

definition stage_index :: "health_stage \<Rightarrow> nat" where
  "stage_index st = length (takeWhile (\<lambda>n. n \<noteq> hs_name st) HEALTH_STAGE_ORDER)"

definition PROBED_STAGES :: "string list" where
  "PROBED_STAGES = [''route'', ''bridge'', ''standard'', ''device_local'']"

definition run_health_check :: "pyval \<Rightarrow> health_probe \<Rightarrow> probe_port option \<Rightarrow> delivery_port option \<Rightarrow> pyval
    \<Rightarrow> (nat \<Rightarrow> pyfloat option) \<Rightarrow> health_report health_result" where
  "run_health_check correlation authorization port delivery_port timeout clk =
     bindE (health_deadline timeout (clk 0)) (\<lambda>deadline.
     bindE (stage_from_probe ''authorization'' authorization) (\<lambda>auth.
     if hp_status authorization \<noteq> ''verified''
     then bindE (probe_unavailable ''authorization_unavailable'' ''refresh_pairing'') (\<lambda>blocked.
          bindE (mapE (\<lambda>name. stage_from_probe name blocked) PROBED_STAGES) (\<lambda>stages.
          bindE delivery_unavailable (\<lambda>d.
          make_report correlation ''unavailable'' (sort_key stage_index (auth # stages)) d)))
     else bindE (run_stages port deadline clk 1 PROBED_STAGES) (\<lambda>runs.
          bindE (health_remaining deadline (clk 5)) (\<lambda>left.
          bindE (read_delivery delivery_port left) (\<lambda>d.
          make_report correlation (overall_status ((''authorization'', authorization) # map fst runs))
            (sort_key stage_index (auth # map snd runs)) d)))))"

section \<open>The bounded body\<close>


definition QUOTE :: char where "QUOTE = char_of (34 :: nat)"







section \<open>Valid values\<close>

definition probe_ok :: "health_probe \<Rightarrow> bool" where
  "probe_ok p \<longleftrightarrow> hp_status p \<in> set HEALTH_STAGE_STATUSES
     \<and> (if hp_status p = ''verified'' then hp_reason p = None \<and> hp_action p = None
        else (\<exists>r \<in> set HEALTH_REASONS. hp_reason p = Some r) \<and> (\<exists>a \<in> set HEALTH_ACTIONS. hp_action p = Some a))"

definition probe_of :: "health_stage \<Rightarrow> health_probe" where
  "probe_of st = \<lparr>hp_status = hs_status st, hp_reason = hs_reason st, hp_action = hs_action st\<rparr>"

definition stage_ok :: "health_stage \<Rightarrow> bool" where
  "stage_ok st \<longleftrightarrow> hs_name st \<in> set HEALTH_STAGE_ORDER \<and> probe_ok (probe_of st)"

definition delivery_ok :: "health_delivery \<Rightarrow> bool" where
  "delivery_ok d \<longleftrightarrow> hd_status d \<in> set HEALTH_DELIVERY_STATUSES
     \<and> (\<forall>a. hd_activity d = Some a \<longrightarrow> a \<in> set HEALTH_ACTIVITIES)
     \<and> hd_reason d = (if hd_status d = ''unavailable'' then Some ''delivery_state_unavailable'' else None)
     \<and> (hd_status d = ''idle'' \<longrightarrow> hd_activity d = None) \<and> (hd_status d = ''active'' \<longrightarrow> hd_activity d \<noteq> None)"

lemma str_in_iff: "str_in v xs \<longleftrightarrow> (\<exists>s \<in> set xs. v = PStr s)"
  by (cases v) auto

lemma opt_str_eq [simp]: "opt_str v = PNone \<longleftrightarrow> v = None" "opt_str v = PStr s \<longleftrightarrow> v = Some s"
  by (cases v; simp)+

lemma known_statuses [simp]: "''verified'' \<in> set HEALTH_STAGE_STATUSES" "''unavailable'' \<in> set HEALTH_STAGE_STATUSES"
  "''timed_out'' \<in> set HEALTH_STAGE_STATUSES" "''unsupported'' \<in> set HEALTH_STAGE_STATUSES"
  by (simp_all add: HEALTH_STAGE_STATUSES_def)

lemma known_reasons [simp]: "''unsupported'' \<in> set HEALTH_REASONS" "''probe_timeout'' \<in> set HEALTH_REASONS"
  "''probe_failed'' \<in> set HEALTH_REASONS" "''standard_timeout'' \<in> set HEALTH_REASONS"
  "''authorization_unavailable'' \<in> set HEALTH_REASONS" "''health_provider_unavailable'' \<in> set HEALTH_REASONS"
  "''standard_not_configured'' \<in> set HEALTH_REASONS" "''response_too_large'' \<in> set HEALTH_REASONS"
  by (simp_all add: HEALTH_REASONS_def)

lemma known_actions [simp]: "''check_endpoint_capabilities'' \<in> set HEALTH_ACTIONS" "''retry_health_check'' \<in> set HEALTH_ACTIONS"
  "''refresh_pairing'' \<in> set HEALTH_ACTIONS"
  by (simp_all add: HEALTH_ACTIONS_def)

lemma make_probe_ok: "make_probe st r a = Inr p \<Longrightarrow> probe_ok p"
  by (cases "st = PStr ''verified''") (auto simp: make_probe_def result_simps str_in_iff probe_ok_def)

text \<open>A value already validated passes again, unchanged.\<close>

lemma make_probe_again:
  "probe_ok p \<Longrightarrow> make_probe (PStr (hp_status p)) (opt_str (hp_reason p)) (opt_str (hp_action p)) = Inr p"
  by (auto simp: probe_ok_def make_probe_def str_in_iff split: if_splits)

lemma stage_from_probe_ok:
  assumes "probe_ok p" and "name \<in> set HEALTH_STAGE_ORDER"
  shows "stage_from_probe name p
    = Inr \<lparr>hs_name = name, hs_status = hp_status p, hs_reason = hp_reason p, hs_action = hp_action p\<rparr>"
  using assms by (simp add: stage_from_probe_def make_stage_def make_probe_again)

lemma probe_constants_ok:
  "\<exists>p. probe_verified = Inr p \<and> probe_ok p" "\<exists>p. probe_unsupported = Inr p \<and> probe_ok p"
  "r \<in> set HEALTH_REASONS \<Longrightarrow> a \<in> set HEALTH_ACTIONS \<Longrightarrow> \<exists>p. probe_unavailable r a = Inr p \<and> probe_ok p"
  "r \<in> set HEALTH_REASONS \<Longrightarrow> a \<in> set HEALTH_ACTIONS \<Longrightarrow> \<exists>p. probe_timed_out r a = Inr p \<and> probe_ok p"
  by (simp_all add: probe_verified_def probe_unsupported_def probe_unavailable_def probe_timed_out_def
      make_probe_def probe_ok_def)

lemma delivery_constants_ok: "\<exists>d. delivery_unavailable = Inr d \<and> delivery_ok d"
  "\<exists>d. make_delivery (PStr ''idle'') PNone PNone = Inr d \<and> delivery_ok d"
  by (simp_all add: delivery_unavailable_def make_delivery_def delivery_ok_def HEALTH_DELIVERY_STATUSES_def)

lemma make_delivery_ok: "make_delivery st activity reason = Inr d \<Longrightarrow> delivery_ok d"
  by (auto simp: make_delivery_def result_simps str_in_iff delivery_ok_def split: if_splits)

text \<open>Ports return objects that were constructed, hence checked.\<close>

definition port_ok :: "probe_port option \<Rightarrow> bool" where
  "port_ok port \<longleftrightarrow> (\<forall>f name t p. port = Some f \<longrightarrow> f name t = Returned (Some p) \<longrightarrow> probe_ok p)"

definition delivery_port_ok :: "delivery_port option \<Rightarrow> bool" where
  "delivery_port_ok port \<longleftrightarrow> (\<forall>f t d. port = Some f \<longrightarrow> f t = Returned (Some d) \<longrightarrow> delivery_ok d)"

lemma stage_words:
  assumes "name \<in> set PROBED_STAGES"
  shows "reason_for_stage name \<in> set HEALTH_REASONS" "action_for_stage name \<in> set HEALTH_ACTIONS"
    "name \<in> set HEALTH_STAGE_ORDER"
  using assms by (auto simp: PROBED_STAGES_def reason_for_stage_def action_for_stage_def vocabulary)

lemma invoke_probe_ok:
  assumes "name \<in> set PROBED_STAGES" and "\<And>p. call = Returned (Some p) \<Longrightarrow> probe_ok p"
  shows "\<exists>p. invoke_probe name call = Inr p \<and> probe_ok p"
proof (cases call)
  case (Returned x)
  then show ?thesis
    using assms probe_constants_ok(3) [OF _ stage_words(2) [OF assms(1)]]
    by (cases x) (auto simp: invoke_probe_def)
qed (use assms probe_constants_ok(3,4) [OF _ stage_words(2) [OF assms(1)]] stage_words(1) [OF assms(1)]
    in \<open>auto simp: invoke_probe_def\<close>)

lemma stage_probe_ok:
  assumes "port_ok port" and name: "name \<in> set PROBED_STAGES"
  shows "\<exists>p. stage_probe port name remaining = Inr p \<and> probe_ok p"
proof (cases port)
  case None
  then show ?thesis
    using probe_constants_ok stage_words(2) [OF name] by (auto simp: stage_probe_def default_probe_def)
next
  case (Some f)
  then have "\<exists>p. invoke_probe name (f name remaining) = Inr p \<and> probe_ok p"
    using assms by (intro invoke_probe_ok) (auto simp: port_ok_def)
  then show ?thesis
    using Some probe_constants_ok(4) by (auto simp: stage_probe_def)
qed

lemma read_delivery_ok:
  assumes "delivery_port_ok port"
  shows "\<exists>d. read_delivery port timeout = Inr d \<and> delivery_ok d"
proof (cases port)
  case None
  then show ?thesis using delivery_constants_ok by (simp add: read_delivery_def)
next
  case (Some f)
  have "\<exists>d. (case bounded_call (f timeout) of Inl _ \<Rightarrow> delivery_unavailable
      | Inr (result, timed_out) \<Rightarrow> if timed_out then delivery_unavailable
          else case result of None \<Rightarrow> delivery_unavailable | Some d \<Rightarrow> Inr d) = Inr d \<and> delivery_ok d"
  proof (cases "f timeout")
    case (Returned x)
    then show ?thesis using assms Some delivery_constants_ok by (cases x) (auto simp: delivery_port_ok_def)
  qed (use delivery_constants_ok in auto)
  then show ?thesis using Some delivery_constants_ok by (auto simp: read_delivery_def)
qed

definition named_stage :: "string \<Rightarrow> health_probe \<Rightarrow> health_stage" where
  "named_stage name p = \<lparr>hs_name = name, hs_status = hp_status p, hs_reason = hp_reason p, hs_action = hp_action p\<rparr>"

text \<open>A complete report of five valid stages is accepted, in the order of the stages.\<close>

lemma five_stages_report:
  assumes "correlation_ok corr" and ok: "probe_ok a" "probe_ok r" "probe_ok b" "probe_ok s" "probe_ok d"
    and st: "st = overall_status [(''authorization'', a), (''route'', r), (''bridge'', b), (''standard'', s), (''device_local'', d)]"
  shows "make_report corr st (sort_key stage_index [named_stage ''authorization'' a, named_stage ''route'' r,
        named_stage ''bridge'' b, named_stage ''standard'' s, named_stage ''device_local'' d]) del
    = Inr \<lparr>hr_correlation = str_of corr, hr_status = st, hr_stages = [named_stage ''route'' r,
        named_stage ''authorization'' a, named_stage ''bridge'' b, named_stage ''standard'' s, named_stage ''device_local'' d],
        hr_delivery = del\<rparr>"
proof -
  have sorted: "sort_key stage_index [named_stage ''authorization'' a, named_stage ''route'' r,
        named_stage ''bridge'' b, named_stage ''standard'' s, named_stage ''device_local'' d]
    = [named_stage ''route'' r, named_stage ''authorization'' a, named_stage ''bridge'' b, named_stage ''standard'' s,
        named_stage ''device_local'' d]"
    by (simp add: named_stage_def stage_index_def HEALTH_STAGE_ORDER_def)
  have again: "named_probe (named_stage n p) = Inr (n, p)" if "probe_ok p" for n p
    using make_probe_again [OF that] by (simp add: named_probe_def named_stage_def stage_probe_of_def)
  have same: "overall_status [(''route'', r), (''authorization'', a), (''bridge'', b), (''standard'', s), (''device_local'', d)] = st"
    by (simp add: st overall_status_def)
  moreover have "st \<in> set HEALTH_OVERALL_STATUSES"
    by (simp add: st overall_status_def HEALTH_OVERALL_STATUSES_def)
  ultimately show ?thesis
    using assms(1) ok unfolding sorted
    by (simp add: make_report_def again HEALTH_STAGE_ORDER_def) (simp add: named_stage_def)
qed

definition report_status :: "health_stage list \<Rightarrow> string" where
  "report_status stages =
     (if list_all (\<lambda>st. hs_status st = ''verified'') stages then ''healthy''
      else if list_all (\<lambda>st. hs_status st = ''verified'') (take 4 stages) then ''degraded'' else ''unavailable'')"

lemma run_probed:
  assumes port: "port_ok port" and readings: "\<And>i. 1 \<le> i \<Longrightarrow> i \<le> 5 \<Longrightarrow> clk i = Some (Fin (reading i))"
  obtains r b s d where "run_stages port deadline clk 1 PROBED_STAGES = Inr [((''route'', r), named_stage ''route'' r),
      ((''bridge'', b), named_stage ''bridge'' b), ((''standard'', s), named_stage ''standard'' s),
      ((''device_local'', d), named_stage ''device_local'' d)]"
    "probe_ok r" "probe_ok b" "probe_ok s" "probe_ok d"
    "stage_probe port ''route'' (max 0 (deadline - reading 1)) = Inr r"
    "stage_probe port ''bridge'' (max 0 (deadline - reading 2)) = Inr b"
    "stage_probe port ''standard'' (max 0 (deadline - reading 3)) = Inr s"
    "stage_probe port ''device_local'' (max 0 (deadline - reading 4)) = Inr d"
proof -
  have names: "''route'' \<in> set PROBED_STAGES" "''bridge'' \<in> set PROBED_STAGES" "''standard'' \<in> set PROBED_STAGES"
    "''device_local'' \<in> set PROBED_STAGES" by (simp_all add: PROBED_STAGES_def)
  note probe = stage_probe_ok [OF port]
  obtain r where r: "stage_probe port ''route'' (max 0 (deadline - reading 1)) = Inr r" "probe_ok r"
    using probe [OF names(1)] by blast
  obtain b where b: "stage_probe port ''bridge'' (max 0 (deadline - reading 2)) = Inr b" "probe_ok b"
    using probe [OF names(2)] by blast
  obtain s where s: "stage_probe port ''standard'' (max 0 (deadline - reading 3)) = Inr s" "probe_ok s"
    using probe [OF names(3)] by blast
  obtain d where d: "stage_probe port ''device_local'' (max 0 (deadline - reading 4)) = Inr d" "probe_ok d"
    using probe [OF names(4)] by blast
  have left: "health_remaining deadline (clk i) = Inr (max 0 (deadline - reading i))" if "1 \<le> i" "i \<le> 5" for i
    using readings [OF that] by (simp add: health_remaining_def)
  have stage: "stage_from_probe n p = Inr (named_stage n p)" if "n \<in> set PROBED_STAGES" "probe_ok p" for n p
    using stage_from_probe_ok [OF that(2) stage_words(3) [OF that(1)]] by (simp add: named_stage_def)
  have "run_stages port deadline clk 1 PROBED_STAGES = Inr [((''route'', r), named_stage ''route'' r),
      ((''bridge'', b), named_stage ''bridge'' b), ((''standard'', s), named_stage ''standard'' s),
      ((''device_local'', d), named_stage ''device_local'' d)]"
    using r b s d stage names left [of 1] left [of 2] left [of 3] left [of 4]
    by (simp add: PROBED_STAGES_def numeral_eq_Suc)
  with r b s d show thesis by (intro that) auto
qed

lemma health_check_report:
  assumes corr: "correlation_ok corr" and auth: "probe_ok auth"
    and ports: "port_ok port" "delivery_port_ok dport"
    and deadline: "health_deadline timeout (clk 0) = Inr deadline"
    and readings: "\<And>i. 1 \<le> i \<Longrightarrow> i \<le> 5 \<Longrightarrow> clk i = Some (Fin (reading i))"
  shows "\<exists>r. run_health_check corr auth port dport timeout clk = Inr r
    \<and> map hs_name (hr_stages r) = HEALTH_STAGE_ORDER \<and> list_all stage_ok (hr_stages r) \<and> delivery_ok (hr_delivery r)
    \<and> hr_status r = report_status (hr_stages r)"
proof -
  have a: "stage_from_probe ''authorization'' auth = Inr (named_stage ''authorization'' auth)"
    using stage_from_probe_ok [OF auth] by (simp add: named_stage_def HEALTH_STAGE_ORDER_def)
  have ok: "stage_ok (named_stage n p)" if "probe_ok p" "n \<in> set HEALTH_STAGE_ORDER" for n p
    using that by (cases p) (simp add: stage_ok_def named_stage_def probe_of_def)
  have good: ?thesis
    if run: "run_health_check corr auth port dport timeout clk = make_report corr (overall_status [(''authorization'', auth),
          (''route'', r), (''bridge'', b), (''standard'', s), (''device_local'', d)])
        (sort_key stage_index [named_stage ''authorization'' auth, named_stage ''route'' r, named_stage ''bridge'' b,
          named_stage ''standard'' s, named_stage ''device_local'' d]) dlv"
      and p: "probe_ok r" "probe_ok b" "probe_ok s" "probe_ok d" "delivery_ok dlv" for r b s d dlv
    unfolding run five_stages_report [OF corr auth p(1-4) refl]
    using p auth ok by (auto simp: report_status_def overall_status_def named_stage_def HEALTH_STAGE_ORDER_def)
  show ?thesis
  proof (cases "hp_status auth = ''verified''")
    case False
    obtain q where q: "probe_unavailable ''authorization_unavailable'' ''refresh_pairing'' = Inr q" "probe_ok q"
      using probe_constants_ok(3) [of "''authorization_unavailable''" "''refresh_pairing''"] by auto
    obtain dlv where dlv: "delivery_unavailable = Inr dlv" "delivery_ok dlv" using delivery_constants_ok(1) by blast
    have blocked: "mapE (\<lambda>name. stage_from_probe name q) PROBED_STAGES = Inr (map (\<lambda>n. named_stage n q) PROBED_STAGES)"
      by (rule mapE_total) (use stage_from_probe_ok [OF q(2) stage_words(3)] in \<open>simp add: named_stage_def\<close>)
    show ?thesis
      by (rule good [of q q q q dlv])
        (use False q dlv(2) in
          \<open>simp_all add: run_health_check_def blocked deadline a dlv(1) overall_status_def del: sort_key_simps\<close>,
         simp add: PROBED_STAGES_def)
  next
    case True
    obtain r b s d where run: "run_stages port deadline clk 1 PROBED_STAGES = Inr [((''route'', r), named_stage ''route'' r),
      ((''bridge'', b), named_stage ''bridge'' b), ((''standard'', s), named_stage ''standard'' s),
      ((''device_local'', d), named_stage ''device_local'' d)]" and p: "probe_ok r" "probe_ok b" "probe_ok s" "probe_ok d"
      by (rule run_probed [OF ports(1) readings])
    obtain dlv where dlv: "read_delivery dport (max 0 (deadline - reading 5)) = Inr dlv" "delivery_ok dlv"
      using read_delivery_ok [OF ports(2)] by blast
    have "health_remaining deadline (clk 5) = Inr (max 0 (deadline - reading 5))"
      using readings [of 5] by (simp add: health_remaining_def)
    then show ?thesis
      by (intro good [of r b s d dlv])
        (use True run p dlv deadline a in \<open>simp_all add: run_health_check_def del: sort_key_simps\<close>)
  qed
qed

text \<open>
  C33. A health check always answers. Whatever the ports do (return any validated value or
  another object, raise, end their thread or run on), the check returns a report with
  exactly one valid stage of every name, in the fixed order, a valid delivery state and the
  overall status its stages determine: healthy when all are verified, degraded when only the
  Device's own stage is not, unavailable otherwise.
\<close>

theorem health_check_answers:
  assumes corr: "correlation_ok corr" and auth: "probe_ok auth"
    and ports: "port_ok port" "delivery_port_ok dport"
    and deadline: "health_deadline timeout (clk 0) = Inr deadline"
    and readings: "\<And>i. 1 \<le> i \<Longrightarrow> i \<le> 5 \<Longrightarrow> clk i = Some (Fin (reading i))"
  shows "\<exists>r. run_health_check corr auth port dport timeout clk = Inr r
    \<and> map hs_name (hr_stages r) = HEALTH_STAGE_ORDER \<and> list_all stage_ok (hr_stages r) \<and> delivery_ok (hr_delivery r)
    \<and> hr_status r = report_status (hr_stages r)"
  using assms by (rule health_check_report)

definition demo_port :: probe_port where
  "demo_port name t = (if name = ''route'' then Returned (Some \<lparr>hp_status = ''verified'', hp_reason = None, hp_action = None\<rparr>)
     else if name = ''bridge'' then RaisedException else if name = ''standard'' then StillRunning else ThreadDied)"

theorem health_check_answers_witness:
  "\<exists>r. run_health_check (PStr ''corr-1'') \<lparr>hp_status = ''verified'', hp_reason = None, hp_action = None\<rparr>
      (Some demo_port) None (PInt 5) (\<lambda>i. Some (Fin (of_nat i))) = Inr r
    \<and> map hs_name (hr_stages r) = HEALTH_STAGE_ORDER \<and> hr_status r = report_status (hr_stages r)"
proof -
  have "\<exists>r. run_health_check (PStr ''corr-1'') \<lparr>hp_status = ''verified'', hp_reason = None, hp_action = None\<rparr>
      (Some demo_port) None (PInt 5) (\<lambda>i. Some (Fin (of_nat i))) = Inr r
    \<and> map hs_name (hr_stages r) = HEALTH_STAGE_ORDER \<and> list_all stage_ok (hr_stages r) \<and> delivery_ok (hr_delivery r)
    \<and> hr_status r = report_status (hr_stages r)"
  proof (rule health_check_answers [where reading = of_nat and deadline = 5])
    show "correlation_ok (PStr ''corr-1'')" by code_simp
    show "probe_ok \<lparr>hp_status = ''verified'', hp_reason = None, hp_action = None\<rparr>" by (simp add: probe_ok_def)
    show "port_ok (Some demo_port)" by (auto simp: port_ok_def demo_port_def probe_ok_def split: if_splits)
    show "delivery_port_ok None" by (simp add: delivery_port_ok_def)
    show "health_deadline (PInt 5) (Some (Fin (of_nat 0))) = Inr 5"
      using float_of_int_exact [of 5] by (simp add: deadline_at_def)
  qed simp
  then show ?thesis by blast
qed

section \<open>The size of a report\<close>






lemma ord_QUOTE [simp]: "ord_of QUOTE < 128"
  by (simp add: QUOTE_def ord_of_def)



















end
