(* ===== verification/Watch.thy ===== *)
theory Watch
  imports Health
begin

text \<open>
  The Watch View (\<open>domain/watch.py\<close>): the snapshot of one endpoint's activity with the
  checks its constructor makes, the route fields a response may carry and the summary shown
  for an activity.
\<close>

definition WATCH_ACTIVITY_STATES :: "string list" where
  "WATCH_ACTIVITY_STATES = [''ready'', ''open'', ''capture'', ''turn'', ''playback'', ''response_ready'',
     ''playback_complete'', ''idle'']"

definition WATCH_ROUTE_CLASSES :: "string list" where "WATCH_ROUTE_CLASSES = [''home'']"
definition WATCH_ROUTE_FIELDS :: "string list" where "WATCH_ROUTE_FIELDS = [''class'', ''id'']"
definition WATCH_HEALTH_STATES :: "string list" where "WATCH_HEALTH_STATES = [''ready'']"

datatype watch_error = WatchTypeError string | WatchValueError string

type_synonym 'a watch_result = "(watch_error, 'a) result"

abbreviation require_watch :: "bool \<Rightarrow> string \<Rightarrow> unit watch_result" where
  "require_watch b m \<equiv> checkE b (WatchValueError m)"

fun bounded_line :: "pyval \<Rightarrow> string \<Rightarrow> string watch_result" where
  "bounded_line (PStr s) fld =
     bindE (require_watch (bounded_text_128 s) (fld @ '' must be a string of 1-128 characters'')) (\<lambda>_.
     bindE (require_watch (\<not> list_ex (\<lambda>c. ord_of c = 13 \<or> ord_of c = 10) s) (fld @ '' must not contain line breaks'')) (\<lambda>_.
     Inr s))"
| "bounded_line v fld = Inl (WatchValueError (fld @ '' must be a string of 1-128 characters''))"

text \<open>A list or dictionary is not hashable, so testing it against a set raises \<open>TypeError\<close>.\<close>

fun hashable :: "pyval \<Rightarrow> bool" where
  "hashable (PList xs) \<longleftrightarrow> False"
| "hashable (PDict d) \<longleftrightarrow> False"
| "hashable v \<longleftrightarrow> True"

record watch_route =
  wr_class :: string
  wr_id :: string

fun serialize_watch_route :: "pyval \<Rightarrow> watch_route watch_result" where
  "serialize_watch_route (PDict d) =
     bindE (require_watch (has_exactly d WATCH_ROUTE_FIELDS) ''watch route contains unsupported fields'') (\<lambda>_.
     bindE (checkE (hashable (dfield d ''class'')) (WatchTypeError ''unhashable type'')) (\<lambda>_.
     bindE (require_watch (str_in (dfield d ''class'') WATCH_ROUTE_CLASSES) ''watch route class is invalid'') (\<lambda>_.
     bindE (bounded_line (dfield d ''id'') ''route.id'') (\<lambda>i.
     Inr \<lparr>wr_class = str_of (dfield d ''class''), wr_id = i\<rparr>))))"
| "serialize_watch_route v = Inl (WatchTypeError ''watch route must be an object'')"

definition route_record :: "watch_route \<Rightarrow> pyval" where
  "route_record r = obj [(''class'', PStr (wr_class r)), (''id'', PStr (wr_id r))]"

record watch_view =
  ws_device :: string
  ws_profile :: string
  ws_revision :: int
  ws_generation :: "int option"
  ws_activity :: string
  ws_route :: pyval
  ws_health :: string
  ws_session :: bool

definition make_watch_view :: "watch_view \<Rightarrow> watch_view watch_result" where
  "make_watch_view w =
     bindE (bounded_line (PStr (ws_device w)) ''device_id'') (\<lambda>_.
     bindE (bounded_line (PStr (ws_profile w)) ''profile_id'') (\<lambda>_.
     bindE (require_watch (0 \<le> ws_revision w) ''configuration revision must be a non-negative integer'') (\<lambda>_.
     bindE (require_watch (case ws_generation w of None \<Rightarrow> True | Some g \<Rightarrow> 1 \<le> g)
              ''credential generation must be a positive integer'') (\<lambda>_.
     bindE (require_watch (ws_activity w \<in> set WATCH_ACTIVITY_STATES) ''watch activity state is invalid'') (\<lambda>_.
     bindE (serialize_watch_route (ws_route w)) (\<lambda>_.
     bindE (require_watch (ws_health w \<in> set WATCH_HEALTH_STATES) ''watch health state is invalid'') (\<lambda>_.
     Inr w)))))))"

definition activity_summary :: "string \<Rightarrow> bool \<Rightarrow> string" where
  "activity_summary activity session_present =
     (if activity = ''capture'' then ''Listening''
      else if activity = ''turn'' then ''Processing the current turn''
      else if activity = ''playback'' then ''Speaking''
      else if activity = ''response_ready'' then ''Response ready''
      else if activity = ''idle'' \<and> session_present then ''Conversation idle''
      else if activity = ''playback_complete'' \<and> session_present then ''Conversation ready''
      else if session_present then ''Conversation ready'' else ''Conversation starting'')"

lemma bounded_line_same: "bounded_line v fld = Inr s \<Longrightarrow> v = PStr s"
  by (cases v) (auto simp: result_simps)

lemma serialized_route_again: "serialize_watch_route v = Inr r \<Longrightarrow> serialize_watch_route (route_record r) = Inr r"
proof (cases v)
  case (PDict d)
  assume "serialize_watch_route v = Inr r"
  with PDict obtain i where "str_in (dfield d ''class'') WATCH_ROUTE_CLASSES" "bounded_line (dfield d ''id'') ''route.id'' = Inr i"
    "r = \<lparr>wr_class = str_of (dfield d ''class''), wr_id = i\<rparr>"
    by (auto simp: result_simps)
  moreover from this have "bounded_line (PStr i) ''route.id'' = Inr i" using bounded_line_same by metis
  ultimately show ?thesis
    by (auto simp: route_record_def str_in_iff value_simps has_exactly_def WATCH_ROUTE_FIELDS_def result_simps
        simp del: bounded_line.simps)
qed auto

end
