(* ===== verification/Conversations.thy ===== *)
theory Conversations
  imports Watch Arbitration Transactions
begin

text \<open>
  Conversation claims (\<open>domain/conversations.py\<close>): the store that turns a granted wake into
  a conversation of its Room and keeps one active conversation per Room. The store's lock
  makes every method one step. Dictionaries are association lists in insertion order, the
  readings of the clock and the value of the handle factory are arguments, and a method
  that raises leaves the changes it made before. The authority check that is merely
  attached to this store (\<open>set_paired_room_checker\<close>) is not represented.
\<close>

section \<open>State\<close>

datatype conv_error = ConversationClaimConflict string | ConvValueError string | ConvOverflowError

datatype conversation_kind = PairedRoomConversation | RoomConversation

record conversation =
  cv_claim :: string
  cv_kind :: conversation_kind
  cv_device :: string
  cv_room :: string
  cv_mapping :: string
  cv_profile :: string
  cv_revision :: int
  cv_generation :: "int option"
  cv_active :: bool
  cv_activity :: string
  cv_deadline :: "rat option"
  cv_session :: "string option"
  cv_close_reason :: "string option"

record conversation_store =
  conv_claims :: "(string \<times> conversation) list"
  conv_used :: "string set"
  conv_connected :: "(string \<times> rat) list"
  conv_route :: string
  conv_timeout :: rat

type_synonym 'a conv_op = "(conversation_store, conv_error, 'a) mutation"

definition bad_timeout :: "rat \<Rightarrow> (conv_error, rat) result" where
  "bad_timeout q = (if q \<le> 0 then Inl (ConvValueError ''conversation idle timeout must be positive'') else Inr q)"

fun idle_timeout :: "pyval \<Rightarrow> (conv_error, rat) result" where
  "idle_timeout (PInt n) = (case float_of_int n of None \<Rightarrow> Inl ConvOverflowError | Some q \<Rightarrow> bad_timeout q)"
| "idle_timeout (PFloat (Fin q)) = bad_timeout q"
| "idle_timeout v = Inl (ConvValueError ''conversation idle timeout must be positive'')"

fun bounded_route_id :: "pyval \<Rightarrow> (conv_error, string) result" where
  "bounded_route_id (PStr s) = (if bounded_text_128 s then Inr s
     else Inl (ConvValueError ''watch route ID must be a non-empty bounded string''))"
| "bounded_route_id v = Inl (ConvValueError ''watch route ID must be a non-empty bounded string'')"

definition new_conversation_store :: "pyval \<Rightarrow> pyval \<Rightarrow> (conv_error, conversation_store) result" where
  "new_conversation_store route_id timeout =
     bindE (bounded_route_id route_id) (\<lambda>r.
     bindE (idle_timeout timeout) (\<lambda>t.
     Inr \<lparr>conv_claims = [], conv_used = {}, conv_connected = [], conv_route = r, conv_timeout = t\<rparr>))"

section \<open>Closing\<close>

definition close_conversation :: "string \<Rightarrow> conversation \<Rightarrow> conversation" where
  "close_conversation reason c = c\<lparr>cv_active := False, cv_activity := ''closed'', cv_deadline := None,
     cv_close_reason := Some reason\<rparr>"

definition close_handle :: "string \<Rightarrow> string \<Rightarrow> conversation_store \<Rightarrow> conversation_store" where
  "close_handle h reason s = s\<lparr>conv_claims := AList.map_entry h (close_conversation reason) (conv_claims s),
     conv_connected := AList.delete h (conv_connected s)\<rparr>"

text \<open>Every active conversation that satisfies a test is closed, and its handle disconnected.\<close>

definition closing :: "(conversation \<Rightarrow> bool) \<Rightarrow> conversation_store \<Rightarrow> string \<Rightarrow> bool" where
  "closing p s h = (case map_of (conv_claims s) h of None \<Rightarrow> False | Some c \<Rightarrow> cv_active c \<and> p c)"

definition close_matching :: "(conversation \<Rightarrow> bool) \<Rightarrow> string \<Rightarrow> conversation_store \<Rightarrow> conversation_store" where
  "close_matching p reason s = s\<lparr>
     conv_claims := map (\<lambda>(h, c). (h, if cv_active c \<and> p c then close_conversation reason c else c)) (conv_claims s),
     conv_connected := filter (\<lambda>(h, t). \<not> closing p s h) (conv_connected s)\<rparr>"

definition close_claims :: "(conversation \<Rightarrow> bool) \<Rightarrow> string \<Rightarrow> nat conv_op" where
  "close_claims p reason = readM (\<lambda>s.
     bindM (modifyM (close_matching p reason)) (\<lambda>_.
     returnM (length (filter (\<lambda>(h, c). cv_active c \<and> p c) (conv_claims s)))))"

definition overdue :: "rat \<Rightarrow> conversation \<Rightarrow> bool" where
  "overdue now c = (case cv_deadline c of None \<Rightarrow> False | Some t \<Rightarrow> t \<le> now)"

definition expire_due :: "rat \<Rightarrow> conversation_store \<Rightarrow> conversation_store" where
  "expire_due now = close_matching (overdue now) ''idle_expired''"

definition close_device_claims :: "string \<Rightarrow> int option \<Rightarrow> string \<Rightarrow> nat conv_op" where
  "close_device_claims device generation reason =
     close_claims (\<lambda>c. cv_device c = device \<and> (generation = None \<or> cv_generation c \<noteq> generation)) reason"

definition close_profile_claims :: "string list \<Rightarrow> string \<Rightarrow> nat conv_op" where
  "close_profile_claims ids reason = close_claims (\<lambda>c. cv_profile c \<in> set ids) reason"

definition close_mapping_claims :: "string list \<Rightarrow> string \<Rightarrow> nat conv_op" where
  "close_mapping_claims ids reason = close_claims (\<lambda>c. cv_mapping c \<in> set ids) reason"

definition close_paired_room_claims :: "int \<Rightarrow> string \<Rightarrow> nat conv_op" where
  "close_paired_room_claims revision reason =
     close_claims (\<lambda>c. cv_kind c = PairedRoomConversation \<and> cv_revision c \<noteq> revision) reason"

definition close_all_claims :: "string \<Rightarrow> nat conv_op" where
  "close_all_claims reason = close_claims (\<lambda>_. True) reason"

definition close_claim :: "string \<Rightarrow> string option \<Rightarrow> string \<Rightarrow> bool conv_op" where
  "close_claim h device reason = readM (\<lambda>s. case map_of (conv_claims s) h of
       None \<Rightarrow> returnM False
     | Some c \<Rightarrow>
         if device \<noteq> None \<and> Some (cv_device c) \<noteq> device then returnM False
         else bindM (modifyM (if cv_active c then close_handle h reason else id)) (\<lambda>_. returnM True))"

definition close_owned_paired_room_claim :: "string \<Rightarrow> string \<Rightarrow> string list \<Rightarrow> string list \<Rightarrow> bool conv_op" where
  "close_owned_paired_room_claim h device rooms mappings = readM (\<lambda>s. case map_of (conv_claims s) h of
       None \<Rightarrow> returnM False
     | Some c \<Rightarrow>
         if cv_device c \<noteq> device \<or> cv_kind c \<noteq> PairedRoomConversation \<or> cv_room c \<notin> set rooms
            \<or> cv_mapping c \<notin> set mappings then returnM False
         else bindM (modifyM (if cv_active c then close_handle h ''stopped'' else id)) (\<lambda>_. returnM True))"

section \<open>Opening\<close>

text \<open>
  A wake needs a Room without an active conversation. A touch may take over from a
  conversation that waits idle.
\<close>

definition idle_until :: "rat \<Rightarrow> conversation \<Rightarrow> bool" where
  "idle_until now c \<longleftrightarrow> cv_activity c \<in> {''idle'', ''playback_complete''}
     \<and> (case cv_deadline c of None \<Rightarrow> False | Some t \<Rightarrow> now < t)"

fun free_room :: "wake_decision \<Rightarrow> rat \<Rightarrow> (string \<times> conversation) list \<Rightarrow> unit conv_op" where
  "free_room d now [] = returnM ()"
| "free_room d now [(h, c)] =
     (if dec_kind d = TouchClaim
      then if idle_until now c then modifyM (close_handle h ''superseded_by_touch'')
           else raiseM (ConversationClaimConflict
             (if cv_device c = dec_device d then ''conversation_active'' else ''room_busy''))
      else raiseM (ConversationClaimConflict ''conversation_active''))"
| "free_room d now active = raiseM (ConversationClaimConflict ''conversation_active'')"

fun valid_handle :: "pyval \<Rightarrow> (conv_error, string) result" where
  "valid_handle (PStr h) = (if bounded_text_128 h then Inr h else Inl (ConvValueError ''conversation handle is invalid''))"
| "valid_handle v = Inl (ConvValueError ''conversation handle is invalid'')"

definition new_conversation :: "wake_decision \<Rightarrow> int option \<Rightarrow> conversation" where
  "new_conversation d generation = \<lparr>cv_claim = dec_claim_id d,
     cv_kind = (if dec_kind d = PairedRoomClaim then PairedRoomConversation else RoomConversation),
     cv_device = dec_device d, cv_room = dec_room d, cv_mapping = dec_mapping d, cv_profile = dec_profile d,
     cv_revision = dec_revision d, cv_generation = generation, cv_active = True, cv_activity = ''ready'',
     cv_deadline = None, cv_session = None, cv_close_reason = None\<rparr>"

definition create_from_decision :: "wake_decision \<Rightarrow> int option \<Rightarrow> rat \<Rightarrow> pyval \<Rightarrow> string conv_op" where
  "create_from_decision d generation now handle =
     bindM (checkM (dec_decision d = Granted)
              (ConvValueError ''only a granted wake can create a conversation claim'')) (\<lambda>_.
     bindM (modifyM (expire_due now)) (\<lambda>_. readM (\<lambda>s.
     bindM (checkM (dec_claim_id d \<notin> conv_used s) (ConversationClaimConflict ''duplicate_claim'')) (\<lambda>_.
     bindM (free_room d now (filter (\<lambda>(h, c). cv_room c = dec_room d \<and> cv_active c) (conv_claims s))) (\<lambda>_.
     bindM (liftM (valid_handle handle)) (\<lambda>h.
     bindM (modifyM (\<lambda>s. s\<lparr>conv_used := insert (dec_claim_id d) (conv_used s),
         conv_claims := AList.update h (new_conversation d generation) (conv_claims s)\<rparr>)) (\<lambda>_.
     returnM h)))))))"

section \<open>Activity\<close>

definition owned :: "conversation_store \<Rightarrow> string \<Rightarrow> string \<Rightarrow> bool" where
  "owned s h device = (case map_of (conv_claims s) h of
     None \<Rightarrow> False | Some c \<Rightarrow> cv_device c = device \<and> cv_active c)"

definition mark_open :: "string \<Rightarrow> string \<Rightarrow> rat \<Rightarrow> unit conv_op" where
  "mark_open h device now = readM (\<lambda>s.
     if \<not> owned s h device then raiseM (ConvValueError ''conversation claim is no longer active'')
     else modifyM (\<lambda>s. s\<lparr>
       conv_claims := AList.map_entry h (\<lambda>c. c\<lparr>cv_activity := ''open'', cv_deadline := None\<rparr>) (conv_claims s),
       conv_connected := AList.update h now (conv_connected s)\<rparr>))"

text \<open>Up to three readings of the clock: for the expiry, the new deadline and the connection.\<close>

definition record_activity :: "string \<Rightarrow> string \<Rightarrow> string \<Rightarrow> rat \<Rightarrow> rat \<Rightarrow> rat \<Rightarrow> unit conv_op" where
  "record_activity h device activity now1 now2 now3 =
     bindM (checkM (activity \<in> set WATCH_ACTIVITY_STATES) (ConvValueError ''conversation activity state is invalid'')) (\<lambda>_.
     bindM (modifyM (expire_due now1)) (\<lambda>_. readM (\<lambda>s.
     if \<not> owned s h device then raiseM (ConvValueError ''conversation claim is no longer active'')
     else let waiting = activity \<in> {''playback_complete'', ''idle''};
              later = (if waiting then now3 else now2)
       in modifyM (\<lambda>s. s\<lparr>
            conv_claims := AList.map_entry h (\<lambda>c. c\<lparr>cv_activity := activity,
              cv_deadline := (if waiting then Some (now2 + conv_timeout s) else None)\<rparr>) (conv_claims s),
            conv_connected := (if map_of (conv_connected s) h = None then conv_connected s
              else AList.update h later (conv_connected s))\<rparr>))))"

definition mark_disconnected :: "string \<Rightarrow> string \<Rightarrow> unit conv_op" where
  "mark_disconnected h device = readM (\<lambda>s. case map_of (conv_claims s) h of
       None \<Rightarrow> returnM ()
     | Some c \<Rightarrow> if cv_device c = device
         then modifyM (\<lambda>s. s\<lparr>conv_connected := AList.delete h (conv_connected s)\<rparr>) else returnM ())"

section \<open>Views\<close>

definition active_of :: "conversation_store \<Rightarrow> string \<Rightarrow> (string \<times> conversation) list" where
  "active_of s device = filter (\<lambda>(h, c). cv_device c = device \<and> cv_active c) (conv_claims s)"

definition viewed :: "conversation_store \<Rightarrow> string \<Rightarrow> int \<Rightarrow> conversation \<Rightarrow> watch_view" where
  "viewed s device revision c = \<lparr>ws_device = device, ws_profile = cv_profile c, ws_revision = revision,
     ws_generation = cv_generation c, ws_activity = cv_activity c,
     ws_route = obj [(''class'', PStr ''home''), (''id'', PStr (conv_route s))], ws_health = ''ready'',
     ws_session = (case cv_session c of None \<Rightarrow> False | Some x \<Rightarrow> x \<noteq> [])\<rparr>"

definition watch_snapshot :: "string \<Rightarrow> int \<Rightarrow> rat \<Rightarrow> (conversation_store, watch_error, watch_view option) mutation" where
  "watch_snapshot device revision now =
     bindM (modifyM (expire_due now)) (\<lambda>_. readM (\<lambda>s. case active_of s device of
       [(h, c)] \<Rightarrow>
         if cv_revision c \<noteq> revision \<or> map_of (conv_connected s) h = None
            \<or> cv_activity c \<notin> set WATCH_ACTIVITY_STATES then returnM None
         else bindM (liftM (make_watch_view (viewed s device revision c))) (\<lambda>w. returnM (Some w))
     | _ \<Rightarrow> returnM None))"

definition delivery_state :: "string \<Rightarrow> rat \<Rightarrow> (conversation_store, health_error, health_delivery) mutation" where
  "delivery_state device now =
     bindM (modifyM (expire_due now)) (\<lambda>_. readM (\<lambda>s. liftM (case active_of s device of
       [] \<Rightarrow> make_delivery (PStr ''idle'') PNone PNone
     | [(h, c)] \<Rightarrow>
         if cv_activity c \<notin> set HEALTH_ACTIVITIES then delivery_unavailable
         else make_delivery (PStr ''active'') (PStr (cv_activity c)) PNone
     | _ \<Rightarrow> delivery_unavailable)))"

section \<open>Invariant\<close>

abbreviation claim_of :: "conversation_store \<Rightarrow> string \<Rightarrow> conversation option" where
  "claim_of s \<equiv> map_of (conv_claims s)"

abbreviation connected_at :: "conversation_store \<Rightarrow> string \<Rightarrow> rat option" where
  "connected_at s \<equiv> map_of (conv_connected s)"

text \<open>An active conversation has a deadline only while it waits; a closed one says why.\<close>

definition conv_ok :: "conversation \<Rightarrow> bool" where
  "conv_ok c \<longleftrightarrow> (if cv_active c
     then cv_activity c \<in> set WATCH_ACTIVITY_STATES \<and> cv_close_reason c = None
       \<and> (cv_deadline c \<noteq> None \<longrightarrow> cv_activity c \<in> {''idle'', ''playback_complete''})
     else cv_activity c = ''closed'' \<and> cv_close_reason c \<noteq> None \<and> cv_deadline c = None)"

definition conv_inv :: "conversation_store \<Rightarrow> bool" where
  "conv_inv s \<longleftrightarrow> distinct (map fst (conv_claims s)) \<and> distinct (map fst (conv_connected s))
     \<and> (\<forall>h c. claim_of s h = Some c \<longrightarrow> conv_ok c \<and> cv_claim c \<in> conv_used s)
     \<and> (\<forall>h h' c c'. claim_of s h = Some c \<longrightarrow> claim_of s h' = Some c' \<longrightarrow>
          cv_claim c = cv_claim c' \<or> (cv_active c \<and> cv_active c' \<and> cv_room c = cv_room c') \<longrightarrow> h = h')
     \<and> (\<forall>h t. connected_at s h = Some t \<longrightarrow> (\<exists>c. claim_of s h = Some c \<and> cv_active c))"

lemma conv_invD:
  assumes "conv_inv s"
  shows "distinct (map fst (conv_claims s))" and "distinct (map fst (conv_connected s))"
    and "claim_of s h = Some c \<Longrightarrow> conv_ok c \<and> cv_claim c \<in> conv_used s"
    and "claim_of s h = Some c \<Longrightarrow> claim_of s h' = Some c' \<Longrightarrow> cv_claim c = cv_claim c' \<Longrightarrow> h = h'"
    and "claim_of s h = Some c \<Longrightarrow> claim_of s h' = Some c' \<Longrightarrow> cv_active c \<Longrightarrow> cv_active c' \<Longrightarrow> cv_room c = cv_room c' \<Longrightarrow> h = h'"
    and "connected_at s h = Some t \<Longrightarrow> \<exists>c. claim_of s h = Some c \<and> cv_active c"
  using assms unfolding conv_inv_def by blast+

text \<open>What a conversation keeps for its life, and what a step on the store may do to one.\<close>

definition conv_core :: "conversation \<Rightarrow> string \<times> conversation_kind \<times> string \<times> string \<times> string \<times> string \<times> int \<times> int option" where
  "conv_core c = (cv_claim c, cv_kind c, cv_device c, cv_room c, cv_mapping c, cv_profile c, cv_revision c, cv_generation c)"

definition conv_after :: "conversation \<Rightarrow> conversation \<Rightarrow> bool" where
  "conv_after c c' \<longleftrightarrow> conv_core c' = conv_core c \<and> (cv_active c' \<longrightarrow> cv_active c) \<and> (\<not> cv_active c \<longrightarrow> c' = c)
     \<and> (conv_ok c \<longrightarrow> conv_ok c')"

definition conv_step :: "conversation_store \<Rightarrow> conversation_store \<Rightarrow> bool" where
  "conv_step s t \<longleftrightarrow> conv_used t = conv_used s \<and> conv_timeout t = conv_timeout s \<and> conv_route t = conv_route s
     \<and> map fst (conv_claims t) = map fst (conv_claims s) \<and> (distinct (map fst (conv_connected s)) \<longrightarrow> distinct (map fst (conv_connected t)))
     \<and> (\<forall>h c'. claim_of t h = Some c' \<longrightarrow> (\<exists>c. claim_of s h = Some c \<and> conv_after c c'))
     \<and> (conv_inv s \<longrightarrow> (\<forall>h x. connected_at t h = Some x \<longrightarrow> (\<exists>c. claim_of t h = Some c \<and> cv_active c)))"

lemma conv_stepD:
  assumes "conv_step s t"
  shows "conv_used t = conv_used s" "conv_timeout t = conv_timeout s" "conv_route t = conv_route s"
    "map fst (conv_claims t) = map fst (conv_claims s)"
    "distinct (map fst (conv_connected s)) \<Longrightarrow> distinct (map fst (conv_connected t))"
    "claim_of t h = Some c' \<Longrightarrow> \<exists>c. claim_of s h = Some c \<and> conv_after c c'"
    "conv_inv s \<Longrightarrow> connected_at t h = Some x \<Longrightarrow> \<exists>c. claim_of t h = Some c \<and> cv_active c"
  using assms unfolding conv_step_def by blast+

lemma conv_after_refl [simp]: "conv_after c c"
  by (simp add: conv_after_def)

lemma conv_after_trans: "conv_after a b \<Longrightarrow> conv_after b c \<Longrightarrow> conv_after a c"
  unfolding conv_after_def by metis

lemma conv_step_inv:
  assumes "conv_inv s" and "conv_step s t"
  shows "conv_inv t"
  unfolding conv_inv_def
proof (intro conjI allI impI)
  note inv = conv_invD [OF assms(1)] and step = conv_stepD [OF assms(2)]
  show "distinct (map fst (conv_claims t))" using inv(1) step(4) by simp
  show "distinct (map fst (conv_connected t))" using inv(2) step(5) by simp
  show "\<exists>c. claim_of t h = Some c \<and> cv_active c" if "connected_at t h = Some x" for h x
    by (rule step(7) [OF assms(1) that])
  show "conv_ok c'" "cv_claim c' \<in> conv_used t" if c': "claim_of t h = Some c'" for h c'
  proof -
    obtain c where c: "claim_of s h = Some c" "conv_after c c'" using step(6) [OF c'] by blast
    with inv(3) [OF c(1)] step(1) show "conv_ok c'" "cv_claim c' \<in> conv_used t"
      by (simp_all add: conv_after_def conv_core_def)
  qed
  show "h = h'" if c1: "claim_of t h = Some c" and c2: "claim_of t h' = Some c'"
      and same: "cv_claim c = cv_claim c' \<or> cv_active c \<and> cv_active c' \<and> cv_room c = cv_room c'" for h h' c c'
  proof -
    obtain x where x: "claim_of s h = Some x" "conv_after x c" using step(6) [OF c1] by blast
    obtain y where y: "claim_of s h' = Some y" "conv_after y c'" using step(6) [OF c2] by blast
    have "cv_claim x = cv_claim y \<or> cv_active x \<and> cv_active y \<and> cv_room x = cv_room y"
      using same x(2) y(2) by (auto simp: conv_after_def conv_core_def)
    then show ?thesis using inv(4,5) [OF x(1) y(1)] by blast
  qed
qed

lemma conv_step_refl [simp]: "conv_step s s"
  unfolding conv_step_def using conv_after_refl conv_invD(6) by blast

lemma conv_step_trans:
  assumes "conv_step a b" and "conv_step b c"
  shows "conv_step a c"
proof -
  have "\<exists>x. claim_of a h = Some x \<and> conv_after x z" if z: "claim_of c h = Some z" for h z
  proof -
    obtain y where "claim_of b h = Some y" "conv_after y z" using assms(2) z unfolding conv_step_def by blast
    moreover from this obtain x where "claim_of a h = Some x" "conv_after x y" using assms(1) unfolding conv_step_def by blast
    ultimately show ?thesis using conv_after_trans by blast
  qed
  moreover have "conv_inv b" if "conv_inv a" using conv_step_inv [OF that assms(1)] .
  ultimately show ?thesis
    using conv_stepD(1-5) [OF assms(1)] conv_stepD(1-5,7) [OF assms(2)] unfolding conv_step_def by simp
qed

lemma close_conversation_after: "conv_after c (close_conversation reason c)" if "cv_active c"
  using that by (auto simp: conv_after_def conv_core_def close_conversation_def conv_ok_def)

lemma close_matching_claim:
  "claim_of (close_matching p reason s) h
    = map_option (\<lambda>c. if cv_active c \<and> p c then close_conversation reason c else c) (claim_of s h)"
  by (simp add: close_matching_def map_of_map)

lemma close_matching_connected:
  "distinct (map fst (conv_connected s)) \<Longrightarrow>
    connected_at (close_matching p reason s) h = (if closing p s h then None else connected_at s h)"
proof -
  have "distinct (map fst xs) \<Longrightarrow> map_of (filter (\<lambda>(h, t). \<not> q h) xs) h = (if q h then None else map_of xs h)"
    for xs :: "(string \<times> rat) list" and q
    by (induction xs) auto
  then show "distinct (map fst (conv_connected s)) \<Longrightarrow> ?thesis" by (simp add: close_matching_def)
qed

lemma close_matching_step: "conv_step s (close_matching p reason s)"
  unfolding conv_step_def
proof (intro conjI allI impI)
  show "map fst (conv_claims (close_matching p reason s)) = map fst (conv_claims s)"
    by (simp add: close_matching_def comp_def case_prod_unfold)
  show "distinct (map fst (conv_connected (close_matching p reason s)))" if "distinct (map fst (conv_connected s))"
    using that by (simp add: close_matching_def distinct_map_filter)
  show "\<exists>c. claim_of s h = Some c \<and> conv_after c c'" if "claim_of (close_matching p reason s) h = Some c'" for h c'
    using that close_conversation_after by (auto simp: close_matching_claim)
  show "\<exists>c. claim_of (close_matching p reason s) h = Some c \<and> cv_active c"
    if inv: "conv_inv s" and at: "connected_at (close_matching p reason s) h = Some x" for h x
  proof -
    from at have "connected_at s h = Some x" "\<not> closing p s h"
      by (auto simp: close_matching_connected [OF conv_invD(2) [OF inv]] split: if_splits)
    moreover obtain c where "claim_of s h = Some c" "cv_active c"
      using conv_invD(6) [OF inv \<open>connected_at s h = Some x\<close>] by blast
    ultimately show ?thesis by (simp add: close_matching_claim closing_def)
  qed
qed (simp_all add: close_matching_def)

text \<open>A change of one entry, with the connections that remain.\<close>

lemma map_entry_claim: "map_of (AList.map_entry h f xs) k = (if k = h then map_option f (map_of xs h) else map_of xs k)"
  by (induction xs) auto

lemma map_entry_keys: "map fst (AList.map_entry h f xs) = map fst xs"
  by (induction xs) auto

lemma entry_step:
  assumes c: "claim_of s h = Some c" and after: "conv_after c (f c)"
    and keys: "distinct (map fst (conv_connected s)) \<Longrightarrow> distinct (map fst conn)"
    and conn: "\<And>k x. map_of conn k = Some x \<Longrightarrow> k \<noteq> h \<and> connected_at s k \<noteq> None \<or> k = h \<and> cv_active (f c)"
  shows "conv_step s (s\<lparr>conv_claims := AList.map_entry h f (conv_claims s), conv_connected := conn\<rparr>)"
  unfolding conv_step_def
proof (intro conjI allI impI)
  let ?t = "s\<lparr>conv_claims := AList.map_entry h f (conv_claims s), conv_connected := conn\<rparr>"
  show "\<exists>c. claim_of s k = Some c \<and> conv_after c c'" if "claim_of ?t k = Some c'" for k c'
    using that after c by (auto simp: map_entry_claim split: if_splits)
  show "\<exists>c. claim_of ?t k = Some c \<and> cv_active c" if inv: "conv_inv s" and at: "connected_at ?t k = Some x" for k x
  proof -
    have "k \<noteq> h \<and> connected_at s k \<noteq> None \<or> k = h \<and> cv_active (f c)" using conn at by simp
    then show ?thesis using conv_invD(6) [OF inv, of k] c by (auto simp: map_entry_claim)
  qed
qed (use keys in \<open>simp_all add: map_entry_keys\<close>)

lemma delete_connected:
  "map_of (AList.delete h xs) k = Some x \<Longrightarrow> k \<noteq> h \<and> map_of xs k \<noteq> None"
  by (auto simp: delete_conv' split: if_splits)

lemma close_handle_step:
  assumes "claim_of s h = Some c" and "cv_active c"
  shows "conv_step s (close_handle h reason s)"
  unfolding close_handle_def
  by (rule entry_step [where f = "close_conversation reason", OF assms(1) close_conversation_after [OF assms(2)]])
    (auto dest: delete_connected intro: distinct_delete)

lemma expire_due_step: "conv_step s (expire_due now s)"
  unfolding expire_due_def by (rule close_matching_step)

lemma close_claims_step: "conv_step s (snd (close_claims p reason s))"
  using close_matching_step by (simp add: close_claims_def mutation_eval)

lemma close_claim_step: "conv_step s (snd (close_claim h device reason s))"
  by (auto simp: close_claim_def mutation_eval intro: close_handle_step split: option.splits)

lemma close_owned_step: "conv_step s (snd (close_owned_paired_room_claim h device rooms mappings s))"
  by (auto simp: close_owned_paired_room_claim_def mutation_eval intro: close_handle_step split: option.splits)

lemma mark_open_step: "conv_step s (snd (mark_open h device now s))"
proof (cases "owned s h device")
  case True
  then obtain c where c: "claim_of s h = Some c" "cv_active c" by (auto simp: owned_def split: option.splits)
  let ?f = "\<lambda>c. c\<lparr>cv_activity := ''open'', cv_deadline := None\<rparr>"
  have "conv_after c (?f c)"
    using c(2) by (auto simp: conv_after_def conv_core_def conv_ok_def WATCH_ACTIVITY_STATES_def)
  then have "conv_step s (s\<lparr>conv_claims := AList.map_entry h ?f (conv_claims s),
      conv_connected := AList.update h now (conv_connected s)\<rparr>)"
    by (rule entry_step [OF c(1)]) (auto simp: update_conv' c(2) distinct_update split: if_splits)
  then show ?thesis using True by (simp add: mark_open_def mutation_eval)
qed (simp add: mark_open_def mutation_eval)

lemma record_activity_step: "conv_step s (snd (record_activity h device activity now1 now2 now3 s))"
proof (cases "activity \<in> set WATCH_ACTIVITY_STATES \<and> owned (expire_due now1 s) h device")
  case True
  let ?s = "expire_due now1 s"
  from True obtain c where c: "claim_of ?s h = Some c" "cv_active c" by (auto simp: owned_def split: option.splits)
  let ?w = "activity = ''playback_complete'' \<or> activity = ''idle''"
  let ?f = "\<lambda>c. c\<lparr>cv_activity := activity, cv_deadline := (if ?w then Some (now2 + conv_timeout ?s) else None)\<rparr>"
  let ?conn = "if connected_at ?s h = None then conv_connected ?s else AList.update h (if ?w then now3 else now2) (conv_connected ?s)"
  have "conv_after c (?f c)"
    using c(2) True by (auto simp: conv_after_def conv_core_def conv_ok_def)
  then have "conv_step ?s (?s\<lparr>conv_claims := AList.map_entry h ?f (conv_claims ?s), conv_connected := ?conn\<rparr>)"
    by (rule entry_step [OF c(1)]) (auto simp: update_conv' c(2) distinct_update split: if_splits)
  then have "conv_step s (?s\<lparr>conv_claims := AList.map_entry h ?f (conv_claims ?s), conv_connected := ?conn\<rparr>)"
    using conv_step_trans expire_due_step by blast
  moreover have "snd (record_activity h device activity now1 now2 now3 s)
      = ?s\<lparr>conv_claims := AList.map_entry h ?f (conv_claims ?s), conv_connected := ?conn\<rparr>"
    using True by (simp add: record_activity_def mutation_eval Let_def split del: if_split)
  ultimately show ?thesis by (simp only:)
qed (auto simp: record_activity_def mutation_eval checkE_def expire_due_step)

lemma mark_disconnected_step: "conv_step s (snd (mark_disconnected h device s))"
proof -
  have "conv_step s (s\<lparr>conv_connected := AList.delete h (conv_connected s)\<rparr>)"
    unfolding conv_step_def using conv_after_refl conv_invD(6)
    by (auto simp: distinct_delete dest!: delete_connected)
  then show ?thesis by (auto simp: mark_disconnected_def mutation_eval split: option.splits)
qed

lemma watch_snapshot_step: "conv_step s (snd (watch_snapshot device revision now s))"
  using expire_due_step by (auto simp: watch_snapshot_def mutation_eval split: list.splits sum.splits)

lemma delivery_state_step: "conv_step s (snd (delivery_state device now s))"
  using expire_due_step by (simp add: delivery_state_def mutation_eval)

text \<open>
  Opening a conversation: the steps that make room, and on success one new entry in a Room
  without an active conversation, for a claim that was not used.
\<close>

lemma unique_active_filter:
  assumes "conv_inv s" and "filter (\<lambda>(h, c). cv_room c = r \<and> cv_active c) (conv_claims s) = [(h, c)]"
  shows "claim_of s h = Some c" "cv_active c" "cv_room c = r"
    and "\<And>k d. claim_of s k = Some d \<Longrightarrow> cv_active d \<Longrightarrow> cv_room d = r \<Longrightarrow> k = h"
proof -
  have "(h, c) \<in> set (filter (\<lambda>(h, c). cv_room c = r \<and> cv_active c) (conv_claims s))" using assms(2) by simp
  then show c: "claim_of s h = Some c" "cv_active c" "cv_room c = r"
    using conv_invD(1) [OF assms(1)] by auto
  show "k = h" if "claim_of s k = Some d" "cv_active d" "cv_room d = r" for k d
    using conv_invD(5) [OF assms(1) that(1) c(1)] that c by simp
qed

lemma filter_none:
  assumes "filter (\<lambda>(h, c). cv_room c = r \<and> cv_active c) (conv_claims s) = []" and "claim_of s k = Some d"
  shows "\<not> (cv_active d \<and> cv_room d = r)"
  using assms map_of_SomeD [OF assms(2)] by (auto simp: filter_empty_conv)

lemma free_room_ok:
  assumes inv: "conv_inv s"
    and run: "free_room d now (filter (\<lambda>(h, c). cv_room c = r \<and> cv_active c) (conv_claims s)) s = (res, t)"
  shows "conv_step s t"
    and "res = Inr u \<Longrightarrow> claim_of t k = Some c \<Longrightarrow> \<not> (cv_active c \<and> cv_room c = r)"
    and "res = Inl e \<Longrightarrow> t = s \<and> (\<exists>h c. claim_of s h = Some c \<and> cv_active c \<and> cv_room c = r)"
proof -
  let ?xs = "filter (\<lambda>(h, c). cv_room c = r \<and> cv_active c) (conv_claims s)"
  have shapes: "xs = [] \<or> (\<exists>h c. xs = [(h, c)]) \<or> (\<exists>x y zs. xs = x # y # zs)" for xs :: "(string \<times> conversation) list"
    by (cases xs; cases "tl xs") auto
  from shapes [of ?xs] consider (none) "?xs = []" | (one) h c where "?xs = [(h, c)]" | (more) x y zs where "?xs = x # y # zs"
    by blast
  then have "conv_step s t \<and> (res = Inr u \<longrightarrow> claim_of t k = Some c \<longrightarrow> \<not> (cv_active c \<and> cv_room c = r))
    \<and> (res = Inl e \<longrightarrow> t = s \<and> (\<exists>h c. claim_of s h = Some c \<and> cv_active c \<and> cv_room c = r))"
  proof cases
    case none
    have t: "res = Inr ()" "t = s" using run [unfolded none] by (auto simp: mutation_eval)
    have "\<not> (cv_active c \<and> cv_room c = r)" if "claim_of s k = Some c" by (rule filter_none [OF none that])
    then show ?thesis by (simp add: t)
  next
    case (one h0 c0)
    note only = unique_active_filter [OF inv one]
    show ?thesis
    proof (cases "dec_kind d = TouchClaim \<and> idle_until now c0")
      case True
      then have t: "res = Inr ()" "t = close_handle h0 ''superseded_by_touch'' s"
        using run [unfolded one] by (auto simp: mutation_eval)
      have "conv_step s t" unfolding t(2) by (rule close_handle_step [OF only(1,2)])
      moreover have "\<not> (cv_active c \<and> cv_room c = r)" if "claim_of t k = Some c"
        using that only(4) [of k c] by (auto simp: t(2) close_handle_def map_entry_claim close_conversation_def split: if_splits)
      ultimately show ?thesis using t(1) by simp
    next
      case False
      then obtain e' where "res = Inl e'" "t = s"
        using run [unfolded one] by (auto simp: mutation_eval split: if_splits)
      then show ?thesis using only(1-3) by auto
    qed
  next
    case more
    have "x \<in> set ?xs" unfolding more by simp
    then have "x \<in> set (conv_claims s)" "case x of (h, c) \<Rightarrow> cv_room c = r \<and> cv_active c" by auto
    moreover obtain h0 c0 where "x = (h0, c0)" by (cases x)
    ultimately have "claim_of s h0 = Some c0" "cv_active c0" "cv_room c0 = r"
      using conv_invD(1) [OF inv] by auto
    then have "\<exists>h c. claim_of s h = Some c \<and> cv_active c \<and> cv_room c = r" by blast
    moreover have "\<exists>e'. res = Inl e'" "t = s"
      using run [unfolded more] by (cases x; auto simp: mutation_eval)+
    ultimately show ?thesis by auto
  qed
  then show "conv_step s t"
    and "res = Inr u \<Longrightarrow> claim_of t k = Some c \<Longrightarrow> \<not> (cv_active c \<and> cv_room c = r)"
    and "res = Inl e \<Longrightarrow> t = s \<and> (\<exists>h c. claim_of s h = Some c \<and> cv_active c \<and> cv_room c = r)"
    by auto
qed

lemma create_failed:
  assumes "conv_inv s" and "create_from_decision d generation now handle s = (Inl e, t)"
  shows "conv_step s t"
proof -
  let ?s = "expire_due now s"
  have inv: "conv_inv ?s" by (rule conv_step_inv [OF assms(1) expire_due_step])
  obtain res u where room: "free_room d now (filter (\<lambda>(h, c). cv_room c = dec_room d \<and> cv_active c) (conv_claims ?s)) ?s = (res, u)"
    by fastforce
  have "t \<in> {s, ?s, u}"
    using assms(2) room by (auto simp: create_from_decision_def mutation_eval checkE_def split: if_splits sum.splits)
  then show ?thesis
    using conv_step_trans [OF expire_due_step free_room_ok(1) [OF inv room]] expire_due_step by auto
qed

lemma create_ok:
  assumes inv: "conv_inv s" and "create_from_decision d generation now handle s = (Inr h, t)"
  obtains u where "dec_decision d = Granted" "dec_claim_id d \<notin> conv_used s" "valid_handle handle = Inr h"
    "conv_step s u" "\<And>k c. claim_of u k = Some c \<Longrightarrow> \<not> (cv_active c \<and> cv_room c = dec_room d)"
    "t = u\<lparr>conv_used := insert (dec_claim_id d) (conv_used u),
       conv_claims := AList.update h (new_conversation d generation) (conv_claims u)\<rparr>"
proof -
  let ?s = "expire_due now s"
  have inv': "conv_inv ?s" by (rule conv_step_inv [OF inv expire_due_step])
  obtain u where room: "free_room d now (filter (\<lambda>(h, c). cv_room c = dec_room d \<and> cv_active c) (conv_claims ?s)) ?s = (Inr (), u)"
    and rest: "dec_decision d = Granted" "dec_claim_id d \<notin> conv_used ?s" "valid_handle handle = Inr h"
      "t = u\<lparr>conv_used := insert (dec_claim_id d) (conv_used u),
         conv_claims := AList.update h (new_conversation d generation) (conv_claims u)\<rparr>"
    using assms(2) by (auto simp: create_from_decision_def mutation_simps result_simps)
  show thesis
  proof (rule that [OF rest(1) _ rest(3) _ _ rest(4)])
    show "dec_claim_id d \<notin> conv_used s" using rest(2) conv_stepD(1) [OF expire_due_step, of now s] by simp
    show "conv_step s u" using conv_step_trans [OF expire_due_step free_room_ok(1) [OF inv' room]] .
    show "\<not> (cv_active c \<and> cv_room c = dec_room d)" if "claim_of u k = Some c" for k c
      by (rule free_room_ok(2) [OF inv' room refl that])
  qed
qed

lemma insert_conversation_inv:
  assumes inv: "conv_inv u" and "dec_claim_id d \<notin> conv_used u"
    and free: "\<And>k c. claim_of u k = Some c \<Longrightarrow> \<not> (cv_active c \<and> cv_room c = dec_room d)"
  shows "conv_inv (u\<lparr>conv_used := insert (dec_claim_id d) (conv_used u),
       conv_claims := AList.update h (new_conversation d generation) (conv_claims u)\<rparr>)" (is "conv_inv ?t")
  unfolding conv_inv_def
proof (intro conjI allI impI)
  let ?n = "new_conversation d generation"
  have claim: "map_of (AList.update h ?n (conv_claims u)) k = (if k = h then Some ?n else claim_of u k)" for k
    by (simp add: update_conv')
  have new: "conv_ok ?n" "cv_active ?n" "cv_claim ?n = dec_claim_id d" "cv_room ?n = dec_room d"
    by (simp_all add: new_conversation_def conv_ok_def WATCH_ACTIVITY_STATES_def)
  note old = conv_invD [OF inv]
  show "distinct (map fst (conv_claims ?t))" using old(1) by (simp add: distinct_update)
  show "distinct (map fst (conv_connected ?t))" using old(2) by simp
  show "conv_ok c" "cv_claim c \<in> conv_used ?t" if "claim_of ?t k = Some c" for k c
    using that new old(3) [of k c] by (auto simp: claim split: if_splits)
  show "\<exists>c. claim_of ?t k = Some c \<and> cv_active c" if "connected_at ?t k = Some x" for k x
    using that new(2) old(6) [of k x] by (simp add: claim)
  show "k = k'" if c: "claim_of ?t k = Some c" and c': "claim_of ?t k' = Some c'"
      and same: "cv_claim c = cv_claim c' \<or> cv_active c \<and> cv_active c' \<and> cv_room c = cv_room c'" for k k' c c'
  proof (cases "k = h \<or> k' = h")
    case True
    have other: "cv_claim b \<noteq> dec_claim_id d \<and> \<not> (cv_active b \<and> cv_room b = dec_room d)" if "claim_of u j = Some b" for j b
      using old(3) [OF that] free [OF that] assms(2) by auto
    show ?thesis
    proof (rule ccontr)
      assume "k \<noteq> k'"
      with True c c' obtain j b where "claim_of u j = Some b" "c = ?n \<and> c' = b \<or> c = b \<and> c' = ?n"
        by (auto simp: claim split: if_splits)
      then show False using other [of j b] same new by auto
    qed
  next
    case False
    then show ?thesis using c c' same old(4,5) [of k c k' c'] by (auto simp: claim)
  qed
qed

lemma create_inv: "conv_inv s \<Longrightarrow> conv_inv (snd (create_from_decision d generation now handle s))"
proof -
  assume inv: "conv_inv s"
  obtain res t where run: "create_from_decision d generation now handle s = (res, t)" by fastforce
  show ?thesis
  proof (cases res)
    case (Inl e)
    then show ?thesis using run create_failed [OF inv] conv_step_inv [OF inv] by simp
  next
    case (Inr h)
    with run have ok: "create_from_decision d generation now handle s = (Inr h, t)" by simp
    have "conv_inv t"
    proof (rule create_ok [OF inv ok])
      fix u
      assume u: "conv_step s u" "dec_claim_id d \<notin> conv_used s"
        and free: "\<And>k c. claim_of u k = Some c \<Longrightarrow> \<not> (cv_active c \<and> cv_room c = dec_room d)"
        and t: "t = u\<lparr>conv_used := insert (dec_claim_id d) (conv_used u),
           conv_claims := AList.update h (new_conversation d generation) (conv_claims u)\<rparr>"
      show "conv_inv t"
        unfolding t
        using insert_conversation_inv [OF conv_step_inv [OF inv u(1)] _ free] u conv_stepD(1) [OF u(1)] by simp
    qed
    then show ?thesis by (simp add: ok)
  qed
qed

section \<open>Every method\<close>

datatype conv_call =
    CreateFromDecision wake_decision "int option" rat pyval
  | CloseDeviceClaims string "int option" string
  | CloseProfileClaims "string list" string
  | CloseMappingClaims "string list" string
  | ClosePairedRoomClaims int string
  | CloseAllClaims string
  | CloseClaim string "string option" string
  | CloseOwnedPairedRoomClaim string string "string list" "string list"
  | MarkOpen string string rat
  | RecordActivity string string string rat rat rat
  | MarkDisconnected string string
  | ReadWatchSnapshot string int rat
  | ReadDeliveryState string rat

fun conv_exec :: "conversation_store \<Rightarrow> conv_call \<Rightarrow> conversation_store" where
  "conv_exec s (CreateFromDecision d g now h) = snd (create_from_decision d g now h s)"
| "conv_exec s (CloseDeviceClaims d g r) = snd (close_device_claims d g r s)"
| "conv_exec s (CloseProfileClaims ids r) = snd (close_profile_claims ids r s)"
| "conv_exec s (CloseMappingClaims ids r) = snd (close_mapping_claims ids r s)"
| "conv_exec s (ClosePairedRoomClaims n r) = snd (close_paired_room_claims n r s)"
| "conv_exec s (CloseAllClaims r) = snd (close_all_claims r s)"
| "conv_exec s (CloseClaim h d r) = snd (close_claim h d r s)"
| "conv_exec s (CloseOwnedPairedRoomClaim h d rs ms) = snd (close_owned_paired_room_claim h d rs ms s)"
| "conv_exec s (MarkOpen h d now) = snd (mark_open h d now s)"
| "conv_exec s (RecordActivity h d a n1 n2 n3) = snd (record_activity h d a n1 n2 n3 s)"
| "conv_exec s (MarkDisconnected h d) = snd (mark_disconnected h d s)"
| "conv_exec s (ReadWatchSnapshot d n now) = snd (watch_snapshot d n now s)"
| "conv_exec s (ReadDeliveryState d now) = snd (delivery_state d now s)"

lemmas conv_steps = close_claims_step close_claim_step close_owned_step mark_open_step record_activity_step
  mark_disconnected_step watch_snapshot_step delivery_state_step

lemma conv_exec_cases:
  obtains (create) d g now h where "p = CreateFromDecision d g now h" | (step) "\<And>s. conv_step s (conv_exec s p)"
  by (cases p) (auto simp: conv_steps close_device_claims_def close_profile_claims_def close_mapping_claims_def
      close_paired_room_claims_def close_all_claims_def)

lemma conv_exec_inv: "conv_inv s \<Longrightarrow> conv_inv (conv_exec s p)"
  by (cases p rule: conv_exec_cases) (auto intro: create_inv conv_step_inv)

interpretation conversation_machine: machine conv_exec conv_inv "\<lambda>_ _. True"
  by unfold_locales (rule conv_exec_inv)

lemma anything_allowed: "allowed_run exec (\<lambda>_ _. True) s ps"
  by (induction ps arbitrary: s) auto

definition conv_reachable :: "conversation_store \<Rightarrow> bool" where
  "conv_reachable s \<longleftrightarrow> (\<exists>route timeout s0 ps. new_conversation_store route timeout = Inr s0 \<and> s = run_ops conv_exec s0 ps)"

lemma conv_reachable_inv: "conv_reachable s \<Longrightarrow> conv_inv s"
proof -
  assume "conv_reachable s"
  then obtain route timeout s0 ps where "new_conversation_store route timeout = Inr s0" and s: "s = run_ops conv_exec s0 ps"
    unfolding conv_reachable_def by blast
  then have "conv_inv s0" by (auto simp: new_conversation_store_def result_simps conv_inv_def)
  then show ?thesis unfolding s by (rule conversation_machine.run_inv [OF _ anything_allowed])
qed

text \<open>
  One conversation per Room. In every state the store can reach, two active conversations
  of the same Room are the same conversation, no wake claim stands behind two handles, a
  connected handle belongs to an active conversation, an active one has a deadline only
  while it waits idle, and a closed one has none and records why it was closed.
\<close>

lemma one_conversation_per_room:
  assumes "conv_reachable s" and "claim_of s h = Some c" and "claim_of s h' = Some c'"
  shows "(cv_active c \<and> cv_active c' \<and> cv_room c = cv_room c' \<longrightarrow> h = h' \<and> c = c')
    \<and> (cv_claim c = cv_claim c' \<longrightarrow> h = h')
    \<and> (connected_at s h \<noteq> None \<longrightarrow> cv_active c)
    \<and> (cv_active c \<and> cv_deadline c \<noteq> None \<longrightarrow> cv_activity c \<in> {''idle'', ''playback_complete''})
    \<and> (\<not> cv_active c \<longrightarrow> cv_deadline c = None \<and> cv_close_reason c \<noteq> None)"
proof -
  note inv = conv_invD [OF conv_reachable_inv [OF assms(1)]]
  have "h = h' \<and> c = c'" if "cv_active c" "cv_active c'" "cv_room c = cv_room c'"
    using inv(5) [OF assms(2,3) that] assms(2,3) by simp
  moreover have "cv_active c" if "connected_at s h \<noteq> None" using inv(6) [of h] that assms(2) by auto
  ultimately show ?thesis
    using inv(3) [OF assms(2)] inv(4) [OF assms(2,3)] by (auto simp: conv_ok_def)
qed

definition demo_wake :: "string \<Rightarrow> claim_kind \<Rightarrow> wake_decision" where
  "demo_wake cid kind = \<lparr>dec_claim_id = cid, dec_decision = Granted, dec_arbitration_id = ''a'', dec_revision = 1,
     dec_reason = None, dec_device = ''puck'', dec_room = ''kitchen'', dec_mapping = ''m'', dec_profile = ''anna'', dec_kind = kind\<rparr>"

definition demo_store :: conversation_store where
  "demo_store = \<lparr>conv_claims = [], conv_used = {}, conv_connected = [], conv_route = ''local'', conv_timeout = 8\<rparr>"

definition demo_talking :: conversation_store where
  "demo_talking = run_ops conv_exec demo_store [CreateFromDecision (demo_wake ''w1'' WakeClaim) (Some 1) 0 (PStr ''h1''),
     MarkOpen ''h1'' ''puck'' 1, RecordActivity ''h1'' ''puck'' ''idle'' 2 2 2]"

lemma demo_talking_reachable: "conv_reachable demo_talking"
proof -
  have "new_conversation_store (PStr ''local'') (PFloat (Fin 8)) = Inr demo_store"
    by (simp add: new_conversation_store_def bad_timeout_def bounded_text_128_def demo_store_def)
  then show ?thesis unfolding conv_reachable_def demo_talking_def by blast
qed

lemma one_conversation_per_room_witness:
  "\<exists>c. claim_of demo_talking ''h1'' = Some c \<and> cv_active c \<and> cv_deadline c = Some 10 \<and> cv_activity c \<in> {''idle'', ''playback_complete''}"
proof -
  let ?c = "the (claim_of demo_talking ''h1'')"
  have c: "claim_of demo_talking ''h1'' = Some ?c" and a: "cv_active ?c" "cv_deadline ?c = Some 10"
    by code_simp+
  from one_conversation_per_room [OF demo_talking_reachable c c] a have "cv_activity ?c \<in> {''idle'', ''playback_complete''}"
    by simp
  with c a show ?thesis by blast
qed

end
