(* ===== verification/Conversation_Properties.thy ===== *)
theory Conversation_Properties
  imports Conversations
begin

text \<open>
  Properties of the conversation store: a wake claim is spent once, when a Room is open to a
  new conversation, that closing a Device's conversations leaves none, and what the Watch
  View may show.
\<close>

section \<open>A wake claim is spent once\<close>

lemma used_grows:
  assumes "conv_inv s"
  shows "conv_used s \<subseteq> conv_used (conv_exec s p)"
proof (cases p rule: conv_exec_cases)
  case (create d g now h)
  obtain res t where run: "create_from_decision d g now h s = (res, t)" by fastforce
  show ?thesis
  proof (cases res)
    case (Inl e)
    with run have "conv_step s t" using create_failed [OF assms] by blast
    then show ?thesis using run conv_stepD(1) [of s t] by (simp add: create)
  next
    case (Inr k)
    with run have ok: "create_from_decision d g now h s = (Inr k, t)" by simp
    have "conv_used s \<subseteq> conv_used t"
      by (rule create_ok [OF assms ok]) (use conv_stepD(1) in auto)
    then show ?thesis by (simp add: create ok)
  qed
next
  case step
  then show ?thesis using conv_stepD(1) by blast
qed

lemma used_stays:
  assumes "conv_inv s" and "x \<in> conv_used s"
  shows "x \<in> conv_used (run_ops conv_exec s ps)"
  by (rule conversation_machine.run_stable [where Q = "\<lambda>s. x \<in> conv_used s", OF assms(1) anything_allowed assms(2)])
    (use used_grows in blast)

text \<open>
  A granted wake opens at most one conversation: once it has, every later attempt to use
  the same claim fails as a duplicate, whatever happens in between and whatever handle, clock
  reading or credential generation comes with it.
\<close>

lemma wake_claim_spent_once:
  assumes "conv_reachable s" and ok: "create_from_decision d generation now handle s = (Inr h, t)"
    and again: "dec_claim_id d' = dec_claim_id d" "dec_decision d' = Granted"
  shows "fst (create_from_decision d' generation' now' handle' (run_ops conv_exec t ps))
    = Inl (ConversationClaimConflict ''duplicate_claim'')"
proof -
  note inv = conv_reachable_inv [OF assms(1)]
  have "dec_claim_id d \<in> conv_used t" by (rule create_ok [OF inv ok]) simp
  moreover have "conv_inv t" using create_inv [OF inv] ok by (metis snd_conv)
  ultimately have "dec_claim_id d \<in> conv_used (run_ops conv_exec t ps)" using used_stays by blast
  then have "dec_claim_id d \<in> conv_used (expire_due now' (run_ops conv_exec t ps))"
    using conv_stepD(1) [OF expire_due_step] by simp
  then show ?thesis using again by (simp add: create_from_decision_def mutation_eval)
qed

lemma wake_claim_spent_once_witness:
  "\<exists>t. create_from_decision (demo_wake ''w2'' TouchClaim) None 3 (PStr ''h2'') demo_talking = (Inr ''h2'', t)
    \<and> fst (create_from_decision (demo_wake ''w2'' WakeClaim) None 9 (PStr ''h3'')
        (run_ops conv_exec t [CloseAllClaims ''stopped''])) = Inl (ConversationClaimConflict ''duplicate_claim'')"
proof -
  have "fst (create_from_decision (demo_wake ''w2'' TouchClaim) None 3 (PStr ''h2'') demo_talking) = Inr ''h2''" by code_simp
  then obtain t where t: "create_from_decision (demo_wake ''w2'' TouchClaim) None 3 (PStr ''h2'') demo_talking = (Inr ''h2'', t)"
    by (metis prod.collapse)
  have "fst (create_from_decision (demo_wake ''w2'' WakeClaim) None 9 (PStr ''h3'')
        (run_ops conv_exec t [CloseAllClaims ''stopped''])) = Inl (ConversationClaimConflict ''duplicate_claim'')"
    by (rule wake_claim_spent_once [OF demo_talking_reachable t]) (simp_all add: demo_wake_def)
  with t show ?thesis by blast
qed

section \<open>When a Room is open\<close>

definition blocks :: "wake_decision \<Rightarrow> rat \<Rightarrow> conversation \<Rightarrow> bool" where
  "blocks d now c \<longleftrightarrow> cv_active c \<and> cv_room c = dec_room d \<and> \<not> overdue now c
     \<and> \<not> (dec_kind d = TouchClaim \<and> idle_until now c)"

lemma expired_claim:
  "claim_of (expire_due now s) h = map_option (\<lambda>c. if cv_active c \<and> overdue now c
     then close_conversation ''idle_expired'' c else c) (claim_of s h)"
  by (simp add: expire_due_def close_matching_claim)

lemma active_after_expiry:
  "claim_of (expire_due now s) h = Some c \<and> cv_active c \<longleftrightarrow> claim_of s h = Some c \<and> cv_active c \<and> \<not> overdue now c"
  by (cases "claim_of s h") (auto simp: expired_claim close_conversation_def)

lemma free_room_iff:
  assumes inv: "conv_inv s"
  shows "(\<exists>t. free_room d now (filter (\<lambda>(h, c). cv_room c = r \<and> cv_active c) (conv_claims s)) s = (Inr (), t))
    \<longleftrightarrow> (\<forall>h c. claim_of s h = Some c \<longrightarrow> cv_active c \<longrightarrow> cv_room c = r \<longrightarrow> dec_kind d = TouchClaim \<and> idle_until now c)"
    (is "?free = ?open")
proof -
  let ?xs = "filter (\<lambda>(h, c). cv_room c = r \<and> cv_active c) (conv_claims s)"
  have mem: "(h, c) \<in> set ?xs \<longleftrightarrow> claim_of s h = Some c \<and> cv_active c \<and> cv_room c = r" for h c
    using conv_invD(1) [OF inv] by auto
  show ?thesis
  proof (cases ?xs)
    case Nil
    then have "\<not> (claim_of s h = Some c \<and> cv_active c \<and> cv_room c = r)" for h c using mem [of h c] by simp
    moreover have "free_room d now ?xs s = (Inr (), s)" unfolding Nil by (simp add: mutation_eval)
    ultimately show ?thesis by blast
  next
    case (Cons x xs)
    obtain h0 c0 where x: "x = (h0, c0)" by (cases x)
    have c0: "claim_of s h0 = Some c0" "cv_active c0" "cv_room c0 = r" using mem [of h0 c0] by (auto simp: Cons x)
    have only: "h = h0 \<and> c = c0" if "claim_of s h = Some c" "cv_active c" "cv_room c = r" for h c
      using conv_invD(5) [OF inv that(1) c0(1)] that c0 by auto
    have "xs = []"
    proof (rule ccontr)
      assume "xs \<noteq> []"
      then obtain h1 c1 ys where y: "xs = (h1, c1) # ys" by (metis list.exhaust surj_pair)
      have "h1 = h0" using mem [of h1 c1] only by (auto simp: Cons y)
      moreover have "distinct (map fst ?xs)" using conv_invD(1) [OF inv] by (simp add: distinct_map_filter)
      ultimately show False by (simp add: Cons x y)
    qed
    then have one: "?xs = [(h0, c0)]" using Cons x by simp
    have "?free \<longleftrightarrow> dec_kind d = TouchClaim \<and> idle_until now c0" unfolding one by (auto simp: mutation_eval)
    moreover have "?open \<longleftrightarrow> dec_kind d = TouchClaim \<and> idle_until now c0" using c0 only by blast
    ultimately show ?thesis by simp
  qed
qed

text \<open>
  A Room is open to a granted, unspent wake exactly when no conversation blocks it: each
  active conversation of the Room has passed its idle deadline, or the wake is a touch and
  the conversation waits idle. Then, and only then, the store returns the new handle, and the
  wake's conversation is the Room's active one.
\<close>

lemma room_open_iff:
  assumes "conv_reachable s" and d: "dec_decision d = Granted" "dec_claim_id d \<notin> conv_used s" "valid_handle handle = Inr h"
  shows "(\<exists>t. create_from_decision d generation now handle s = (Inr h, t)
      \<and> claim_of t h = Some (new_conversation d generation))
    \<longleftrightarrow> \<not> (\<exists>k c. claim_of s k = Some c \<and> blocks d now c)" (is "?opens = ?free")
proof -
  note inv = conv_reachable_inv [OF assms(1)]
  let ?s = "expire_due now s"
  let ?xs = "filter (\<lambda>(h, c). cv_room c = dec_room d \<and> cv_active c) (conv_claims ?s)"
  have inv': "conv_inv ?s" by (rule conv_step_inv [OF inv expire_due_step])
  have unused: "dec_claim_id d \<notin> conv_used ?s" using d(2) conv_stepD(1) [OF expire_due_step] by simp
  have "?opens \<longleftrightarrow> (\<exists>t. free_room d now ?xs ?s = (Inr (), t))"
    using d unused by (auto simp: create_from_decision_def mutation_eval update_conv' split: prod.splits sum.splits)
  also have "\<dots> \<longleftrightarrow> ?free"
    unfolding free_room_iff [OF inv'] blocks_def using active_after_expiry [of now s] by metis
  finally show ?thesis .
qed

lemma room_open_iff_witness:
  "\<exists>t. create_from_decision (demo_wake ''w2'' WakeClaim) None 10 (PStr ''h2'') demo_talking = (Inr ''h2'', t)"
proof -
  have "list_all (\<lambda>(k, c). \<not> blocks (demo_wake ''w2'' WakeClaim) 10 c) (conv_claims demo_talking)" by code_simp
  then have "\<not> (\<exists>k c. claim_of demo_talking k = Some c \<and> blocks (demo_wake ''w2'' WakeClaim) 10 c)"
    by (auto simp: list_all_iff dest!: map_of_SomeD)
  moreover have "dec_decision (demo_wake ''w2'' WakeClaim) = Granted" by (simp add: demo_wake_def)
  moreover have "dec_claim_id (demo_wake ''w2'' WakeClaim) \<notin> conv_used demo_talking" by code_simp
  moreover have "valid_handle (PStr ''h2'') = Inr ''h2''" by code_simp
  ultimately show ?thesis
    using room_open_iff [OF demo_talking_reachable, of "demo_wake ''w2'' WakeClaim" "PStr ''h2''" "''h2''" None 10] by blast
qed

section \<open>Closing a Device's conversations\<close>

text \<open>
  Ending a Device's conversations is complete and precise. It closes, with the given
  reason, exactly the Device's active conversations that do not carry the credential
  generation still in force, and disconnects their handles; it returns how many there were;
  every other conversation and connection is as it was.
\<close>

lemma device_conversations_closed:
  assumes "conv_reachable s" and run: "close_device_claims device generation reason s = (r, t)"
  shows "r = Inr (length (filter (\<lambda>(h, c). cv_active c \<and> cv_device c = device \<and> (generation = None \<or> cv_generation c \<noteq> generation))
      (conv_claims s)))
    \<and> claim_of t h = map_option (\<lambda>c. if cv_active c \<and> cv_device c = device \<and> (generation = None \<or> cv_generation c \<noteq> generation)
        then close_conversation reason c else c) (claim_of s h)
    \<and> connected_at t h = (case claim_of s h of
        None \<Rightarrow> None
      | Some c \<Rightarrow> if cv_active c \<and> cv_device c = device \<and> (generation = None \<or> cv_generation c \<noteq> generation) then None
          else connected_at s h)"
proof -
  let ?p = "\<lambda>c. cv_device c = device \<and> (generation = None \<or> cv_generation c \<noteq> generation)"
  note inv = conv_reachable_inv [OF assms(1)]
  have t: "t = close_matching ?p reason s" "r = Inr (length (filter (\<lambda>(h, c). cv_active c \<and> ?p c) (conv_claims s)))"
    using run by (auto simp: close_device_claims_def close_claims_def mutation_eval)
  have "connected_at t h = (if closing ?p s h then None else connected_at s h)"
    unfolding t by (rule close_matching_connected [OF conv_invD(2) [OF inv]])
  moreover have "connected_at s h = None" if "claim_of s h = None"
    using conv_invD(6) [OF inv, of h] that by (cases "connected_at s h") auto
  ultimately show ?thesis
    by (auto simp: t close_matching_claim closing_def split: option.splits)
qed

lemma device_conversations_closed_witness:
  "\<exists>t c. close_device_claims ''puck'' None ''credential_revoked'' demo_talking = (Inr 1, t)
    \<and> claim_of t ''h1'' = Some c \<and> \<not> cv_active c \<and> cv_close_reason c = Some ''credential_revoked''"
proof -
  let ?close = "close_device_claims ''puck'' None ''credential_revoked''"
  let ?c = "the (claim_of demo_talking ''h1'')"
  obtain r t where run: "?close demo_talking = (r, t)" by fastforce
  have "claim_of demo_talking ''h1'' = Some ?c" and a: "cv_active ?c" "cv_device ?c = ''puck''"
    and n: "fst (?close demo_talking) = Inr 1"
    by code_simp+
  then obtain c where c: "claim_of demo_talking ''h1'' = Some c" "cv_active c" "cv_device c = ''puck''" by metis
  from device_conversations_closed [OF demo_talking_reachable run, of "''h1''"] c
  have "claim_of t ''h1'' = Some (close_conversation ''credential_revoked'' c)" by simp
  with run n show ?thesis by (auto simp: close_conversation_def)
qed

section \<open>What is shown\<close>

lemma active_of_one:
  assumes inv: "conv_inv s" and "active_of s device = [(h, c)]"
  shows "claim_of s h = Some c" "cv_active c" "cv_device c = device"
    "\<And>k d. claim_of s k = Some d \<Longrightarrow> cv_active d \<Longrightarrow> cv_device d = device \<Longrightarrow> k = h \<and> d = c"
proof -
  have mem: "(k, d) \<in> set (active_of s device) \<longleftrightarrow> claim_of s k = Some d \<and> cv_active d \<and> cv_device d = device" for k d
    using conv_invD(1) [OF inv] by (auto simp: active_of_def)
  show "claim_of s h = Some c" "cv_active c" "cv_device c = device" using mem [of h c] by (simp_all add: assms(2))
  show "k = h \<and> d = c" if "claim_of s k = Some d" "cv_active d" "cv_device d = device" for k d
    using mem [of k d] that by (simp add: assms(2))
qed

text \<open>
  The Watch View shows only the current state of the Device's own conversation. A
  snapshot is returned only while the Device has exactly one active conversation, which has
  not passed its idle deadline, is connected and runs under the given configuration
  revision; the snapshot carries that conversation's Profile, generation and activity, and
  passes the checks its class makes.
\<close>

lemma watch_shows_own_conversation:
  assumes "conv_reachable s" and run: "watch_snapshot device revision now s = (Inr (Some w), t)"
  shows "t = expire_due now s \<and> make_watch_view w = Inr w \<and> ws_device w = device
    \<and> (\<exists>h c. claim_of s h = Some c \<and> cv_active c \<and> cv_device c = device \<and> \<not> overdue now c
        \<and> connected_at t h \<noteq> None \<and> cv_revision c = revision \<and> ws_revision w = revision
        \<and> ws_profile w = cv_profile c \<and> ws_generation w = cv_generation c \<and> ws_activity w = cv_activity c
        \<and> (\<forall>k d. claim_of t k = Some d \<and> cv_active d \<and> cv_device d = device \<longrightarrow> k = h))"
proof -
  let ?s = "expire_due now s"
  have inv: "conv_inv ?s" by (rule conv_step_inv [OF conv_reachable_inv [OF assms(1)] expire_due_step])
  from run obtain h c where act: "active_of ?s device = [(h, c)]" and c: "cv_revision c = revision" "connected_at ?s h \<noteq> None"
    and w: "make_watch_view (viewed ?s device revision c) = Inr w" and t: "t = ?s"
    by (auto simp: watch_snapshot_def mutation_eval split: list.splits if_splits sum.splits)
  have same: "w = viewed ?s device revision c" using w by (auto simp: make_watch_view_def result_simps)
  note own = active_of_one [OF inv act]
  have "claim_of s h = Some c \<and> cv_active c \<and> \<not> overdue now c" using active_after_expiry [of now s h c] own(1,2) by simp
  moreover have "\<forall>k d. claim_of ?s k = Some d \<and> cv_active d \<and> cv_device d = device \<longrightarrow> k = h" using own(4) by blast
  moreover have "ws_device w = device" "ws_revision w = revision" "ws_profile w = cv_profile c"
    "ws_generation w = cv_generation c" "ws_activity w = cv_activity c" by (simp_all add: same viewed_def)
  ultimately show ?thesis using c own(3) w same unfolding t by metis
qed

lemma watch_shows_own_conversation_witness:
  "\<exists>w t. watch_snapshot ''puck'' 1 5 demo_talking = (Inr (Some w), t) \<and> ws_device w = ''puck'' \<and> make_watch_view w = Inr w"
proof -
  have "map_sum id (map_option ws_device) (fst (watch_snapshot ''puck'' 1 5 demo_talking)) = Inr (Some ''puck'')" by code_simp
  then obtain w t where run: "watch_snapshot ''puck'' 1 5 demo_talking = (Inr (Some w), t)"
    by (cases "watch_snapshot ''puck'' 1 5 demo_talking"; cases "fst (watch_snapshot ''puck'' 1 5 demo_talking)") auto
  from watch_shows_own_conversation [OF demo_talking_reachable run] run show ?thesis by blast
qed

end
