(* ===== verification/Paired_Room.thy ===== *)
theory Paired_Room
  imports Credential_Properties
begin

text \<open>
  Paired-room admission (\<open>domain/paired_room.py\<close>): the one Device a household has approved
  to wake without an acoustic contest. The snapshot is a validated configuration, the active
  contexts are what \<open>CredentialService.active_wake_devices\<close> returns.
\<close>

record paired_room_policy =
  prp_room :: string
  prp_mappings :: "string list"

definition policy_public :: "paired_room_policy \<Rightarrow> pyval" where
  "policy_public p = obj [(''mode'', PStr ''paired_room''), (''room_id'', PStr (prp_room p)),
     (''wake_mapping_ids'', PList (map PStr (prp_mappings p)))]"

abbreviation forbidden :: "'a cred_result" where
  "forbidden \<equiv> Inl (CredentialStateError ''forbidden'')"

abbreviation permit :: "bool \<Rightarrow> unit cred_result" where
  "permit b \<equiv> checkE b (CredentialStateError ''forbidden'')"

definition indexed_devices :: "configuration \<Rightarrow> (string \<times> device) list" where
  "indexed_devices cfg = dict_update [] (map (\<lambda>d. (device_id d, d)) (cfg_devices cfg))"

fun current_revision :: "pyval \<Rightarrow> int \<Rightarrow> bool" where
  "current_revision PNone n \<longleftrightarrow> True"
| "current_revision (PInt m) n \<longleftrightarrow> m = n"
| "current_revision v n \<longleftrightarrow> False"

text \<open>Another active wake Device that could claim the same mapping.\<close>

definition competes :: "(string \<times> device) list \<Rightarrow> authenticated_device \<Rightarrow> string \<Rightarrow> authenticated_device \<Rightarrow> bool" where
  "competes devices ctx mid other \<longleftrightarrow> auth_device other \<noteq> auth_device ctx
     \<and> (case map_of devices (auth_device other) of
          None \<Rightarrow> False
        | Some d \<Rightarrow> wake_claim (device_caps d) \<and> ''wake_claim'' \<in> set (scope_capabilities (auth_scope other))
            \<and> device_room d \<in> set (scope_rooms (auth_scope other)) \<and> mid \<in> set (scope_mappings (auth_scope other)))"

definition usable_mapping :: "configuration \<Rightarrow> string \<Rightarrow> bool" where
  "usable_mapping cfg mid = (case index_by mapping_id (cfg_mappings cfg) mid of
       None \<Rightarrow> False
     | Some m \<Rightarrow> mapping_active m \<and> (case index_by profile_id (cfg_profiles cfg) (mapping_profile m) of
           None \<Rightarrow> False | Some p \<Rightarrow> profile_available p))"

definition check_mapping :: "configuration \<Rightarrow> authenticated_device \<Rightarrow> authenticated_device list \<Rightarrow> string option
    \<Rightarrow> string \<Rightarrow> unit cred_result" where
  "check_mapping cfg ctx active wanted mid =
     bindE (permit (usable_mapping cfg mid)) (\<lambda>_.
     if wanted \<noteq> None \<and> wanted \<noteq> Some mid then Inr ()
     else permit (\<not> list_ex (competes (indexed_devices cfg) ctx mid) active))"

definition authorize_paired_room :: "snapshot \<Rightarrow> authenticated_device \<Rightarrow> authenticated_device list \<Rightarrow> string option
    \<Rightarrow> pyval \<Rightarrow> paired_room_policy cred_result" where
  "authorize_paired_room snap ctx active wanted revision =
     (let cfg = snap_config snap; devices = indexed_devices cfg in
      bindE (checkE (current_revision revision (snap_revision snap)) (CredentialStateError ''stale_configuration'')) (\<lambda>_.
      bindE (permit (ctx \<in> set active \<and> ''wake_claim'' \<in> set (scope_capabilities (auth_scope ctx)))) (\<lambda>_.
      case map_of devices (auth_device ctx) of
        None \<Rightarrow> forbidden
      | Some dev \<Rightarrow>
          bindE (permit (wake_claim (device_caps dev))) (\<lambda>_.
          bindE (permit (device_room dev \<in> set (scope_rooms (auth_scope ctx))
              \<and> list_ex (\<lambda>r. room_id r = device_room dev) (cfg_rooms cfg))) (\<lambda>_.
          case device_admission dev of
            None \<Rightarrow> forbidden
          | Some approval \<Rightarrow>
              bindE (permit (admission_endpoint approval = auth_endpoint ctx
                  \<and> length (filter (\<lambda>(i, d). device_admission d \<noteq> None) devices) = 1)) (\<lambda>_.
              let ids = filter (\<lambda>i. i \<in> set (scope_mappings (auth_scope ctx))) (admission_mappings approval) in
              bindE (permit (ids \<noteq> [] \<and> (case wanted of None \<Rightarrow> True | Some w \<Rightarrow> w \<in> set ids))) (\<lambda>_.
              bindE (mapE (check_mapping cfg ctx active wanted) ids) (\<lambda>_.
              Inr \<lparr>prp_room = device_room dev, prp_mappings = ids\<rparr>))))))))"

section \<open>What an admission guarantees\<close>

lemma mapE_unit: "(\<exists>us. mapE f xs = Inr us) \<longleftrightarrow> (\<forall>x \<in> set xs. \<exists>u. f x = Inr u)"
  by (induction xs) (auto simp: result_simps)

lemma check_then: "bindE (checkE b e) f = Inr y \<longleftrightarrow> b \<and> f () = Inr y"
  by (simp add: checkE_def)

definition admissible :: "snapshot \<Rightarrow> authenticated_device \<Rightarrow> authenticated_device list \<Rightarrow> string option
    \<Rightarrow> device \<Rightarrow> wake_admission \<Rightarrow> string list \<Rightarrow> bool" where
  "admissible snap ctx active wanted dev approval ids \<longleftrightarrow>
     ctx \<in> set active \<and> ''wake_claim'' \<in> set (scope_capabilities (auth_scope ctx))
     \<and> map_of (indexed_devices (snap_config snap)) (auth_device ctx) = Some dev \<and> wake_claim (device_caps dev)
     \<and> device_room dev \<in> set (scope_rooms (auth_scope ctx)) \<and> device_room dev \<in> set (map room_id (cfg_rooms (snap_config snap)))
     \<and> device_admission dev = Some approval \<and> admission_endpoint approval = auth_endpoint ctx
     \<and> length (filter (\<lambda>(i, d). device_admission d \<noteq> None) (indexed_devices (snap_config snap))) = 1
     \<and> ids = filter (\<lambda>i. i \<in> set (scope_mappings (auth_scope ctx))) (admission_mappings approval)
     \<and> ids \<noteq> [] \<and> (\<forall>w. wanted = Some w \<longrightarrow> w \<in> set ids)
     \<and> (\<forall>mid \<in> set ids. usable_mapping (snap_config snap) mid
          \<and> ((wanted = None \<or> wanted = Some mid) \<longrightarrow> \<not> list_ex (competes (indexed_devices (snap_config snap)) ctx mid) active))"

lemma check_mapping_ok: "(\<exists>u. check_mapping cfg ctx active wanted mid = Inr u) \<longleftrightarrow> usable_mapping cfg mid
     \<and> ((wanted = None \<or> wanted = Some mid) \<longrightarrow> \<not> list_ex (competes (indexed_devices cfg) ctx mid) active)"
  by (auto simp: check_mapping_def result_simps)

lemma authorize_iff:
  "authorize_paired_room snap ctx active wanted revision = Inr policy \<longleftrightarrow>
    current_revision revision (snap_revision snap)
    \<and> (\<exists>dev approval ids. admissible snap ctx active wanted dev approval ids
        \<and> policy = \<lparr>prp_room = device_room dev, prp_mappings = ids\<rparr>)"
proof -
  let ?cfg = "snap_config snap"
  show ?thesis
  proof (cases "map_of (indexed_devices ?cfg) (auth_device ctx)")
    case None
    then show ?thesis by (auto simp: authorize_paired_room_def admissible_def Let_def result_simps)
  next
    case dev: (Some dev)
    show ?thesis
    proof (cases "device_admission dev")
      case None
      with dev show ?thesis by (auto simp: authorize_paired_room_def admissible_def Let_def result_simps)
    next
      case (Some approval)
      let ?ids = "filter (\<lambda>i. i \<in> set (scope_mappings (auth_scope ctx))) (admission_mappings approval)"
      have maps: "(\<exists>us. mapE (check_mapping ?cfg ctx active wanted) ?ids = Inr us) \<longleftrightarrow>
        (\<forall>mid \<in> set ?ids. usable_mapping ?cfg mid
          \<and> ((wanted = None \<or> wanted = Some mid) \<longrightarrow> \<not> list_ex (competes (indexed_devices ?cfg) ctx mid) active))"
        unfolding mapE_unit check_mapping_ok ..
      have wants: "(case wanted of None \<Rightarrow> True | Some w \<Rightarrow> w \<in> set ?ids) \<longleftrightarrow> (\<forall>w. wanted = Some w \<longrightarrow> w \<in> set ?ids)"
        by (cases wanted) auto
      have room: "list_ex (\<lambda>r. room_id r = device_room dev) (cfg_rooms ?cfg) \<longleftrightarrow> device_room dev \<in> set (map room_id (cfg_rooms ?cfg))"
        by (simp add: list_ex_iff image_iff) metis
      have "authorize_paired_room snap ctx active wanted revision = Inr policy \<longleftrightarrow>
        current_revision revision (snap_revision snap) \<and> admissible snap ctx active wanted dev approval ?ids
        \<and> policy = \<lparr>prp_room = device_room dev, prp_mappings = ?ids\<rparr>"
        unfolding authorize_paired_room_def admissible_def Let_def dev Some option.simps check_then room wants maps [symmetric]
        unfolding bindE_eq_Inr sum.inject eq_commute [of policy]
        by (simp only: conj_assoc ex_simps simp_thms)
      moreover have "admissible snap ctx active wanted dev' approval' ids \<longrightarrow> dev' = dev \<and> approval' = approval \<and> ids = ?ids" for dev' approval' ids
        using dev Some by (auto simp: admissible_def)
      ultimately show ?thesis by blast
    qed
  qed
qed

section \<open>The wake view of the credential service\<close>

lemma update_member: "x \<in> set (AList.update k v d) \<Longrightarrow> x = (k, v) \<or> x \<in> set d"
  by (induction d) (auto split: if_splits)

lemma newest_in:
  assumes "newest_credentials cs = Inr newest" and "(did, c) \<in> set newest"
  shows "c \<in> set cs"
proof -
  have "\<forall>(d, x) \<in> set newest. x \<in> set cs"
    using assms(1) unfolding newest_credentials_def
    by (rule foldE_invariant [where P = "\<lambda>n. \<forall>(d, x) \<in> set n. x \<in> set cs"])
      (auto simp: note_newest_def result_simps split: option.splits if_splits dest!: update_member)
  with assms(2) show ?thesis by blast
qed

lemma active_wake_member:
  assumes "active_wake_devices clk s = Inr active" and "a \<in> set active"
  obtains now c where "timestamp clk = Inr now" "c \<in> set (cs_credentials s)" "cred_state c = Active"
    "now < cred_expires c" "authenticated_of c = Inr a"
proof -
  from assms(1) obtain now newest devices where now: "timestamp clk = Inr now"
    and newest: "newest_credentials (cs_credentials s) = Inr newest"
    and devices: "list_all2 (\<lambda>x y. wake_context now x = Inr y) newest devices" and active: "active = concat devices"
    by (auto simp: active_wake_devices_def result_simps mapE_eq_Inr)
  from assms(2) active obtain as where as: "as \<in> set devices" "a \<in> set as" by auto
  with devices obtain did c where c: "(did, c) \<in> set newest" "wake_context now (did, c) = Inr as"
    by (auto simp: list_all2_conv_all_nth in_set_conv_nth) (metis nth_mem surj_pair)
  have "cred_state c = Active \<and> now < cred_expires c \<and> authenticated_of c = Inr a"
    using c(2) as(2) by (auto simp: wake_context_def result_simps split: if_splits)
  with now newest_in [OF newest c(1)] show thesis by (intro that) auto
qed

lemma one_active_unique:
  assumes "credentials_ok cs" and "c \<in> set cs" "c' \<in> set cs" "cred_state c = Active" "cred_state c' = Active"
    "cred_device c' = cred_device c"
  shows "c' = c"
proof -
  have "cred_generation c' = cred_generation c"
    using assms by (intro order_antisym) (simp_all add: credentials_ok_def)
  with assms(2,3,6) show ?thesis
    using distinct_map_unique [of "\<lambda>c. (cred_device c, cred_generation c)" cs c' c] assms(1)
    by (simp add: credentials_ok_def)
qed

lemma one_approval:
  assumes "length (filter (\<lambda>(i, d). device_admission d \<noteq> None) ds) = 1"
    and "map_of ds i = Some d" "device_admission d = Some a" and "map_of ds i' = Some d'" "device_admission d' = Some a'"
  shows "i' = i"
proof -
  from assms(1) obtain x where "filter (\<lambda>(i, d). device_admission d \<noteq> None) ds = [x]"
    by (metis One_nat_def length_0_conv length_Suc_conv)
  moreover have "{(i, d), (i', d')} \<subseteq> set (filter (\<lambda>(i, d). device_admission d \<noteq> None) ds)"
    using assms(2-5) by (auto dest: map_of_SomeD)
  ultimately show ?thesis by (cases x) simp
qed

section \<open>Admission\<close>

text \<open>
  C17. Paired-room admission follows one live credential. Take the active wake contexts of any
  reachable credential state at any time, and any configuration snapshot. If a context is
  admitted, for discovery or for a named mapping, then a credential of the state is active
  and unexpired, is the one the context was read from, and carries the scope an enrollment
  was approved with; the room and every mapping of the policy are inside that scope; the
  Device's approval names the credential's endpoint; and every context admitted against the
  same snapshot and state, for whichever mapping, is the same one.
\<close>

theorem paired_room_admits_one:
  assumes "reachable P s" and "active_wake_devices clk s = Inr active"
    and "authorize_paired_room snap ctx active wanted revision = Inr policy"
  shows "(\<exists>now c r dev approval. timestamp clk = Inr now \<and> c \<in> set (cs_credentials s) \<and> r \<in> set (cs_requests s)
      \<and> cred_state c = Active \<and> now < cred_expires c \<and> authenticated_of c = Inr ctx
      \<and> req_state r = RequestConsumed \<and> req_endpoint r = auth_endpoint ctx \<and> req_approved r = Some (auth_scope ctx)
      \<and> dev \<in> set (cfg_devices (snap_config snap)) \<and> device_id dev = auth_device ctx
      \<and> device_room dev = prp_room policy \<and> device_admission dev = Some approval
      \<and> admission_endpoint approval = auth_endpoint ctx
      \<and> prp_room policy \<in> set (scope_rooms (auth_scope ctx)) \<and> prp_mappings policy \<noteq> []
      \<and> set (prp_mappings policy) \<subseteq> set (scope_mappings (auth_scope ctx)) \<inter> set (admission_mappings approval))
    \<and> (authorize_paired_room snap ctx' active wanted' revision' = Inr policy' \<longrightarrow> ctx' = ctx)"
proof -
  from assms(3) obtain dev approval ids where dev: "admissible snap ctx active wanted dev approval ids"
    and policy: "policy = \<lparr>prp_room = device_room dev, prp_mappings = ids\<rparr>"
    by (auto simp: authorize_iff)
  from dev have adm: "ctx \<in> set active" "map_of (indexed_devices (snap_config snap)) (auth_device ctx) = Some dev"
    "device_admission dev = Some approval"
    by (simp_all add: admissible_def)
  from active_wake_member [OF assms(2) adm(1)] obtain now c where c: "timestamp clk = Inr now"
    "c \<in> set (cs_credentials s)" "cred_state c = Active" "now < cred_expires c" "authenticated_of c = Inr ctx" .
  have inv: "provenance s" "credentials_ok (cs_credentials s)"
    using reachable_inv [OF assms(1)] by (simp_all add: cred_inv_def)
  obtain r where r: "r \<in> set (cs_requests s)" "req_state r = RequestConsumed" "req_endpoint r = auth_endpoint ctx"
    "req_approved r = Some (auth_scope ctx)"
    using inv(1) c(2) authenticated_of_ok [OF c(5)] by (force simp: provenance_def issued_under_def)
  have in_config: "dev \<in> set (cfg_devices (snap_config snap)) \<and> device_id dev = auth_device ctx"
    using map_of_SomeD [OF adm(2) [unfolded indexed_devices_def map_of_dict_update map_of.simps empty_map_add]] by auto
  have same: "ctx' = ctx" if other: "authorize_paired_room snap ctx' active wanted' revision' = Inr policy'"
  proof -
    from other obtain dev' approval' ids' where "admissible snap ctx' active wanted' dev' approval' ids'"
      by (auto simp: authorize_iff)
    then have adm': "ctx' \<in> set active" "map_of (indexed_devices (snap_config snap)) (auth_device ctx') = Some dev'"
      "device_admission dev' = Some approval'"
      by (simp_all add: admissible_def)
    have dids: "auth_device ctx' = auth_device ctx"
      using dev one_approval [OF _ adm(2,3) adm'(2,3)] by (simp add: admissible_def)
    from active_wake_member [OF assms(2) adm'(1)] obtain c' where c': "c' \<in> set (cs_credentials s)"
      "cred_state c' = Active" "authenticated_of c' = Inr ctx'" by metis
    have "c' = c" using inv(2) c c' dids authenticated_of_ok [OF c(5)] authenticated_of_ok [OF c'(3)]
      by (intro one_active_unique [OF inv(2)]) simp_all
    with c(5) c'(3) show ?thesis by simp
  qed
  have "prp_room policy \<in> set (scope_rooms (auth_scope ctx)) \<and> prp_mappings policy \<noteq> []
      \<and> set (prp_mappings policy) \<subseteq> set (scope_mappings (auth_scope ctx)) \<inter> set (admission_mappings approval)
      \<and> admission_endpoint approval = auth_endpoint ctx \<and> device_room dev = prp_room policy"
    using dev unfolding admissible_def policy by auto
  with adm(3) c r in_config same show ?thesis by blast
qed

text \<open>The example household's kitchen Device, enrolled for its room and mapping.\<close>

definition puck_scope :: cred_scope where
  "puck_scope = \<lparr>scope_rooms = [''kitchen''], scope_capabilities = [''wake_claim''], scope_mappings = [''wake''], scope_touch = None\<rparr>"

definition puck_enroll :: "cred_op list" where
  "puck_enroll =
    [CreateOffer (PInt 300) False ''o1'' ''code'' ''short'' (PFloat (Fin 0)),
     SubmitRequest (PStr ''code'') (PStr ''ep'') (PStr ''Puck'') (PStr ''satellite'') (PList [PStr ''kitchen''])
       (PList [PStr ''wake_claim'']) (PList []) (PStr SECURE_STORAGE_PLATFORM) ''r1'' ''ABCD1234'' (PFloat (Fin 10)),
     ApproveRequest (PStr ''r1'') puck_scope (PList [PStr ''kitchen'']) (PList [PStr ''wake'']) (PList []) (PList []) (PFloat (Fin 20)),
     ConsumeRequest (PStr ''r1'') (PStr ''code'') (PStr SECURE_STORAGE_PLATFORM) (Some (PList [])) ''token''
       (\<lambda>i. ''puck'') (PFloat (Fin 30))]"

definition puck_enrolled :: cred_data where
  "puck_enrolled = run_ops (cred_exec demo_protector) EMPTY_STATE puck_enroll"

definition puck_context :: authenticated_device where
  "puck_context = \<lparr>auth_device = ''puck'', auth_endpoint = ''ep'', auth_generation = 1, auth_scope = puck_scope\<rparr>"

lemma puck_reachable: "reachable demo_protector puck_enrolled"
  unfolding reachable_def
proof (intro exI [of _ puck_enroll] conjI)
  show "allowed_run (cred_exec demo_protector) (enroll_ok demo_protector new_device_id) EMPTY_STATE puck_enroll"
    by code_simp
  show "puck_enrolled = run_ops (cred_exec demo_protector) EMPTY_STATE puck_enroll"
    by (rule puck_enrolled_def)
qed

lemma puck_active: "active_wake_devices (demo_at 0) puck_enrolled = Inr [puck_context]"
  by code_simp

lemma puck_admitted:
  "authorize_paired_room demo_snapshot puck_context [puck_context] (Some ''wake'') (PInt 1)
    = Inr \<lparr>prp_room = ''kitchen'', prp_mappings = [''wake'']\<rparr>"
  by code_simp

theorem paired_room_admits_one_witness:
  "\<exists>c r. c \<in> set (cs_credentials puck_enrolled) \<and> cred_state c = Active \<and> authenticated_of c = Inr puck_context
    \<and> r \<in> set (cs_requests puck_enrolled) \<and> req_approved r = Some puck_scope"
proof -
  have "auth_scope puck_context = puck_scope" by (simp add: puck_context_def)
  with paired_room_admits_one [OF puck_reachable puck_active puck_admitted, THEN conjunct1] show ?thesis by metis
qed

end
