(* ===== verification/Authenticators.thy ===== *)
theory Authenticators
  imports Credential_Properties
begin

text \<open>
  The two authenticators of the Home service: the configured one
  (\<open>auth/static.py\<close>) and the one over the credential service (\<open>auth/credentials.py\<close>).
  Headers are the association list \<open>headers.items()\<close> yields; the first name that lower-cases
  to \<open>authorization\<close> counts.
\<close>

section \<open>Reading the header\<close>

text \<open>\<open>str.lower\<close> on the characters a header name can hold (Latin-1).\<close>

definition lower_char :: "char \<Rightarrow> char" where
  "lower_char c = (let n = of_char c :: nat in
     if 65 \<le> n \<and> n \<le> 90 \<or> 192 \<le> n \<and> n \<le> 222 \<and> n \<noteq> 215 then char_of (n + 32) else c)"

definition py_lower :: "string \<Rightarrow> string" where
  "py_lower = map lower_char"

fun authorization :: "(string \<times> pyval) list \<Rightarrow> string" where
  "authorization [] = []"
| "authorization ((name, v) # headers) =
     (if py_lower name = ''authorization'' then (case v of PStr s \<Rightarrow> s | _ \<Rightarrow> []) else authorization headers)"

fun authorization_static :: "(string \<times> string) list \<Rightarrow> string" where
  "authorization_static [] = []"
| "authorization_static ((name, v) # headers) =
     (if py_lower name = ''authorization'' then v else authorization_static headers)"

fun startswith :: "string \<Rightarrow> string \<Rightarrow> bool" where
  "startswith [] s \<longleftrightarrow> True"
| "startswith (c # p) [] \<longleftrightarrow> False"
| "startswith (c # p) (d # s) \<longleftrightarrow> c = d \<and> startswith p s"

definition removeprefix :: "string \<Rightarrow> string \<Rightarrow> string" where
  "removeprefix p s = (if startswith p s then drop (length p) s else s)"

text \<open>
  \<open>hmac.compare_digest\<close> on two strings: it raises \<open>TypeError\<close> when either has a character
  outside ASCII.
\<close>

definition is_ascii :: "string \<Rightarrow> bool" where
  "is_ascii s = list_all (\<lambda>c. (of_char c :: nat) < 128) s"

datatype compare_error = CompareTypeError

definition compare_digest :: "string \<Rightarrow> string \<Rightarrow> (compare_error, bool) result" where
  "compare_digest a b = (if is_ascii a \<and> is_ascii b then Inr (a = b) else Inl CompareTypeError)"

section \<open>The configured authenticator\<close>

record static_authenticator =
  static_admin :: string
  static_devices :: "(string \<times> string) list"

definition static_authenticate_admin :: "static_authenticator \<Rightarrow> (string \<times> string) list \<Rightarrow> bool" where
  "static_authenticate_admin A headers \<longleftrightarrow> authorization_static headers = ''Bearer '' @ static_admin A"

definition static_authenticate_device :: "static_authenticator \<Rightarrow> (string \<times> string) list \<Rightarrow> string option" where
  "static_authenticate_device A headers =
     (let a = authorization_static headers in
      if \<not> startswith ''Device '' a then None else map_of (static_devices A) (removeprefix ''Device '' a))"

section \<open>The authenticator over the credential service\<close>

definition authenticate_admin :: "string \<Rightarrow> (string \<times> pyval) list \<Rightarrow> (compare_error, bool) result" where
  "authenticate_admin token headers = compare_digest (authorization headers) (''Bearer '' @ token)"

definition authenticate_device_context :: "protector \<Rightarrow> (string \<times> pyval) list \<Rightarrow> bool \<Rightarrow> pyval \<Rightarrow> pyval
    \<Rightarrow> authenticated_device option op" where
  "authenticate_device_context P headers allow clk1 clk2 =
     (let a = authorization headers in
      if \<not> startswith ''Device '' a then returnM None
      else let credential = removeprefix ''Device '' a in
        if credential = [] then returnM None
        else authenticate_device P (PStr credential) allow clk1 clk2)"

definition authenticate_device_id :: "protector \<Rightarrow> (string \<times> pyval) list \<Rightarrow> pyval \<Rightarrow> pyval \<Rightarrow> string option op" where
  "authenticate_device_id P headers clk1 clk2 =
     bindM (authenticate_device_context P headers False clk1 clk2) (\<lambda>a. returnM (map_option auth_device a))"

section \<open>What the headers must carry\<close>

lemma startswith_iff: "startswith p s \<longleftrightarrow> (\<exists>t. s = p @ t)"
  by (induction p s rule: startswith.induct) auto

lemma removeprefix_append [simp]: "removeprefix p (p @ t) = t"
  by (simp add: removeprefix_def startswith_iff)

definition beyond_ascii :: "char \<Rightarrow> bool" where
  "beyond_ascii c \<longleftrightarrow> 128 \<le> (of_char c :: nat)"

text \<open>The header that counts: the first whose name is \<open>Authorization\<close> in any case.\<close>

definition auth_header :: "(string \<times> pyval) list \<Rightarrow> pyval option" where
  "auth_header headers = map_option snd (find (\<lambda>(n, v). py_lower n = ''authorization'') headers)"

lemma authorization_header:
  "authorization headers = s \<longleftrightarrow> auth_header headers = Some (PStr s)
     \<or> s = [] \<and> (\<nexists>t. auth_header headers = Some (PStr t))"
  by (induction headers rule: authorization.induct) (auto simp: auth_header_def split: pyval.splits)

lemma authorization_nonempty: "s \<noteq> [] \<Longrightarrow> authorization headers = s \<longleftrightarrow> auth_header headers = Some (PStr s)"
  by (simp add: authorization_header)

text \<open>
  C35. The administrator is recognised exactly by the configured token: the call returns true
  if and only if the first Authorization header, whatever the case of its name, is the text
  \<open>Bearer\<close>, one space and the token, all of it ASCII. It does not return at all, but raises,
  when that header or the token has a character outside ASCII; no other header matters.
\<close>

theorem admin_needs_token:
  "(authenticate_admin token headers = Inr True \<longleftrightarrow>
      auth_header headers = Some (PStr (''Bearer '' @ token)) \<and> is_ascii token)
   \<and> (isl (authenticate_admin token headers) \<longleftrightarrow>
      list_ex beyond_ascii token \<or> (\<exists>s. auth_header headers = Some (PStr s) \<and> list_ex beyond_ascii s))"
proof -
  have not_ascii: "list_ex beyond_ascii s \<longleftrightarrow> \<not> is_ascii s" for s
    by (simp add: is_ascii_def beyond_ascii_def list_ex_iff list_all_iff not_less)
  have bearer: "is_ascii (''Bearer '' @ token) \<longleftrightarrow> is_ascii token" by (simp add: is_ascii_def)
  have "is_ascii (authorization headers) \<longleftrightarrow> (\<nexists>s. auth_header headers = Some (PStr s) \<and> \<not> is_ascii s)"
    using authorization_header [of headers "authorization headers"] by (auto simp: is_ascii_def)
  then show ?thesis
    using authorization_nonempty [of "''Bearer '' @ token" headers] bearer
    unfolding not_ascii by (auto simp: authenticate_admin_def compare_digest_def)
qed

end
