(* ===== verification/Choice_Authority.thy ===== *)
theory Choice_Authority
  imports Transactions
begin

text \<open>
  Typed choice prompts (\<open>bridge/choice_authority.py\<close>). Choice objects are shared by the
  tables of the authority and mutated in place, so they live in a heap: a list that only
  grows, an object's address being its position. A \<open>BridgeEvent\<close> is compared by identity;
  \<open>ev_ref\<close> is the identity of the event object. A clock reading or a drawn token is
  \<open>None\<close> when the injected callable raises.
\<close>

definition CHOICE_EVENT_TYPE :: string where "CHOICE_EVENT_TYPE = ''prompt.request''"
definition CHOICE_TTL_SECONDS :: rat where "CHOICE_TTL_SECONDS = 300"
definition CLARIFY_CHOICE_TTL_SECONDS :: rat where "CLARIFY_CHOICE_TTL_SECONDS = 3600"
definition MAX_CHOICE_CORRELATIONS :: nat where "MAX_CHOICE_CORRELATIONS = 256"
definition MAX_CHOICE_OBJECTS_PER_TURN :: nat where "MAX_CHOICE_OBJECTS_PER_TURN = 128"
definition MAX_CHOICE_OPTIONS :: nat where "MAX_CHOICE_OPTIONS = 32"
definition MAX_CHOICE_ID_LENGTH :: nat where "MAX_CHOICE_ID_LENGTH = 64"
definition MAX_CHOICE_TEXT_LENGTH :: nat where "MAX_CHOICE_TEXT_LENGTH = 1024"
definition MAX_CHOICE_LABEL_LENGTH :: nat where "MAX_CHOICE_LABEL_LENGTH = 256"
definition CHOICE_OPERATIONS :: "string list" where "CHOICE_OPERATIONS = [''choose'', ''explore'']"
definition RESPONSE_FIELDS :: "string list" where
  "RESPONSE_FIELDS = [''operation'', ''option_id'', ''object_id'', ''freshness'']"

datatype choice_error = ChoiceProtocolError string | ChoiceClockOverflow

type_synonym 'a choice_result = "(choice_error, 'a) result"

abbreviation choice_fail :: "string \<Rightarrow> 'a choice_result" where
  "choice_fail m \<equiv> Inl (ChoiceProtocolError m)"

abbreviation demand :: "bool \<Rightarrow> string \<Rightarrow> unit choice_result" where
  "demand b m \<equiv> checkE b (ChoiceProtocolError m)"

record bridge_event =
  ev_ref :: nat
  ev_handle :: string
  ev_type :: string
  ev_payload :: pydict
  ev_turn :: "string option"
  ev_correlation :: "string option"
  ev_session :: pyval
  ev_revision :: pyval
  ev_capabilities :: "string list"
  ev_ttl :: pyval

type_synonym source_key = "string \<times> string \<times> string \<times> int \<times> string \<times> string"
type_synonym turn_key = "string \<times> string"
type_synonym prompt_key = "string \<times> string \<times> string \<times> string"

datatype choice_state = ChoiceActive | ChoiceExpired | ChoiceReplaced | ChoiceRevoked | ChoiceChosen

record choice_object =
  cho_key :: source_key
  cho_handle :: string
  cho_turn :: string
  cho_source_object :: string
  cho_source_freshness :: string
  cho_object :: string
  cho_freshness :: string
  cho_operations :: "string list"
  cho_supported :: "string list"
  cho_options :: "(string \<times> string) list"
  cho_expires :: "rat option"
  cho_state :: choice_state
  cho_ttl :: rat

record correlation =
  cor_event :: bridge_event
  cor_choice :: nat
  cor_consumed :: bool

record choice_decision =
  dn_reason :: "string option"
  dn_operation :: "string option"
  dn_event :: "bridge_event option"
  dn_response :: "pyval option"
  dn_choice :: "nat option"

record authority =
  ca_heap :: "choice_object list"
  ca_objects :: "(source_key \<times> nat) list"
  ca_current :: "(turn_key \<times> nat) list"
  ca_correlations :: "(prompt_key \<times> correlation) list"

type_synonym 'a choice_op = "(authority, choice_error, 'a) mutation"

definition new_authority :: authority where
  "new_authority = \<lparr>ca_heap = [], ca_objects = [], ca_current = [], ca_correlations = []\<rparr>"

section \<open>Reading a prompt\<close>

definition identifier_text :: "string \<Rightarrow> bool" where
  "identifier_text s \<longleftrightarrow> s \<noteq> [] \<and> s = py_strip s \<and> length s \<le> MAX_CHOICE_ID_LENGTH
     \<and> \<not> list_ex (\<lambda>c. ord_of c < 32) s"

fun valid_identifier :: "pyval \<Rightarrow> bool" where
  "valid_identifier (PStr s) \<longleftrightarrow> identifier_text s"
| "valid_identifier v \<longleftrightarrow> False"

fun shown_text :: "pyval \<Rightarrow> string" where
  "shown_text (PStr s) = s"
| "shown_text v = []"

fun displayable :: "nat \<Rightarrow> pyval \<Rightarrow> bool" where
  "displayable n (PStr s) \<longleftrightarrow> py_strip s \<noteq> [] \<and> length s \<le> n"
| "displayable n v \<longleftrightarrow> False"

fun is_bool :: "pyval \<Rightarrow> bool" where
  "is_bool (PBool b) \<longleftrightarrow> True"
| "is_bool v \<longleftrightarrow> False"

text \<open>The two tests on a \<open>sensitive\<close> flag: present means boolean, and never true.\<close>

definition check_privacy :: "pydict \<Rightarrow> string \<Rightarrow> string \<Rightarrow> unit choice_result" where
  "check_privacy d malformed refused =
     bindE (demand (case dget d ''sensitive'' of None \<Rightarrow> True | Some v \<Rightarrow> is_bool v) malformed) (\<lambda>_.
     demand (dget d ''sensitive'' \<noteq> Some (PBool True)) refused)"

fun read_operations :: "pyval \<Rightarrow> string list choice_result" where
  "read_operations (PList vs) =
     (if vs \<noteq> [] \<and> list_all (\<lambda>v. v \<in> PStr ` set CHOICE_OPERATIONS) vs \<and> distinct vs
      then Inr (map shown_text vs) else choice_fail ''typed choice operations are invalid'')"
| "read_operations v = choice_fail ''typed choice operations are invalid''"

fun read_option :: "pyval \<Rightarrow> (string \<times> string) choice_result" where
  "read_option (PDict d) =
     bindE (check_privacy d ''typed choice option privacy flag is invalid''
              ''sensitive options cannot become typed choices'') (\<lambda>_.
     bindE (demand (valid_identifier (dfield d ''id'')) ''typed choice option ID is invalid'') (\<lambda>_.
     bindE (demand (displayable MAX_CHOICE_LABEL_LENGTH (dfield d ''label'')) ''typed choice option label is invalid'') (\<lambda>_.
     Inr (shown_text (dfield d ''id''), shown_text (dfield d ''label'')))))"
| "read_option v = choice_fail ''typed choice option is invalid''"

fun read_options :: "(string \<times> string) list \<Rightarrow> pyval list \<Rightarrow> (string \<times> string) list choice_result" where
  "read_options acc [] = Inr acc"
| "read_options acc (v # vs) =
     bindE (read_option v) (\<lambda>opt.
     bindE (demand (fst opt \<notin> set (map fst acc)) ''typed choice option IDs are duplicated'') (\<lambda>_.
     read_options (acc @ [opt]) vs))"

record choice_prompt =
  cp_text :: string
  cp_object :: string
  cp_freshness :: string
  cp_operations :: "string list"
  cp_options :: "(string \<times> string) list"

definition read_choice :: "pyval \<Rightarrow> (string \<times> string \<times> string list) choice_result" where
  "read_choice v = (case v of
     PDict choice \<Rightarrow>
       bindE (check_privacy choice ''typed choice privacy flag is invalid''
                ''sensitive prompts cannot become typed choices'') (\<lambda>_.
       bindE (demand (valid_identifier (dfield choice ''object_id'') \<and> valid_identifier (dfield choice ''freshness''))
                ''typed choice freshness identity is invalid'') (\<lambda>_.
       bindE (read_operations (dfield choice ''operations'')) (\<lambda>ops.
       Inr (shown_text (dfield choice ''object_id''), shown_text (dfield choice ''freshness''), ops))))
   | _ \<Rightarrow> choice_fail ''typed choice identity is missing'')"

definition normalize_choice_payload :: "pydict \<Rightarrow> choice_prompt choice_result" where
  "normalize_choice_payload payload =
     bindE (demand (dget payload ''prompt_kind'' = Some (PStr ''choice'')) ''typed choice prompt kind is invalid'') (\<lambda>_.
     bindE (check_privacy payload ''typed choice privacy flag is invalid''
              ''sensitive prompts cannot become typed choices'') (\<lambda>_.
     bindE (demand (displayable MAX_CHOICE_TEXT_LENGTH (dfield payload ''text'')) ''typed choice explanation is invalid'') (\<lambda>_.
     bindE (read_choice (dfield payload ''choice'')) (\<lambda>(oid, fresh, ops).
     case dfield payload ''options'' of
       PList vs \<Rightarrow>
         bindE (demand (vs \<noteq> [] \<and> length vs \<le> MAX_CHOICE_OPTIONS) ''typed choice option count is invalid'') (\<lambda>_.
         bindE (read_options [] vs) (\<lambda>opts.
         Inr \<lparr>cp_text = shown_text (dfield payload ''text''), cp_object = oid, cp_freshness = fresh,
              cp_operations = ops, cp_options = opts\<rparr>))
     | _ \<Rightarrow> choice_fail ''typed choice option count is invalid''))))"

text \<open>
  \<open>0 < ttl <= CLARIFY_CHOICE_TTL_SECONDS\<close> fails for NaN and the infinities. A positive int
  up to the bound converts exactly.
\<close>

fun choice_ttl :: "pyval \<Rightarrow> rat choice_result" where
  "choice_ttl PNone = Inr CHOICE_TTL_SECONDS"
| "choice_ttl (PInt n) = (if 0 < n \<and> of_int n \<le> CLARIFY_CHOICE_TTL_SECONDS then Inr (of_int n)
     else choice_fail ''choice TTL is invalid'')"
| "choice_ttl (PFloat (Fin q)) = (if 0 < q \<and> q \<le> CLARIFY_CHOICE_TTL_SECONDS then Inr q
     else choice_fail ''choice TTL is invalid'')"
| "choice_ttl v = choice_fail ''choice TTL is invalid''"

text \<open>\<open>math.isfinite\<close> on an int that no float can hold raises \<open>OverflowError\<close>, outside the \<open>try\<close>.\<close>

fun choice_now :: "pyval option \<Rightarrow> rat choice_result" where
  "choice_now (Some (PInt n)) = (case float_of_int n of None \<Rightarrow> Inl ChoiceClockOverflow | Some t \<Rightarrow> Inr t)"
| "choice_now (Some (PFloat (Fin q))) = Inr q"
| "choice_now v = choice_fail ''choice clock is invalid''"

section \<open>The heap of choice objects\<close>

abbreviation choice_at :: "authority \<Rightarrow> nat \<Rightarrow> choice_object" where
  "choice_at s a \<equiv> ca_heap s ! a"

abbreviation current_of :: "authority \<Rightarrow> turn_key \<Rightarrow> nat option" where
  "current_of s \<equiv> map_of (ca_current s)"

abbreviation is_active :: "authority \<Rightarrow> nat \<Rightarrow> bool" where
  "is_active s a \<equiv> cho_state (choice_at s a) = ChoiceActive"

abbreviation turn_of :: "choice_object \<Rightarrow> turn_key" where
  "turn_of c \<equiv> (cho_handle c, cho_turn c)"

definition set_choice_state :: "choice_state \<Rightarrow> nat \<Rightarrow> authority \<Rightarrow> authority" where
  "set_choice_state st a s = s\<lparr>ca_heap := (ca_heap s)[a := (choice_at s a)\<lparr>cho_state := st\<rparr>]\<rparr>"

definition set_if_active :: "choice_state \<Rightarrow> nat \<Rightarrow> authority \<Rightarrow> authority" where
  "set_if_active st a s = (if is_active s a then set_choice_state st a s else s)"

text \<open>A choice leaves its turn: the turn's current entry goes when it is this very object.\<close>

definition drop_current :: "turn_key \<Rightarrow> nat \<Rightarrow> authority \<Rightarrow> authority" where
  "drop_current tk a s = (if current_of s tk = Some a then s\<lparr>ca_current := AList.delete tk (ca_current s)\<rparr> else s)"

definition lapsed_choice :: "rat \<Rightarrow> choice_object \<Rightarrow> bool" where
  "lapsed_choice now c = (case cho_expires c of None \<Rightarrow> False | Some t \<Rightarrow> t \<le> now)"

section \<open>Projecting a prompt\<close>

definition new_token :: "pyval option \<Rightarrow> string choice_op" where
  "new_token drawn = readM (\<lambda>s. liftM (case drawn of
       None \<Rightarrow> choice_fail ''choice token source failed''
     | Some v \<Rightarrow>
         bindE (demand (valid_identifier v) ''choice token is invalid'') (\<lambda>_.
         bindE (demand (\<not> list_ex (\<lambda>(k, a). shown_text v = cho_object (choice_at s a) \<or> shown_text v = cho_freshness (choice_at s a))
                  (ca_objects s)) ''choice token collision'') (\<lambda>_. Inr (shown_text v)))))"

definition refresh_choice :: "nat \<Rightarrow> turn_key \<Rightarrow> choice_prompt \<Rightarrow> string list \<Rightarrow> rat \<Rightarrow> nat choice_op" where
  "refresh_choice a tk p supported now = readM (\<lambda>s.
     if cho_options (choice_at s a) \<noteq> cp_options p \<or> cho_operations (choice_at s a) \<noteq> cp_operations p
     then bindM (modifyM (set_if_active ChoiceReplaced a)) (\<lambda>_.
          raiseM (ChoiceProtocolError ''choice changed without a new freshness ID''))
     else bindM (modifyM (\<lambda>s. if is_active s a \<and> cho_supported (choice_at s a) \<noteq> supported
            then drop_current tk a (set_choice_state ChoiceRevoked a s) else s)) (\<lambda>_.
          bindM (modifyM (\<lambda>s. if is_active s a \<and> lapsed_choice now (choice_at s a)
            then drop_current tk a (set_choice_state ChoiceExpired a s) else s)) (\<lambda>_.
          returnM a)))"

text \<open>Every state an object can have is counted towards the limit of the turn.\<close>

definition of_turn :: "turn_key \<Rightarrow> source_key \<times> nat \<Rightarrow> bool" where
  "of_turn tk = (\<lambda>((h, t, rest), a). (h, t) = tk)"

definition objects_of_turn :: "turn_key \<Rightarrow> authority \<Rightarrow> nat" where
  "objects_of_turn tk s = length (filter (of_turn tk) (ca_objects s))"

definition register_choice :: "choice_object \<Rightarrow> authority \<Rightarrow> authority" where
  "register_choice c s = (let a = length (ca_heap s) in
     s\<lparr>ca_heap := ca_heap s @ [c], ca_objects := AList.update (cho_key c) a (ca_objects s),
       ca_current := AList.update (turn_of c) a (ca_current s)\<rparr>)"

text \<open>What \<open>project\<close> establishes before it looks at its tables.\<close>

record projected =
  pj_turn :: string
  pj_correlation :: string
  pj_prompt :: choice_prompt
  pj_ttl :: rat
  pj_supported :: "string list"
  pj_key :: source_key

text \<open>The current choice of a turn that is about to be replaced.\<close>

definition replace_current :: "turn_key \<Rightarrow> authority \<Rightarrow> authority" where
  "replace_current tk s = (case current_of s tk of None \<Rightarrow> s | Some b \<Rightarrow> set_if_active ChoiceReplaced b s)"

definition fresh_choice :: "projected \<Rightarrow> turn_key \<Rightarrow> string \<Rightarrow> string \<Rightarrow> choice_object" where
  "fresh_choice q tk oid fresh = \<lparr>cho_key = pj_key q, cho_handle = fst tk, cho_turn = snd tk,
     cho_source_object = cp_object (pj_prompt q), cho_source_freshness = cp_freshness (pj_prompt q),
     cho_object = oid, cho_freshness = fresh, cho_operations = cp_operations (pj_prompt q),
     cho_supported = pj_supported q, cho_options = cp_options (pj_prompt q), cho_expires = None,
     cho_state = ChoiceActive, cho_ttl = pj_ttl q\<rparr>"

definition new_choice :: "projected \<Rightarrow> turn_key \<Rightarrow> pyval option \<Rightarrow> pyval option \<Rightarrow> nat choice_op" where
  "new_choice q tk drawn1 drawn2 = readM (\<lambda>s.
     bindM (checkM (objects_of_turn tk s < MAX_CHOICE_OBJECTS_PER_TURN)
              (ChoiceProtocolError ''choice revision limit exceeded'')) (\<lambda>_.
     bindM (modifyM (replace_current tk)) (\<lambda>_.
     bindM (new_token drawn1) (\<lambda>oid.
     bindM (new_token drawn2) (\<lambda>fresh.
     bindM (checkM (oid \<noteq> fresh) (ChoiceProtocolError ''choice tokens must be distinct'')) (\<lambda>_. readM (\<lambda>s.
     bindM (modifyM (register_choice (fresh_choice q tk oid fresh))) (\<lambda>_. returnM (length (ca_heap s))))))))))"

definition correlation_live :: "authority \<Rightarrow> correlation \<Rightarrow> bool" where
  "correlation_live s r \<longleftrightarrow> is_active s (cor_choice r)
     \<and> current_of s (turn_of (choice_at s (cor_choice r))) = Some (cor_choice r)"

definition prune_inactive_correlations :: "authority \<Rightarrow> authority" where
  "prune_inactive_correlations s = s\<lparr>ca_correlations := filter (\<lambda>(k, r). correlation_live s r) (ca_correlations s)\<rparr>"

definition pruned :: "authority \<Rightarrow> authority" where
  "pruned s = (if MAX_CHOICE_CORRELATIONS \<le> length (ca_correlations s) then prune_inactive_correlations s else s)"

definition remaining_seconds :: "choice_object \<Rightarrow> rat \<Rightarrow> int" where
  "remaining_seconds c now = (if cho_state c \<noteq> ChoiceActive then 0
     else case cho_expires c of None \<Rightarrow> \<lfloor>cho_ttl c\<rfloor> | Some t \<Rightarrow> max 0 \<lceil>t - now\<rceil>)"

definition choice_projection :: "string \<Rightarrow> choice_prompt \<Rightarrow> choice_object \<Rightarrow> bool \<Rightarrow> rat \<Rightarrow> pyval" where
  "choice_projection cid p c current now = obj [(''prompt_id'', PStr cid), (''prompt_kind'', PStr ''choice''),
     (''text'', PStr (cp_text p)), (''timeout_s'', PInt (remaining_seconds c now)),
     (''options'', PList (map (\<lambda>(i, l). obj [(''id'', PStr i), (''label'', PStr l)]) (cp_options p))),
     (''choice'', obj [(''object_id'', PStr (cho_object c)), (''freshness'', PStr (cho_freshness c)),
       (''operations'', PList (map PStr (if current then cho_supported c else [])))])]"

fun claim_binding :: "pyval \<Rightarrow> pyval \<Rightarrow> (string \<times> int) choice_result" where
  "claim_binding (PStr session) (PInt revision) =
     (if session \<noteq> [] \<and> 0 \<le> revision then Inr (session, revision)
      else choice_fail ''choice event has incomplete claim binding'')"
| "claim_binding v w = choice_fail ''choice event has incomplete claim binding''"

definition home_binding :: "bridge_event \<Rightarrow> string \<Rightarrow> (string \<times> string) choice_result" where
  "home_binding ev handle = (case (ev_turn ev, ev_correlation ev) of
     (Some turn, Some cid) \<Rightarrow> if ev_type ev = CHOICE_EVENT_TYPE \<and> ev_handle ev = handle then Inr (turn, cid)
       else choice_fail ''choice event has incomplete Home binding''
   | _ \<Rightarrow> choice_fail ''choice event has incomplete Home binding'')"

definition read_event :: "bridge_event \<Rightarrow> string \<Rightarrow> projected choice_result" where
  "read_event ev handle =
     bindE (home_binding ev handle) (\<lambda>(turn, cid).
     bindE (normalize_choice_payload (ev_payload ev)) (\<lambda>p.
     bindE (choice_ttl (ev_ttl ev)) (\<lambda>ttl.
     bindE (claim_binding (ev_session ev) (ev_revision ev)) (\<lambda>(session, revision).
     Inr \<lparr>pj_turn = turn, pj_correlation = cid, pj_prompt = p, pj_ttl = ttl,
          pj_supported = filter (\<lambda>q. ''prompt.'' @ q \<in> set (ev_capabilities ev)) (cp_operations p),
          pj_key = (handle, turn, session, revision, cp_object p, cp_freshness p)\<rparr>))))"

definition project_choice :: "bridge_event \<Rightarrow> string \<Rightarrow> pyval option \<Rightarrow> pyval option \<Rightarrow> pyval option \<Rightarrow> pyval choice_op" where
  "project_choice ev handle clk drawn1 drawn2 =
     bindM (liftM (read_event ev handle)) (\<lambda>q.
     bindM (liftM (choice_now clk)) (\<lambda>now. readM (\<lambda>s.
     let tk = (handle, pj_turn q); pk = (handle, pj_turn q, pj_correlation q, ev_type ev) in
     bindM (checkM (map_of (ca_correlations s) pk = None) (ChoiceProtocolError ''choice correlation was already issued'')) (\<lambda>_.
     bindM (case map_of (ca_objects s) (pj_key q) of
          Some a \<Rightarrow> refresh_choice a tk (pj_prompt q) (pj_supported q) now
        | None \<Rightarrow> new_choice q tk drawn1 drawn2) (\<lambda>a.
     bindM (modifyM pruned) (\<lambda>_. readM (\<lambda>s.
     bindM (checkM (length (ca_correlations s) < MAX_CHOICE_CORRELATIONS)
              (ChoiceProtocolError ''choice correlation limit exceeded'')) (\<lambda>_.
     bindM (modifyM (\<lambda>s. s\<lparr>ca_correlations := AList.update pk \<lparr>cor_event = ev, cor_choice = a, cor_consumed = False\<rparr>
              (ca_correlations s)\<rparr>)) (\<lambda>_.
     returnM (choice_projection (pj_correlation q) (pj_prompt q) (choice_at s a)
       (current_of s tk = Some a \<and> is_active s a) now))))))))))"

section \<open>Delivery\<close>

definition start_window :: "nat \<Rightarrow> rat \<Rightarrow> authority \<Rightarrow> authority" where
  "start_window a now s = s\<lparr>ca_heap := (ca_heap s)[a := (choice_at s a)\<lparr>cho_expires := Some (now + cho_ttl (choice_at s a))\<rparr>]\<rparr>"

definition mark_delivered :: "string \<Rightarrow> string \<Rightarrow> string \<Rightarrow> pyval option \<Rightarrow> int option choice_op" where
  "mark_delivered handle turn cid clk = readM (\<lambda>s.
     case map_of (ca_correlations s) (handle, turn, cid, CHOICE_EVENT_TYPE) of
       None \<Rightarrow> returnM None
     | Some r \<Rightarrow>
         let a = cor_choice r in
         if \<not> is_active s a \<or> current_of s (handle, turn) \<noteq> Some a then returnM (Some 0)
         else bindM (liftM (choice_now clk)) (\<lambda>now.
           if cho_expires (choice_at s a) = None
           then bindM (modifyM (start_window a now)) (\<lambda>_. readM (\<lambda>s. returnM (Some (remaining_seconds (choice_at s a) now))))
           else if lapsed_choice now (choice_at s a)
           then bindM (modifyM (\<lambda>s. (set_choice_state ChoiceExpired a s)\<lparr>ca_current := AList.delete (handle, turn) (ca_current s)\<rparr>)) (\<lambda>_.
                returnM (Some 0))
           else returnM (Some (remaining_seconds (choice_at s a) now))))"

section \<open>Authorizing a response\<close>

abbreviation refused :: "string \<Rightarrow> choice_decision" where
  "refused reason \<equiv> \<lparr>dn_reason = Some reason, dn_operation = None, dn_event = None, dn_response = None, dn_choice = None\<rparr>"

fun unknown_context :: "string \<Rightarrow> string \<Rightarrow> string \<Rightarrow> prompt_key list \<Rightarrow> string" where
  "unknown_context handle turn cid [] = ''unknown''"
| "unknown_context handle turn cid ((h, t, c, ty) # keys) =
     (if c \<noteq> cid then unknown_context handle turn cid keys
      else if h \<noteq> handle then ''revoked'' else if t \<noteq> turn then ''stale''
      else unknown_context handle turn cid keys)"

definition response_fields :: "pydict \<Rightarrow> bool" where
  "response_fields d \<longleftrightarrow> set (map fst d) = set (map KStr RESPONSE_FIELDS)"

text \<open>The tests on the content of a response, once the choice may be answered.\<close>

definition answer_refusal :: "choice_object \<Rightarrow> pydict \<Rightarrow> string option" where
  "answer_refusal c response =
     (let operation = dfield response ''operation''; option = dfield response ''option_id'';
          object = dfield response ''object_id''; freshness = dfield response ''freshness'' in
      if \<not> response_fields response then Some ''unsupported''
      else if operation \<notin> PStr ` set CHOICE_OPERATIONS then Some ''unsupported''
      else if operation \<notin> PStr ` set (cho_supported c) then Some ''unsupported''
      else if \<not> valid_identifier option \<or> \<not> valid_identifier object \<or> \<not> valid_identifier freshness then Some ''unknown''
      else if object \<noteq> PStr (cho_object c) \<or> freshness \<noteq> PStr (cho_freshness c) then Some ''stale''
      else if option \<notin> PStr ` set (map fst (cho_options c)) then Some ''unknown''
      else None)"

definition accepted_answer :: "correlation \<Rightarrow> choice_object \<Rightarrow> pydict \<Rightarrow> choice_decision" where
  "accepted_answer r c response = \<lparr>dn_reason = None, dn_operation = Some (shown_text (dfield response ''operation'')),
     dn_event = Some (cor_event r),
     dn_response = Some (obj [(''operation'', dfield response ''operation''), (''option_id'', dfield response ''option_id''),
       (''object_id'', PStr (cho_source_object c)), (''freshness'', PStr (cho_source_freshness c))]),
     dn_choice = Some (cor_choice r)\<rparr>"

definition consume_correlation :: "prompt_key \<Rightarrow> authority \<Rightarrow> authority" where
  "consume_correlation pk s = s\<lparr>ca_correlations := AList.map_entry pk (\<lambda>r. r\<lparr>cor_consumed := True\<rparr>) (ca_correlations s)\<rparr>"

definition settle :: "prompt_key \<Rightarrow> correlation \<Rightarrow> pydict \<Rightarrow> string option \<Rightarrow> bridge_event option \<Rightarrow> choice_decision choice_op" where
  "settle pk r response active_turn event = readM (\<lambda>s.
     let a = cor_choice r; c = choice_at s a; (handle, turn, cid, ty) = pk in
     if cho_state c = ChoiceReplaced \<or> current_of s (handle, turn) \<noteq> Some a then returnM (refused ''replaced'')
     else if cho_expires c = None then returnM (refused ''unknown'')
     else if active_turn \<noteq> Some turn \<or> map_option ev_ref event \<noteq> Some (ev_ref (cor_event r)) then returnM (refused ''stale'')
     else if cho_state c = ChoiceChosen then returnM (refused ''duplicate'')
     else case answer_refusal c response of
         Some reason \<Rightarrow> returnM (refused reason)
       | None \<Rightarrow> bindM (modifyM (consume_correlation pk)) (\<lambda>_. returnM (accepted_answer r c response)))"

definition authorize_choice :: "string \<Rightarrow> string \<Rightarrow> string \<Rightarrow> string \<Rightarrow> pydict \<Rightarrow> string option \<Rightarrow> bool
    \<Rightarrow> bridge_event option \<Rightarrow> pyval option \<Rightarrow> choice_decision choice_op" where
  "authorize_choice handle turn cid event_type response active_turn ready event clk = readM (\<lambda>s.
     let pk = (handle, turn, cid, CHOICE_EVENT_TYPE) in
     case map_of (ca_correlations s) pk of
       None \<Rightarrow> returnM (refused (unknown_context handle turn cid (map fst (ca_correlations s))))
     | Some r \<Rightarrow>
         let a = cor_choice r; c = choice_at s a in
         if event_type \<noteq> CHOICE_EVENT_TYPE then returnM (refused ''stale'')
         else if cor_consumed r then returnM (refused ''duplicate'')
         else if \<not> ready \<or> cho_handle c \<noteq> handle then returnM (refused ''revoked'')
         else if cho_state c = ChoiceRevoked then returnM (refused ''revoked'')
         else if cho_state c = ChoiceExpired then returnM (refused ''expired'')
         else if cho_expires c \<noteq> None
         then bindM (liftM (choice_now clk)) (\<lambda>now.
                if lapsed_choice now c
                then bindM (modifyM (set_choice_state ChoiceExpired a)) (\<lambda>_. returnM (refused ''expired''))
                else settle pk r response active_turn event)
         else settle pk r response active_turn event)"

section \<open>Closing\<close>

definition complete_choice :: "choice_decision \<Rightarrow> authority \<Rightarrow> authority" where
  "complete_choice d s = (case dn_choice d of
     None \<Rightarrow> s
   | Some a \<Rightarrow>
       if dn_reason d = None \<and> dn_operation d = Some ''choose'' \<and> current_of s (turn_of (choice_at s a)) = Some a
          \<and> is_active s a
       then set_choice_state ChoiceChosen a s else s)"

definition expire_correlation :: "string \<Rightarrow> string \<Rightarrow> string \<Rightarrow> authority \<Rightarrow> authority" where
  "expire_correlation handle turn cid s =
     (case map_of (ca_correlations s) (handle, turn, cid, CHOICE_EVENT_TYPE) of
        None \<Rightarrow> s
      | Some r \<Rightarrow> if is_active s (cor_choice r)
          then drop_current (handle, turn) (cor_choice r) (set_choice_state ChoiceExpired (cor_choice r) s) else s)"

definition revoke_objects :: "(source_key \<times> nat) list \<Rightarrow> authority \<Rightarrow> authority" where
  "revoke_objects entries s = fold (\<lambda>(k, a). set_if_active ChoiceRevoked a) entries s"

definition revoke_current :: "turn_key \<Rightarrow> authority \<Rightarrow> authority" where
  "revoke_current tk s = (case current_of s tk of None \<Rightarrow> s | Some a \<Rightarrow> set_if_active ChoiceRevoked a s)"

definition revoke_turn :: "string \<Rightarrow> string \<Rightarrow> authority \<Rightarrow> authority" where
  "revoke_turn handle turn s =
     (let tk = (handle, turn);
          s1 = (revoke_current tk s)\<lparr>ca_current := AList.delete tk (ca_current s)\<rparr>;
          s2 = revoke_objects (filter (of_turn tk) (ca_objects s)) s1
      in s2\<lparr>ca_objects := filter (\<lambda>e. \<not> of_turn tk e) (ca_objects s)\<rparr>)"

definition revoke_all :: "authority \<Rightarrow> authority" where
  "revoke_all s = (revoke_objects (ca_objects s) s)\<lparr>ca_current := [], ca_objects := []\<rparr>"

definition knows_correlation :: "string \<Rightarrow> authority \<Rightarrow> bool" where
  "knows_correlation cid s \<longleftrightarrow> list_ex (\<lambda>((h, t, c, ty), r). c = cid) (ca_correlations s)"

section \<open>Invariant\<close>

declare split_paired_All [simp del] split_paired_Ex [simp del]

text \<open>
  What holds between calls: an active choice is the current one of its turn and is still
  registered under its source; the tables point into the heap and agree with the objects
  they name; the limits are kept; and the tokens of registered objects are distinct.
\<close>

definition choice_ok :: "choice_object \<Rightarrow> bool" where
  "choice_ok c \<longleftrightarrow> (\<exists>rest. cho_key c = (cho_handle c, cho_turn c, rest))
     \<and> set (cho_supported c) \<subseteq> set (cho_operations c) \<and> set (cho_operations c) \<subseteq> set CHOICE_OPERATIONS
     \<and> cho_options c \<noteq> [] \<and> length (cho_options c) \<le> MAX_CHOICE_OPTIONS \<and> distinct (map fst (cho_options c))
     \<and> identifier_text (cho_object c) \<and> identifier_text (cho_freshness c) \<and> cho_object c \<noteq> cho_freshness c
     \<and> 0 < cho_ttl c \<and> cho_ttl c \<le> CLARIFY_CHOICE_TTL_SECONDS"

definition tokens_of :: "choice_object \<Rightarrow> string set" where
  "tokens_of c = {cho_object c, cho_freshness c}"

definition heap_inv :: "authority \<Rightarrow> bool" where
  "heap_inv s \<longleftrightarrow>
     (\<forall>a < length (ca_heap s). choice_ok (choice_at s a) \<and> (is_active s a \<longrightarrow>
        current_of s (turn_of (choice_at s a)) = Some a \<and> map_of (ca_objects s) (cho_key (choice_at s a)) = Some a))
   \<and> (\<forall>tk a. current_of s tk = Some a \<longrightarrow> a < length (ca_heap s) \<and> turn_of (choice_at s a) = tk)
   \<and> (\<forall>k a. map_of (ca_objects s) k = Some a \<longrightarrow> a < length (ca_heap s) \<and> cho_key (choice_at s a) = k)"

definition tables_inv :: "authority \<Rightarrow> bool" where
  "tables_inv s \<longleftrightarrow> distinct (map fst (ca_objects s)) \<and> distinct (map fst (ca_current s))
     \<and> distinct (map fst (ca_correlations s)) \<and> length (ca_correlations s) \<le> MAX_CHOICE_CORRELATIONS
     \<and> (\<forall>tk. objects_of_turn tk s \<le> MAX_CHOICE_OBJECTS_PER_TURN)"

definition correlations_inv :: "authority \<Rightarrow> bool" where
  "correlations_inv s \<longleftrightarrow> (\<forall>h t cid ty r. map_of (ca_correlations s) (h, t, cid, ty) = Some r \<longrightarrow>
     cor_choice r < length (ca_heap s) \<and> turn_of (choice_at s (cor_choice r)) = (h, t) \<and> ty = CHOICE_EVENT_TYPE
     \<and> ev_correlation (cor_event r) = Some cid)"

definition tokens_inv :: "authority \<Rightarrow> bool" where
  "tokens_inv s \<longleftrightarrow> (\<forall>k a k' a'. map_of (ca_objects s) k = Some a \<and> map_of (ca_objects s) k' = Some a' \<and> a \<noteq> a'
     \<longrightarrow> tokens_of (choice_at s a) \<inter> tokens_of (choice_at s a') = {})"

definition authority_inv :: "authority \<Rightarrow> bool" where
  "authority_inv s \<longleftrightarrow> heap_inv s \<and> tables_inv s \<and> correlations_inv s \<and> tokens_inv s"

text \<open>What a later heap may change of an object: it may only leave the active state for good.\<close>

definition choice_core :: "choice_object \<Rightarrow> choice_object" where
  "choice_core c = c\<lparr>cho_state := ChoiceActive, cho_expires := None\<rparr>"

definition choice_evolves :: "authority \<Rightarrow> authority \<Rightarrow> bool" where
  "choice_evolves s t \<longleftrightarrow> length (ca_heap s) \<le> length (ca_heap t)
     \<and> (\<forall>a < length (ca_heap s). choice_core (choice_at t a) = choice_core (choice_at s a)
         \<and> (is_active t a \<longrightarrow> is_active s a)
         \<and> (cho_expires (choice_at s a) \<noteq> None \<longrightarrow> cho_expires (choice_at t a) = cho_expires (choice_at s a)))"

lemma choice_evolves_refl [simp]: "choice_evolves s s"
  by (simp add: choice_evolves_def)

lemma choice_evolves_trans: "choice_evolves s t \<Longrightarrow> choice_evolves t u \<Longrightarrow> choice_evolves s u"
  by (simp add: choice_evolves_def)

lemma set_choice_state_fields [simp]:
  "ca_objects (set_choice_state st a s) = ca_objects s" "ca_current (set_choice_state st a s) = ca_current s"
  "ca_correlations (set_choice_state st a s) = ca_correlations s" "length (ca_heap (set_choice_state st a s)) = length (ca_heap s)"
  by (simp_all add: set_choice_state_def)

lemma choice_at_set_state:
  "b < length (ca_heap s) \<Longrightarrow> choice_at (set_choice_state st a s) b
    = (choice_at s b)\<lparr>cho_state := (if b = a then st else cho_state (choice_at s b))\<rparr>"
  by (cases "b = a") (simp_all add: set_choice_state_def)

lemma set_state_evolves: "st \<noteq> ChoiceActive \<Longrightarrow> choice_evolves s (set_choice_state st a s)"
  by (simp add: choice_evolves_def choice_at_set_state choice_core_def)

lemma choice_ok_state [simp]: "choice_ok (c\<lparr>cho_state := st\<rparr>) = choice_ok c" "choice_ok (c\<lparr>cho_expires := e\<rparr>) = choice_ok c"
  by (simp_all add: choice_ok_def)

lemma tokens_of_state [simp]: "tokens_of (c\<lparr>cho_state := st\<rparr>) = tokens_of c" "tokens_of (c\<lparr>cho_expires := e\<rparr>) = tokens_of c"
  by (simp_all add: tokens_of_def)

text \<open>A change that keeps the objects registered, creates nothing and revives nothing.\<close>

lemma core_fields:
  assumes "choice_core c = choice_core d"
  shows "choice_ok c = choice_ok d" "tokens_of c = tokens_of d" "cho_key c = cho_key d" "turn_of c = turn_of d"
    "cho_supported c = cho_supported d" "cho_options c = cho_options d"
proof -
  have "f c = f d" if "\<And>x. f x = f (choice_core x)" for f :: "choice_object \<Rightarrow> 'a"
    using that [of c] that [of d] assms by simp
  note same = this
  show "choice_ok c = choice_ok d" "tokens_of c = tokens_of d" "cho_key c = cho_key d" "turn_of c = turn_of d"
    "cho_supported c = cho_supported d" "cho_options c = cho_options d"
    by (rule same, simp add: choice_core_def)+
qed

lemma heap_objectD: "heap_inv s \<Longrightarrow> a < length (ca_heap s) \<Longrightarrow> choice_ok (choice_at s a)
    \<and> (is_active s a \<longrightarrow> current_of s (turn_of (choice_at s a)) = Some a
        \<and> map_of (ca_objects s) (cho_key (choice_at s a)) = Some a)"
  unfolding heap_inv_def by blast

lemma heap_currentD: "heap_inv s \<Longrightarrow> current_of s tk = Some a \<Longrightarrow> a < length (ca_heap s) \<and> turn_of (choice_at s a) = tk"
  unfolding heap_inv_def by blast

lemma heap_registeredD: "heap_inv s \<Longrightarrow> map_of (ca_objects s) k = Some a \<Longrightarrow> a < length (ca_heap s) \<and> cho_key (choice_at s a) = k"
  unfolding heap_inv_def by blast

lemma kept_inv:
  assumes inv: "authority_inv s" and ev: "choice_evolves s t"
    and same: "length (ca_heap t) = length (ca_heap s)" "ca_objects t = ca_objects s"
    and cur: "distinct (map fst (ca_current t))" "\<And>tk a. current_of t tk = Some a \<Longrightarrow> current_of s tk = Some a"
      "\<And>a. a < length (ca_heap s) \<Longrightarrow> is_active t a \<Longrightarrow> current_of s (turn_of (choice_at s a)) = Some a
        \<Longrightarrow> current_of t (turn_of (choice_at s a)) = Some a"
    and cor: "distinct (map fst (ca_correlations t))" "length (ca_correlations t) \<le> MAX_CHOICE_CORRELATIONS"
      "\<And>k r. map_of (ca_correlations t) k = Some r \<Longrightarrow> \<exists>r'. map_of (ca_correlations s) k = Some r'
        \<and> cor_choice r = cor_choice r' \<and> cor_event r = cor_event r'"
  shows "authority_inv t"
proof -
  have core: "choice_core (choice_at t a) = choice_core (choice_at s a)" "is_active t a \<Longrightarrow> is_active s a"
    if "a < length (ca_heap s)" for a using ev that by (simp_all add: choice_evolves_def)
  have i: "heap_inv s" "tables_inv s" "correlations_inv s" "tokens_inv s" using inv by (simp_all add: authority_inv_def)
  have "heap_inv t" unfolding heap_inv_def same
  proof (intro conjI allI impI)
    fix a assume a: "a < length (ca_heap s)"
    show "choice_ok (choice_at t a)" using heap_objectD [OF i(1) a] core_fields(1) [OF core(1) [OF a]] by simp
    assume act: "is_active t a"
    then have "current_of s (turn_of (choice_at s a)) = Some a" "map_of (ca_objects s) (cho_key (choice_at s a)) = Some a"
      using heap_objectD [OF i(1) a] core(2) [OF a] by simp_all
    then show "current_of t (turn_of (choice_at t a)) = Some a" "map_of (ca_objects s) (cho_key (choice_at t a)) = Some a"
      using cur(3) [OF a act] core_fields(3,4) [OF core(1) [OF a]] by simp_all
  next
    fix tk a assume "current_of t tk = Some a"
    then have "current_of s tk = Some a" by (rule cur(2))
    then show "a < length (ca_heap s)" "turn_of (choice_at t a) = tk"
      using heap_currentD [OF i(1)] core_fields(4) [OF core(1)] by simp_all
  next
    fix k a assume "map_of (ca_objects s) k = Some a"
    then show "a < length (ca_heap s)" "cho_key (choice_at t a) = k"
      using heap_registeredD [OF i(1)] core_fields(3) [OF core(1)] by simp_all
  qed
  moreover have "tables_inv t" using i(2) cur(1) cor(1,2) same by (simp add: tables_inv_def objects_of_turn_def)
  moreover have "correlations_inv t" unfolding correlations_inv_def
  proof (intro allI impI)
    fix h tu cid ty r assume "map_of (ca_correlations t) (h, tu, cid, ty) = Some r"
    from cor(3) [OF this] i(3) show "cor_choice r < length (ca_heap t) \<and> turn_of (choice_at t (cor_choice r)) = (h, tu)
      \<and> ty = CHOICE_EVENT_TYPE \<and> ev_correlation (cor_event r) = Some cid"
      using core_fields(4) [OF core(1)] same(1) unfolding correlations_inv_def by metis
  qed
  moreover have "tokens_inv t"
    using i(4) core_fields(2) [OF core(1)] heap_registeredD [OF i(1)] unfolding tokens_inv_def same by metis
  ultimately show ?thesis by (simp add: authority_inv_def)
qed

lemma inv_parts:
  assumes "authority_inv s"
  shows "distinct (map fst (ca_current s))" "distinct (map fst (ca_correlations s))"
    "length (ca_correlations s) \<le> MAX_CHOICE_CORRELATIONS" "distinct (map fst (ca_objects s))"
  using assms by (simp_all add: authority_inv_def tables_inv_def)

lemma set_state_inv:
  assumes "authority_inv s" and "st \<noteq> ChoiceActive"
  shows "authority_inv (set_choice_state st a s)"
  by (rule kept_inv [OF assms(1) set_state_evolves [OF assms(2)]]) (simp_all add: inv_parts [OF assms(1)])

section \<open>Steps\<close>

definition choice_step :: "authority \<Rightarrow> authority \<Rightarrow> bool" where
  "choice_step s t \<longleftrightarrow> choice_evolves s t \<and> (authority_inv s \<longrightarrow> authority_inv t)"

named_theorems choice_steps \<open>changes that keep the invariant and let no choice come back\<close>

lemma choice_step_refl [choice_steps]: "choice_step s s"
  by (simp add: choice_step_def)

lemma choice_step_trans [trans]: "choice_step s t \<Longrightarrow> choice_step t u \<Longrightarrow> choice_step s u"
  unfolding choice_step_def using choice_evolves_trans by blast

lemma choice_step_inv: "choice_step s t \<Longrightarrow> authority_inv s \<Longrightarrow> authority_inv t"
  by (simp add: choice_step_def)

lemma set_state_step [choice_steps]: "st \<noteq> ChoiceActive \<Longrightarrow> choice_step s (set_choice_state st a s)"
  by (simp add: choice_step_def set_state_evolves set_state_inv)

lemma set_if_active_step [choice_steps]: "st \<noteq> ChoiceActive \<Longrightarrow> choice_step s (set_if_active st a s)"
  by (simp add: set_if_active_def choice_steps)

text \<open>A choice that is not active may lose its place as the current one.\<close>

lemma unset_current_step:
  assumes "\<And>a. current_of s tk = Some a \<Longrightarrow> a < length (ca_heap s) \<Longrightarrow> \<not> is_active s a"
  shows "choice_step s (s\<lparr>ca_current := AList.delete tk (ca_current s)\<rparr>)"
proof -
  have "authority_inv (s\<lparr>ca_current := AList.delete tk (ca_current s)\<rparr>)" if "authority_inv s"
    by (rule kept_inv [OF that])
      (use assms in \<open>auto simp: choice_evolves_def inv_parts [OF that] delete_conv' distinct_delete split: if_splits\<close>)
  then show ?thesis by (simp add: choice_step_def choice_evolves_def)
qed

lemma drop_current_step:
  assumes "a < length (ca_heap s) \<Longrightarrow> \<not> is_active s a"
  shows "choice_step s (drop_current tk a s)"
  unfolding drop_current_def using assms by (auto intro: unset_current_step choice_step_refl)

lemma retire_step [choice_steps]: "st \<noteq> ChoiceActive \<Longrightarrow> choice_step s (drop_current tk a (set_choice_state st a s))"
  by (rule choice_step_trans [OF set_state_step drop_current_step]) (simp_all add: choice_at_set_state)

lemma start_window_step:
  assumes "cho_expires (choice_at s a) = None"
  shows "choice_step s (start_window a now s)"
proof -
  have at: "choice_at (start_window a now s) b = (choice_at s b)\<lparr>cho_expires :=
      (if b = a then Some (now + cho_ttl (choice_at s a)) else cho_expires (choice_at s b))\<rparr>"
    if "b < length (ca_heap s)" for b using that by (cases "b = a") (simp_all add: start_window_def)
  have same: "length (ca_heap (start_window a now s)) = length (ca_heap s)" "ca_objects (start_window a now s) = ca_objects s"
    "ca_current (start_window a now s) = ca_current s" "ca_correlations (start_window a now s) = ca_correlations s"
    by (simp_all add: start_window_def)
  have ev: "choice_evolves s (start_window a now s)"
    using assms by (auto simp: choice_evolves_def at same choice_core_def)
  have "authority_inv (start_window a now s)" if "authority_inv s"
    by (rule kept_inv [OF that ev]) (simp_all add: same inv_parts [OF that])
  with ev show ?thesis by (simp add: choice_step_def)
qed

lemma length_map_entry [simp]: "length (AList.map_entry k f xs) = length xs"
  by (induction xs) auto

lemma spend_step [choice_steps]: "choice_step s (consume_correlation pk s)"
proof -
  have ev: "choice_evolves s (consume_correlation pk s)" by (simp add: consume_correlation_def choice_evolves_def)
  have "authority_inv (consume_correlation pk s)" if "authority_inv s"
    by (rule kept_inv [OF that ev])
      (auto simp: consume_correlation_def inv_parts [OF that] map_of_map_entry distinct_map_entry split: option.splits if_splits)
  with ev show ?thesis by (simp add: choice_step_def)
qed

lemma prune_step [choice_steps]: "choice_step s (prune_inactive_correlations s)"
proof -
  let ?t = "prune_inactive_correlations s"
  have ev: "choice_evolves s ?t" by (simp add: prune_inactive_correlations_def choice_evolves_def)
  have "authority_inv ?t" if inv: "authority_inv s"
  proof (rule kept_inv [OF inv ev])
    show "length (ca_correlations ?t) \<le> MAX_CHOICE_CORRELATIONS"
      by (simp add: prune_inactive_correlations_def le_trans [OF length_filter_le inv_parts(3) [OF inv]])
    show "distinct (map fst (ca_correlations ?t))"
      by (simp add: prune_inactive_correlations_def distinct_map_filter inv_parts [OF inv])
    show "\<exists>r'. map_of (ca_correlations s) k = Some r' \<and> cor_choice r = cor_choice r' \<and> cor_event r = cor_event r'"
      if "map_of (ca_correlations ?t) k = Some r" for k r
      using map_of_SomeD [OF that] inv_parts(2) [OF inv] by (auto simp: prune_inactive_correlations_def)
  qed (simp_all add: prune_inactive_correlations_def inv_parts [OF inv])
  with ev show ?thesis by (simp add: choice_step_def)
qed

lemma revoke_objects_fields [simp]:
  "ca_objects (revoke_objects es s) = ca_objects s" "ca_current (revoke_objects es s) = ca_current s"
  "ca_correlations (revoke_objects es s) = ca_correlations s" "length (ca_heap (revoke_objects es s)) = length (ca_heap s)"
  by (induction es arbitrary: s) (auto simp: revoke_objects_def set_if_active_def)

lemma revoke_objects_step [choice_steps]: "choice_step s (revoke_objects es s)"
proof (induction es arbitrary: s)
  case Nil
  then show ?case by (simp add: revoke_objects_def choice_step_refl)
next
  case (Cons e es)
  have "choice_step s (set_if_active ChoiceRevoked (snd e) s)" by (simp add: choice_steps)
  with Cons [of "set_if_active ChoiceRevoked (snd e) s"] show ?case
    by (cases e) (simp add: revoke_objects_def choice_step_trans)
qed

lemma revoke_objects_inactive:
  assumes "a \<in> snd ` set es" and "a < length (ca_heap s)"
  shows "\<not> is_active (revoke_objects es s) a"
  using assms
proof (induction es arbitrary: s)
  case (Cons e es)
  let ?s = "set_if_active ChoiceRevoked (snd e) s"
  have len: "length (ca_heap ?s) = length (ca_heap s)" by (simp add: set_if_active_def)
  have unfold: "revoke_objects (e # es) s = revoke_objects es ?s" by (cases e) (simp add: revoke_objects_def)
  show ?case
  proof (cases "a \<in> snd ` set es")
    case True
    then show ?thesis using Cons.IH [of ?s] Cons.prems(2) len by (simp add: unfold)
  next
    case False
    then have "\<not> is_active ?s a" using Cons.prems by (simp add: set_if_active_def choice_at_set_state)
    moreover have "choice_evolves ?s (revoke_objects es ?s)" using revoke_objects_step by (simp add: choice_step_def)
    ultimately show ?thesis using Cons.prems(2) len by (auto simp: unfold choice_evolves_def)
  qed
qed simp

text \<open>Registered objects that are not active may be forgotten.\<close>

lemma forget_step:
  assumes "\<And>k a. map_of (ca_objects s) k = Some a \<Longrightarrow> a < length (ca_heap s) \<Longrightarrow> is_active s a \<Longrightarrow> p (k, a)"
  shows "choice_step s (s\<lparr>ca_objects := filter p (ca_objects s)\<rparr>)"
proof -
  let ?t = "s\<lparr>ca_objects := filter p (ca_objects s)\<rparr>"
  have "authority_inv ?t" if inv: "authority_inv s"
  proof -
    have i: "heap_inv s" "tables_inv s" "correlations_inv s" "tokens_inv s" using inv by (simp_all add: authority_inv_def)
    have kept: "map_of (filter p (ca_objects s)) k = Some a \<longleftrightarrow> map_of (ca_objects s) k = Some a \<and> p (k, a)" for k a
      using inv_parts(4) [OF inv] by (simp add: map_of_eq_Some_iff distinct_map_filter conj_commute)
    have "p (cho_key (choice_at s a), a)" if "a < length (ca_heap s)" "is_active s a" for a
      using assms heap_objectD [OF i(1) that(1)] that by blast
    then have "heap_inv ?t" using i(1) unfolding heap_inv_def by (simp add: kept) blast
    moreover have "objects_of_turn tk ?t \<le> MAX_CHOICE_OBJECTS_PER_TURN" for tk
    proof -
      have "filter (of_turn tk) (filter p (ca_objects s)) = filter p (filter (of_turn tk) (ca_objects s))"
        by (simp add: conj_commute)
      then have "objects_of_turn tk ?t \<le> objects_of_turn tk s"
        by (simp del: filter_filter add: objects_of_turn_def)
      then show ?thesis using i(2) unfolding tables_inv_def by (meson le_trans)
    qed
    then have "tables_inv ?t" using i(2) by (simp add: tables_inv_def distinct_map_filter)
    moreover have "correlations_inv ?t" using i(3) by (simp add: correlations_inv_def)
    moreover have "tokens_inv ?t" using i(4) unfolding tokens_inv_def by (simp add: kept) blast
    ultimately show ?thesis by (simp add: authority_inv_def)
  qed
  then show ?thesis by (simp add: choice_step_def choice_evolves_def)
qed

lemma set_if_active_objects [simp]: "ca_objects (set_if_active st a s) = ca_objects s"
  "ca_current (set_if_active st a s) = ca_current s" "ca_correlations (set_if_active st a s) = ca_correlations s"
  "length (ca_heap (set_if_active st a s)) = length (ca_heap s)"
  by (simp_all add: set_if_active_def)

lemma set_if_active_at: "st \<noteq> ChoiceActive \<Longrightarrow> a < length (ca_heap s) \<Longrightarrow> \<not> is_active (set_if_active st a s) a"
  by (simp add: set_if_active_def choice_at_set_state)

lemma revoke_current_same: "ca_objects (revoke_current tk s) = ca_objects s" "ca_current (revoke_current tk s) = ca_current s"
  "length (ca_heap (revoke_current tk s)) = length (ca_heap s)"
  by (simp_all add: revoke_current_def split: option.splits)

lemma revoke_turn_phases:
  "revoke_turn h tu s = (let s1 = (revoke_current (h, tu) s)\<lparr>ca_current := AList.delete (h, tu) (ca_current s)\<rparr>;
     s2 = revoke_objects (filter (of_turn (h, tu)) (ca_objects s)) s1
   in s2\<lparr>ca_objects := filter (\<lambda>e. \<not> of_turn (h, tu) e) (ca_objects s2)\<rparr>)"
  by (simp add: revoke_turn_def Let_def revoke_current_same)

lemma revoke_turn_step [choice_steps]: "choice_step s (revoke_turn h tu s)"
proof -
  let ?s0 = "revoke_current (h, tu) s"
  let ?s1 = "?s0\<lparr>ca_current := AList.delete (h, tu) (ca_current s)\<rparr>"
  let ?es = "filter (of_turn (h, tu)) (ca_objects s)"
  let ?s2 = "revoke_objects ?es ?s1"
  have "choice_step s ?s0" by (simp add: revoke_current_def choice_steps split: option.splits)
  also have "choice_step ?s0 ?s1"
    using unset_current_step [of ?s0 "(h, tu)"] set_if_active_at [of ChoiceRevoked]
    by (simp add: revoke_current_same) (simp add: revoke_current_def)
  also have "choice_step ?s1 ?s2" by (rule revoke_objects_step)
  also have "choice_step ?s2 (revoke_turn h tu s)"
  proof -
    have "\<not> of_turn (h, tu) (k, a)"
      if "map_of (ca_objects s) k = Some a" "a < length (ca_heap s)" "is_active ?s2 a" for k a
      using that revoke_objects_inactive [of a ?es ?s1] map_of_SomeD [OF that(1)]
      by (force simp: revoke_current_same image_iff)
    then show ?thesis
      using forget_step [of ?s2 "\<lambda>e. \<not> of_turn (h, tu) e"] by (simp add: revoke_turn_phases Let_def revoke_current_same)
  qed
  finally show ?thesis .
qed

lemma revoke_all_step [choice_steps]: "choice_step s (revoke_all s)"
proof -
  let ?t = "revoke_objects (ca_objects s) s"
  have "authority_inv (revoke_all s)" if "authority_inv s"
  proof -
    have inv: "authority_inv ?t" using revoke_objects_step that by (simp add: choice_step_def)
    then have parts: "heap_inv ?t" "tables_inv ?t" "correlations_inv ?t" by (simp_all add: authority_inv_def)
    have "\<not> is_active ?t a" if a: "a < length (ca_heap ?t)" for a
    proof
      assume "is_active ?t a"
      then have "map_of (ca_objects s) (cho_key (choice_at ?t a)) = Some a" using heap_objectD [OF parts(1) a] by simp
      then have "a \<in> snd ` set (ca_objects s)" by (force dest: map_of_SomeD)
      with revoke_objects_inactive [of a "ca_objects s" s] a \<open>is_active ?t a\<close> show False by simp
    qed
    with parts show ?thesis
      by (simp add: authority_inv_def revoke_all_def heap_inv_def tables_inv_def correlations_inv_def tokens_inv_def objects_of_turn_def)
  qed
  moreover have "choice_evolves s (revoke_all s)"
    using revoke_objects_step [of s "ca_objects s"] by (simp add: choice_step_def choice_evolves_def revoke_all_def)
  ultimately show ?thesis by (simp add: choice_step_def)
qed

lemma complete_choice_step [choice_steps]: "choice_step s (complete_choice d s)"
  by (simp add: complete_choice_def choice_steps split: option.splits)

lemma expire_correlation_step [choice_steps]: "choice_step s (expire_correlation h tu cid s)"
  by (simp add: expire_correlation_def choice_steps split: option.splits)

lemma bindM_choice_step:
  assumes "choice_step s (snd (m s))" and "\<And>x t. m s = (Inr x, t) \<Longrightarrow> choice_step t (snd (f x t))"
  shows "choice_step s (snd (bindM m f s))"
proof (cases "m s")
  case (Pair r t)
  then show ?thesis using assms by (cases r) (auto simp: bindM_def intro: choice_step_trans)
qed

lemma mark_delivered_step [choice_steps]: "choice_step s (snd (mark_delivered h tu cid clk s))"
proof -
  have expire: "choice_step s ((set_choice_state ChoiceExpired a s)\<lparr>ca_current := AList.delete (h, tu) (ca_current s)\<rparr>)"
    if "current_of s (h, tu) = Some a" for a
    using choice_step_trans [OF set_state_step unset_current_step [of "set_choice_state ChoiceExpired a s" "(h, tu)"]] that
    by (simp add: choice_at_set_state)
  show ?thesis unfolding mark_delivered_def readM_def
    by (auto simp: Let_def mutation_eval choice_step_refl expire start_window_step split: option.splits sum.splits)
qed

lemma settle_step: "choice_step s (snd (settle pk r response act ev s))"
  unfolding settle_def readM_def
  by (auto simp: Let_def mutation_eval choice_steps split: option.splits prod.splits)

lemma authorize_choice_step [choice_steps]:
  "choice_step s (snd (authorize_choice h tu cid ty response act ready ev clk s))"
  unfolding authorize_choice_def readM_def
  by (auto simp: Let_def mutation_eval choice_steps settle_step split: option.splits sum.splits)

lemma refresh_choice_step: "choice_step s (snd (refresh_choice a tk p supported now s))"
  unfolding refresh_choice_def readM_def
  by (auto simp: bindM_def modifyM_def liftM_def intro: choice_steps choice_step_trans [OF retire_step retire_step])

lemma new_token_ok: "new_token drawn s = (Inr v, t) \<Longrightarrow> t = s \<and> identifier_text v
    \<and> (\<forall>k a. map_of (ca_objects s) k = Some a \<longrightarrow> v \<notin> tokens_of (choice_at s a))"
  by (auto simp: new_token_def mutation_simps result_simps list_ex_iff tokens_of_def split: option.splits
      dest!: map_of_SomeD elim!: valid_identifier.elims)

lemma new_token_same: "new_token drawn s = (r, t) \<Longrightarrow> t = s"
  by (simp add: new_token_def mutation_eval)

lemma update_new: "map_of al k = None \<Longrightarrow> AList.update k v al = al @ [(k, v)]"
  by (induction al) (auto split: if_splits)

lemma objects_of_turn_register:
  "map_of (ca_objects s) (cho_key c) = None \<Longrightarrow> objects_of_turn tk (register_choice c s) \<le> objects_of_turn tk s + 1
    \<and> (\<not> of_turn tk (cho_key c, length (ca_heap s)) \<longrightarrow> objects_of_turn tk (register_choice c s) = objects_of_turn tk s)"
  by (simp add: objects_of_turn_def register_choice_def Let_def update_new)

lemma register_step:
  assumes fresh: "map_of (ca_objects s) (cho_key c) = None" and ok: "choice_ok c" and active: "cho_state c = ChoiceActive"
    and room: "objects_of_turn (turn_of c) s < MAX_CHOICE_OBJECTS_PER_TURN"
    and idle: "\<And>b. current_of s (turn_of c) = Some b \<Longrightarrow> b < length (ca_heap s) \<Longrightarrow> \<not> is_active s b"
    and tokens: "\<And>k a. map_of (ca_objects s) k = Some a \<Longrightarrow> tokens_of c \<inter> tokens_of (choice_at s a) = {}"
  shows "choice_step s (register_choice c s)"
proof -
  let ?t = "register_choice c s"
  have at: "a < length (ca_heap s) \<Longrightarrow> choice_at ?t a = choice_at s a" for a
    by (simp add: register_choice_def Let_def nth_append)
  have new: "choice_at ?t (length (ca_heap s)) = c" by (simp add: register_choice_def Let_def)
  have len: "length (ca_heap ?t) = Suc (length (ca_heap s))" by (simp add: register_choice_def Let_def)
  have obj: "map_of (ca_objects ?t) = (map_of (ca_objects s))(cho_key c \<mapsto> length (ca_heap s))"
    and cur: "current_of ?t = (current_of s)(turn_of c \<mapsto> length (ca_heap s))"
    by (simp_all add: register_choice_def Let_def update_conv')
  have "authority_inv ?t" if inv: "authority_inv s"
  proof -
    have i: "heap_inv s" "tables_inv s" "correlations_inv s" "tokens_inv s" using inv by (simp_all add: authority_inv_def)
    have "heap_inv ?t" unfolding heap_inv_def
    proof (intro conjI allI impI)
      fix a assume "a < length (ca_heap ?t)"
      then consider (old) "a < length (ca_heap s)" | (new) "a = length (ca_heap s)"
        unfolding len by linarith
      note cases = this
      show "choice_ok (choice_at ?t a)"
        by (cases rule: cases) (use heap_objectD [OF i(1)] at new ok in auto)
      assume act: "is_active ?t a"
      show "current_of ?t (turn_of (choice_at ?t a)) = Some a"
      proof (cases rule: cases)
        case old
        then have "current_of s (turn_of (choice_at s a)) = Some a" "is_active s a"
          using heap_objectD [OF i(1) old] act at by simp_all
        then have "turn_of (choice_at s a) \<noteq> turn_of c" using idle old by metis
        with \<open>current_of s _ = _\<close> old show ?thesis by (simp add: at cur)
      qed (simp add: new cur)
      show "map_of (ca_objects ?t) (cho_key (choice_at ?t a)) = Some a"
      proof (cases rule: cases)
        case old
        then have "map_of (ca_objects s) (cho_key (choice_at s a)) = Some a"
          using heap_objectD [OF i(1) old] act at by simp
        with fresh old show ?thesis by (auto simp: at obj)
      qed (simp add: new obj)
    next
      fix tk a assume a: "current_of ?t tk = Some a"
      show "a < length (ca_heap ?t)" "turn_of (choice_at ?t a) = tk"
        using a heap_currentD [OF i(1), of tk a] at new len by (auto simp: cur split: if_splits)
    next
      fix k a assume a: "map_of (ca_objects ?t) k = Some a"
      show "a < length (ca_heap ?t)" "cho_key (choice_at ?t a) = k"
        using a heap_registeredD [OF i(1), of k a] at new len by (auto simp: obj split: if_splits)
    qed
    moreover have "objects_of_turn tk ?t \<le> MAX_CHOICE_OBJECTS_PER_TURN" for tk
    proof (cases "tk = turn_of c")
      case True
      then show ?thesis using objects_of_turn_register [OF fresh, of tk] room by simp
    next
      case False
      obtain rest where "cho_key c = (cho_handle c, cho_turn c, rest)" using ok by (auto simp: choice_ok_def)
      with False have "\<not> of_turn tk (cho_key c, length (ca_heap s))" by (auto simp: of_turn_def)
      then show ?thesis using objects_of_turn_register [OF fresh, of tk] i(2) by (simp add: tables_inv_def)
    qed
    then have "tables_inv ?t"
      using i(2) by (simp add: tables_inv_def register_choice_def Let_def distinct_update)
    moreover have "correlations_inv ?t"
    proof -
      have "ca_correlations ?t = ca_correlations s" by (simp add: register_choice_def Let_def)
      with i(3) show ?thesis unfolding correlations_inv_def len by (metis at less_SucI)
    qed
    moreover have "tokens_inv ?t" unfolding tokens_inv_def
    proof (intro allI impI)
      fix k a k' a' assume a: "map_of (ca_objects ?t) k = Some a \<and> map_of (ca_objects ?t) k' = Some a' \<and> a \<noteq> a'"
      have old: "tokens_of (choice_at ?t b) = tokens_of (choice_at s b) \<and> map_of (ca_objects s) q = Some b
          \<or> choice_at ?t b = c \<and> b = length (ca_heap s)"
        if "map_of (ca_objects ?t) q = Some b" for q b
        using that heap_registeredD [OF i(1), of q b] at new by (auto simp: obj split: if_splits)
      show "tokens_of (choice_at ?t a) \<inter> tokens_of (choice_at ?t a') = {}"
        using old [of k a] old [of k' a'] a tokens [of k a] tokens [of k' a'] i(4) unfolding tokens_inv_def
        by (metis Int_commute)
    qed
    ultimately show ?thesis by (simp add: authority_inv_def)
  qed
  moreover have "choice_evolves s ?t" using at len by (simp add: choice_evolves_def)
  ultimately show ?thesis by (simp add: choice_step_def)
qed

text \<open>What \<open>read_event\<close> guarantees of a choice made from it.\<close>

lemma read_options_ok:
  "read_options acc vs = Inr opts \<Longrightarrow> distinct (map fst acc) \<Longrightarrow>
    distinct (map fst opts) \<and> length opts = length acc + length vs"
proof (induction acc vs arbitrary: opts rule: read_options.induct)
  case (2 acc v vs)
  then show ?case by (auto simp: result_simps)
qed simp

lemma read_operations_ok: "read_operations v = Inr ops \<Longrightarrow> set ops \<subseteq> set CHOICE_OPERATIONS"
  by (cases v rule: read_operations.cases) (force simp: list_all_iff split: if_splits)+

lemma choice_ttl_ok: "choice_ttl v = Inr ttl \<Longrightarrow> 0 < ttl \<and> ttl \<le> CLARIFY_CHOICE_TTL_SECONDS"
  by (cases v rule: choice_ttl.cases) (auto simp: CHOICE_TTL_SECONDS_def CLARIFY_CHOICE_TTL_SECONDS_def split: if_splits)

lemma home_binding_ok: "home_binding ev handle = Inr (turn, cid) \<longleftrightarrow> ev_type ev = CHOICE_EVENT_TYPE \<and> ev_handle ev = handle
    \<and> ev_turn ev = Some turn \<and> ev_correlation ev = Some cid"
  by (auto simp: home_binding_def split: option.splits)

lemma read_event_ok:
  assumes "read_event ev handle = Inr q"
  shows "ev_type ev = CHOICE_EVENT_TYPE" "ev_handle ev = handle" "ev_turn ev = Some (pj_turn q)"
    "ev_correlation ev = Some (pj_correlation q)" "\<exists>rest. pj_key q = (handle, pj_turn q, rest)"
    "set (pj_supported q) \<subseteq> set (cp_operations (pj_prompt q))"
    "set (cp_operations (pj_prompt q)) \<subseteq> set CHOICE_OPERATIONS"
    "cp_options (pj_prompt q) \<noteq> []" "length (cp_options (pj_prompt q)) \<le> MAX_CHOICE_OPTIONS"
    "distinct (map fst (cp_options (pj_prompt q)))" "0 < pj_ttl q" "pj_ttl q \<le> CLARIFY_CHOICE_TTL_SECONDS"
proof -
  from assms obtain turn cid p ttl session revision where ev: "home_binding ev handle = Inr (turn, cid)"
    and p: "normalize_choice_payload (ev_payload ev) = Inr p" and ttl: "choice_ttl (ev_ttl ev) = Inr ttl"
    and q: "q = \<lparr>pj_turn = turn, pj_correlation = cid, pj_prompt = p, pj_ttl = ttl,
          pj_supported = filter (\<lambda>q. ''prompt.'' @ q \<in> set (ev_capabilities ev)) (cp_operations p),
          pj_key = (handle, turn, session, revision, cp_object p, cp_freshness p)\<rparr>"
    by (auto simp: read_event_def result_simps)
  from p obtain vs choice opts ops where vs: "vs \<noteq> []" "length vs \<le> MAX_CHOICE_OPTIONS" "read_options [] vs = Inr opts"
    "cp_options p = opts" "read_operations (dfield choice ''operations'') = Inr ops" "cp_operations p = ops"
    by (auto simp: normalize_choice_payload_def read_choice_def result_simps split: pyval.splits)
  note opts = read_options_ok [OF vs(3)]
  show "ev_type ev = CHOICE_EVENT_TYPE" "ev_handle ev = handle" "ev_turn ev = Some (pj_turn q)"
    "ev_correlation ev = Some (pj_correlation q)" using ev by (simp_all add: q home_binding_ok)
  show "\<exists>rest. pj_key q = (handle, pj_turn q, rest)" "set (pj_supported q) \<subseteq> set (cp_operations (pj_prompt q))"
    by (simp_all add: q)
  show "set (cp_operations (pj_prompt q)) \<subseteq> set CHOICE_OPERATIONS"
    using read_operations_ok [OF vs(5)] by (simp add: q vs)
  show "cp_options (pj_prompt q) \<noteq> []" "length (cp_options (pj_prompt q)) \<le> MAX_CHOICE_OPTIONS"
    "distinct (map fst (cp_options (pj_prompt q)))"
    using opts vs by (auto simp: q)
  show "0 < pj_ttl q" "pj_ttl q \<le> CLARIFY_CHOICE_TTL_SECONDS" using choice_ttl_ok [OF ttl] by (simp_all add: q)
qed

lemma replace_current_step [choice_steps]: "choice_step s (replace_current tk s)"
  by (simp add: replace_current_def choice_steps split: option.splits)

lemma replace_current_same: "ca_objects (replace_current tk s) = ca_objects s" "ca_current (replace_current tk s) = ca_current s"
  "ca_correlations (replace_current tk s) = ca_correlations s" "length (ca_heap (replace_current tk s)) = length (ca_heap s)"
  by (simp_all add: replace_current_def split: option.splits)

lemma replace_current_idle:
  "current_of s tk = Some b \<Longrightarrow> b < length (ca_heap s) \<Longrightarrow> \<not> is_active (replace_current tk s) b"
  by (simp add: replace_current_def set_if_active_at)

lemma new_choice_ok:
  assumes "new_choice q tk d1 d2 s = (Inr a, t)"
  obtains oid fresh where "objects_of_turn tk s < MAX_CHOICE_OBJECTS_PER_TURN" "identifier_text oid" "identifier_text fresh"
    "oid \<noteq> fresh" "\<forall>k b. map_of (ca_objects s) k = Some b \<longrightarrow>
       {oid, fresh} \<inter> tokens_of (choice_at (replace_current tk s) b) = {}"
    "a = length (ca_heap s)" "t = register_choice (fresh_choice q tk oid fresh) (replace_current tk s)"
proof -
  let ?s = "replace_current tk s"
  from assms obtain oid fresh s1 s2 where room: "objects_of_turn tk s < MAX_CHOICE_OBJECTS_PER_TURN"
    and oid: "new_token d1 ?s = (Inr oid, s1)" and fresh: "new_token d2 s1 = (Inr fresh, s2)" "oid \<noteq> fresh"
    and a: "a = length (ca_heap s2)" and t: "t = register_choice (fresh_choice q tk oid fresh) s2"
    by (auto simp: new_choice_def mutation_simps result_simps)
  note o = new_token_ok [OF oid] and f = new_token_ok [OF fresh(1)]
  show thesis
  proof (rule that)
    show "\<forall>k b. map_of (ca_objects s) k = Some b \<longrightarrow> {oid, fresh} \<inter> tokens_of (choice_at ?s b) = {}"
      using o f by (auto simp: replace_current_same)
    show "a = length (ca_heap s)" using o f a by (simp add: replace_current_same)
    show "t = register_choice (fresh_choice q tk oid fresh) ?s" using o f t by simp
  qed (use room o f fresh(2) in auto)
qed

lemma new_choice_failed: "new_choice q tk d1 d2 s = (Inl e, t) \<Longrightarrow> t \<in> {s, replace_current tk s}"
  by (auto simp: new_choice_def bindM_def readM_def modifyM_def checkE_def liftM_def
      split: prod.splits sum.splits if_splits dest!: new_token_same)

lemma new_choice_step:
  assumes q: "read_event ev handle = Inr q" and fresh: "map_of (ca_objects s) (pj_key q) = None"
  shows "choice_step s (snd (new_choice q (handle, pj_turn q) d1 d2 s))"
proof (cases "new_choice q (handle, pj_turn q) d1 d2 s")
  case (Pair r t)
  let ?tk = "(handle, pj_turn q)" and ?s = "replace_current (handle, pj_turn q) s"
  show ?thesis
  proof (cases r)
    case (Inl e)
    then show ?thesis using new_choice_failed [of q ?tk d1 d2 s e t] Pair by (auto simp: choice_steps)
  next
    case (Inr a)
    with Pair have run: "new_choice q ?tk d1 d2 s = (Inr a, t)" by simp
    from new_choice_ok [OF run] obtain oid fr where
      room: "objects_of_turn ?tk s < MAX_CHOICE_OBJECTS_PER_TURN" and ids: "identifier_text oid" "identifier_text fr" "oid \<noteq> fr"
      and tok: "\<forall>k b. map_of (ca_objects s) k = Some b \<longrightarrow> {oid, fr} \<inter> tokens_of (choice_at ?s b) = {}"
      and t: "t = register_choice (fresh_choice q ?tk oid fr) ?s" by metis
    let ?c = "fresh_choice q ?tk oid fr"
    have turn: "turn_of ?c = ?tk" by (simp add: fresh_choice_def)
    have "choice_step ?s t" unfolding t
    proof (rule register_step)
      show "choice_ok ?c"
        using read_event_ok [OF q] ids by (simp add: choice_ok_def fresh_choice_def)
      show "objects_of_turn (turn_of ?c) ?s < MAX_CHOICE_OBJECTS_PER_TURN"
        using room by (simp add: turn objects_of_turn_def replace_current_same)
      show "\<not> is_active ?s b" if "current_of ?s (turn_of ?c) = Some b" "b < length (ca_heap ?s)" for b
        using that replace_current_idle [of s ?tk b] by (simp add: turn replace_current_same)
      show "tokens_of ?c \<inter> tokens_of (choice_at ?s b) = {}" if "map_of (ca_objects ?s) k = Some b" for k b
      proof -
        have "tokens_of ?c = {oid, fr}" by (simp add: tokens_of_def fresh_choice_def)
        with that tok show ?thesis by (simp add: replace_current_same)
      qed
    qed (simp_all add: fresh_choice_def replace_current_same fresh)
    with replace_current_step Pair show ?thesis using choice_step_trans by fastforce
  qed
qed

lemma correlate_step:
  assumes "map_of (ca_correlations s) (h, tu, cid, CHOICE_EVENT_TYPE) = None"
    and "length (ca_correlations s) < MAX_CHOICE_CORRELATIONS" and "a < length (ca_heap s)" "turn_of (choice_at s a) = (h, tu)"
    and "ev_correlation ev = Some cid"
  shows "choice_step s (s\<lparr>ca_correlations := AList.update (h, tu, cid, CHOICE_EVENT_TYPE)
    \<lparr>cor_event = ev, cor_choice = a, cor_consumed = False\<rparr> (ca_correlations s)\<rparr>)"
proof -
  let ?t = "s\<lparr>ca_correlations := AList.update (h, tu, cid, CHOICE_EVENT_TYPE)
    \<lparr>cor_event = ev, cor_choice = a, cor_consumed = False\<rparr> (ca_correlations s)\<rparr>"
  have "authority_inv ?t" if inv: "authority_inv s"
  proof -
    have i: "heap_inv s" "tables_inv s" "correlations_inv s" "tokens_inv s" using inv by (simp_all add: authority_inv_def)
    have "heap_inv ?t" "tokens_inv ?t" using i(1,4) by (simp_all add: heap_inv_def tokens_inv_def)
    moreover have "tables_inv ?t"
      using i(2) assms(2) assms(1) [unfolded map_of_eq_None_iff]
      by (simp add: tables_inv_def objects_of_turn_def update_new [OF assms(1)])
    moreover have "correlations_inv ?t"
      using i(3) assms(3-5) by (auto simp: correlations_inv_def update_conv')
    ultimately show ?thesis by (simp add: authority_inv_def)
  qed
  then show ?thesis by (simp add: choice_step_def choice_evolves_def)
qed

text \<open>The choice a prompt is correlated with, found or made, belongs to the prompt's turn.\<close>

lemma refresh_choice_ok:
  "refresh_choice a tk p supported now s = (Inr b, t) \<Longrightarrow> b = a \<and> ca_correlations t = ca_correlations s"
  by (auto simp: refresh_choice_def mutation_simps drop_current_def split: if_splits)

lemma placed_choice:
  assumes inv: "authority_inv s" and q: "read_event ev handle = Inr q"
    and run: "(case map_of (ca_objects s) (pj_key q) of
        Some a \<Rightarrow> refresh_choice a (handle, pj_turn q) (pj_prompt q) (pj_supported q) now
      | None \<Rightarrow> new_choice q (handle, pj_turn q) d1 d2) s = (Inr a, t)"
  shows "choice_step s t" "a < length (ca_heap t)" "turn_of (choice_at t a) = (handle, pj_turn q)"
    "ca_correlations t = ca_correlations s"
proof -
  have i: "heap_inv s" using inv by (simp add: authority_inv_def)
  have "choice_step s t \<and> a < length (ca_heap t) \<and> turn_of (choice_at t a) = (handle, pj_turn q)
    \<and> ca_correlations t = ca_correlations s"
  proof (cases "map_of (ca_objects s) (pj_key q)")
    case None
    with run have new: "new_choice q (handle, pj_turn q) d1 d2 s = (Inr a, t)" by simp
    have "choice_step s t" using new_choice_step [OF q None, of d1 d2] new by simp
    moreover obtain oid fr where a: "a = length (ca_heap s)"
      and t: "t = register_choice (fresh_choice q (handle, pj_turn q) oid fr) (replace_current (handle, pj_turn q) s)"
      using new_choice_ok [OF new] by metis
    have "a < length (ca_heap t)" "choice_at t a = fresh_choice q (handle, pj_turn q) oid fr"
      "ca_correlations t = ca_correlations s"
      by (simp_all add: t a register_choice_def Let_def replace_current_same nth_append)
    ultimately show ?thesis by (simp add: fresh_choice_def)
  next
    case (Some b)
    with run have re: "refresh_choice b (handle, pj_turn q) (pj_prompt q) (pj_supported q) now s = (Inr a, t)" by simp
    have st: "choice_step s t"
      using refresh_choice_step [of s b "(handle, pj_turn q)" "pj_prompt q" "pj_supported q" now] re by simp
    have b: "b < length (ca_heap s)" "cho_key (choice_at s b) = pj_key q" using heap_registeredD [OF i Some] by simp_all
    have "choice_ok (choice_at s b)" using heap_objectD [OF i b(1)] by simp
    then have "turn_of (choice_at s b) = (handle, pj_turn q)"
      using b(2) read_event_ok(5) [OF q] by (auto simp: choice_ok_def)
    moreover have "choice_core (choice_at t b) = choice_core (choice_at s b)" "b < length (ca_heap t)"
      using st b(1) by (simp_all add: choice_step_def choice_evolves_def)
    ultimately show ?thesis using refresh_choice_ok [OF re] st core_fields(4) by metis
  qed
  then show "choice_step s t" "a < length (ca_heap t)" "turn_of (choice_at t a) = (handle, pj_turn q)"
    "ca_correlations t = ca_correlations s" by simp_all
qed

lemma placed_choice_step:
  assumes "authority_inv s" and q: "read_event ev handle = Inr q"
  shows "choice_step s (snd ((case map_of (ca_objects s) (pj_key q) of
        Some a \<Rightarrow> refresh_choice a (handle, pj_turn q) (pj_prompt q) (pj_supported q) now
      | None \<Rightarrow> new_choice q (handle, pj_turn q) d1 d2) s))"
  using new_choice_step [OF q] refresh_choice_step by (cases "map_of (ca_objects s) (pj_key q)") simp_all

lemma pruned_step: "choice_step s (pruned s)"
  by (simp add: pruned_def choice_steps)

lemma pruned_same: "ca_heap (pruned s) = ca_heap s" "ca_current (pruned s) = ca_current s"
  by (simp_all add: pruned_def prune_inactive_correlations_def)

lemma pruned_none: "map_of (ca_correlations s) k = None \<Longrightarrow> map_of (ca_correlations (pruned s)) k = None"
  by (auto simp: pruned_def prune_inactive_correlations_def map_of_eq_None_iff)

text \<open>What a call of \<open>project\<close> leaves behind, whether it returns or raises.\<close>

definition project_leaves :: "bridge_event \<Rightarrow> string \<Rightarrow> authority \<Rightarrow> authority \<Rightarrow> bool" where
  "project_leaves ev handle s u \<longleftrightarrow> (\<exists>t. choice_step s t \<and> ca_correlations t = ca_correlations s
     \<and> (u = t \<or> u = pruned t \<or> (\<exists>turn cid a. ev_correlation ev = Some cid \<and> a < length (ca_heap t)
         \<and> turn_of (choice_at t a) = (handle, turn)
         \<and> map_of (ca_correlations (pruned t)) (handle, turn, cid, CHOICE_EVENT_TYPE) = None
         \<and> length (ca_correlations (pruned t)) < MAX_CHOICE_CORRELATIONS
         \<and> u = (pruned t)\<lparr>ca_correlations := AList.update (handle, turn, cid, CHOICE_EVENT_TYPE)
             \<lparr>cor_event = ev, cor_choice = a, cor_consumed = False\<rparr> (ca_correlations (pruned t))\<rparr>)))"

lemma project_leaves_same: "project_leaves ev handle s s"
  unfolding project_leaves_def using choice_step_refl by blast

lemma project_leaves_pruned: "choice_step s t \<Longrightarrow> ca_correlations t = ca_correlations s \<Longrightarrow> project_leaves ev handle s (pruned t)"
  unfolding project_leaves_def by blast

lemma project_leaves_added:
  "choice_step s t \<Longrightarrow> ca_correlations t = ca_correlations s \<Longrightarrow> ev_correlation ev = Some cid \<Longrightarrow> a < length (ca_heap t)
    \<Longrightarrow> turn_of (choice_at t a) = (handle, turn) \<Longrightarrow> map_of (ca_correlations (pruned t)) (handle, turn, cid, CHOICE_EVENT_TYPE) = None
    \<Longrightarrow> length (ca_correlations (pruned t)) < MAX_CHOICE_CORRELATIONS
    \<Longrightarrow> project_leaves ev handle s ((pruned t)\<lparr>ca_correlations := AList.update (handle, turn, cid, CHOICE_EVENT_TYPE)
          \<lparr>cor_event = ev, cor_choice = a, cor_consumed = False\<rparr> (ca_correlations (pruned t))\<rparr>)"
  unfolding project_leaves_def by blast

lemma placed_failed:
  assumes "(case map_of (ca_objects s) (pj_key q) of
        Some a \<Rightarrow> refresh_choice a tk p supp now | None \<Rightarrow> new_choice q tk d1 d2) s = (Inl e, t)"
  shows "ca_correlations t = ca_correlations s"
proof (cases "map_of (ca_objects s) (pj_key q)")
  case None
  then show ?thesis using new_choice_failed [of q tk d1 d2 s e t] assms by (auto simp: replace_current_same)
next
  case (Some a)
  then show ?thesis using assms
    by (auto simp: refresh_choice_def bindM_def readM_def modifyM_def liftM_def split: if_splits)
qed

lemma project_effect:
  assumes inv: "authority_inv s"
  shows "project_leaves ev handle s (snd (project_choice ev handle clk d1 d2 s))"
proof (cases "read_event ev handle")
  case (Inl e)
  then show ?thesis by (simp add: project_choice_def mutation_eval project_leaves_same)
next
  case q: (Inr q)
  let ?pk = "(handle, pj_turn q, pj_correlation q, CHOICE_EVENT_TYPE)"
  have type: "ev_type ev = CHOICE_EVENT_TYPE" by (rule read_event_ok(1) [OF q])
  show ?thesis
  proof (cases "choice_now clk")
    case (Inl e)
    with q show ?thesis by (simp add: project_choice_def mutation_eval project_leaves_same)
  next
    case now: (Inr now)
    let ?m = "\<lambda>s. (case map_of (ca_objects s) (pj_key q) of
        Some a \<Rightarrow> refresh_choice a (handle, pj_turn q) (pj_prompt q) (pj_supported q) now
      | None \<Rightarrow> new_choice q (handle, pj_turn q) d1 d2)"
    show ?thesis
    proof (cases "map_of (ca_correlations s) ?pk")
      case (Some r)
      with q now type show ?thesis by (simp add: project_choice_def mutation_eval Let_def project_leaves_same)
    next
      case None
      have placed: "choice_step s (snd (?m s s))" by (rule placed_choice_step [OF inv q])
      obtain r t where m: "?m s s = (r, t)" by fastforce
      show ?thesis
      proof (cases r)
        case (Inl e)
        have "snd (project_choice ev handle clk d1 d2 s) = t"
          using m Inl None now q type by (simp add: project_choice_def mutation_eval Let_def)
        with placed m placed_failed [OF m [unfolded Inl]] show ?thesis unfolding project_leaves_def by auto
      next
        case (Inr a)
        note p = placed_choice [OF inv q m [unfolded Inr]]
        let ?u = "pruned t"
        have none: "map_of (ca_correlations ?u) ?pk = None" using pruned_none p(4) None by simp
        have "snd (project_choice ev handle clk d1 d2 s) = (if length (ca_correlations ?u) < MAX_CHOICE_CORRELATIONS
          then ?u\<lparr>ca_correlations := AList.update ?pk \<lparr>cor_event = ev, cor_choice = a, cor_consumed = False\<rparr> (ca_correlations ?u)\<rparr>
          else ?u)"
          using m Inr None now q type by (simp add: project_choice_def mutation_eval Let_def)
        then show ?thesis
          using project_leaves_added [OF p(1,4) read_event_ok(4) [OF q] p(2,3) none] project_leaves_pruned [OF p(1,4)] by simp
      qed
    qed
  qed
qed

lemma project_choice_step:
  assumes "authority_inv s"
  shows "choice_step s (snd (project_choice ev handle clk d1 d2 s))"
  using project_effect [OF assms, of ev handle clk d1 d2] unfolding project_leaves_def
  by (elim exE conjE disjE) (auto simp: pruned_same intro: choice_step_trans [OF _ pruned_step]
      choice_step_trans [OF choice_step_trans [OF _ pruned_step] correlate_step])

end
