(* ===== verification/Choice_Properties.thy ===== *)
theory Choice_Properties
  imports Choice_Authority
begin

text \<open>
  Properties of the choice authority: its limits and tables, exactly which responses it
  accepts, and that it accepts each at most once.
\<close>

section \<open>Every method\<close>

datatype choice_call =
    Project bridge_event string "pyval option" "pyval option" "pyval option"
  | MarkDelivered string string string "pyval option"
  | Authorize string string string string pydict "string option" bool "bridge_event option" "pyval option"
  | Complete choice_decision
  | ExpireCorrelation string string string
  | RevokeTurn string string
  | RevokeAll

fun choice_exec :: "authority \<Rightarrow> choice_call \<Rightarrow> authority" where
  "choice_exec s (Project ev h clk d1 d2) = snd (project_choice ev h clk d1 d2 s)"
| "choice_exec s (MarkDelivered h tu cid clk) = snd (mark_delivered h tu cid clk s)"
| "choice_exec s (Authorize h tu cid ty response act ready ev clk) =
     snd (authorize_choice h tu cid ty response act ready ev clk s)"
| "choice_exec s (Complete d) = complete_choice d s"
| "choice_exec s (ExpireCorrelation h tu cid) = expire_correlation h tu cid s"
| "choice_exec s (RevokeTurn h tu) = revoke_turn h tu s"
| "choice_exec s RevokeAll = revoke_all s"

lemma choice_exec_step: "authority_inv s \<Longrightarrow> choice_step s (choice_exec s p)"
  by (cases p) (simp_all add: project_choice_step choice_steps)

interpretation choices: machine choice_exec authority_inv "\<lambda>_ _. True"
  by unfold_locales (use choice_exec_step choice_step_inv in blast)

definition choice_reachable :: "authority \<Rightarrow> bool" where
  "choice_reachable s \<longleftrightarrow> (\<exists>ps. s = run_ops choice_exec new_authority ps)"

lemma new_authority_inv: "authority_inv new_authority"
  by (simp add: authority_inv_def heap_inv_def tables_inv_def correlations_inv_def tokens_inv_def new_authority_def
      objects_of_turn_def MAX_CHOICE_CORRELATIONS_def)

lemma all_allowed: "allowed_run exec (\<lambda>_ _. True) s ps"
  by (induction ps arbitrary: s) auto

lemma choice_reachable_inv: "choice_reachable s \<Longrightarrow> authority_inv s"
  unfolding choice_reachable_def using choices.run_inv [OF new_authority_inv all_allowed] by blast

lemma reachable_run: "choice_reachable s \<Longrightarrow> choice_reachable (run_ops choice_exec s ps)"
  unfolding choice_reachable_def by (metis run_ops_append)

lemma reachable_exec: "choice_reachable s \<Longrightarrow> choice_reachable (choice_exec s p)"
  using reachable_run [of s "[p]"] by simp

section \<open>Which responses are accepted\<close>

lemma answer_refusal_none:
  "answer_refusal c response = None \<longleftrightarrow> response_fields response
     \<and> (\<exists>op \<in> set (cho_supported c) \<inter> set CHOICE_OPERATIONS. dfield response ''operation'' = PStr op)
     \<and> (\<exists>oid label. (oid, label) \<in> set (cho_options c) \<and> identifier_text oid \<and> dfield response ''option_id'' = PStr oid)
     \<and> identifier_text (cho_object c) \<and> dfield response ''object_id'' = PStr (cho_object c)
     \<and> identifier_text (cho_freshness c) \<and> dfield response ''freshness'' = PStr (cho_freshness c)"
  by (auto simp: answer_refusal_def Let_def image_iff split: if_splits)

definition answerable :: "authority \<Rightarrow> prompt_key \<Rightarrow> correlation \<Rightarrow> string option \<Rightarrow> bridge_event option \<Rightarrow> pyval option \<Rightarrow> bool" where
  "answerable s = (\<lambda>(h, tu, cid, ty) r act ev clk.
     let c = choice_at s (cor_choice r) in
     \<not> cor_consumed r \<and> is_active s (cor_choice r) \<and> current_of s (h, tu) = Some (cor_choice r)
     \<and> (\<exists>opened now. cho_expires c = Some opened \<and> choice_now clk = Inr now \<and> now < opened)
     \<and> act = Some tu \<and> map_option ev_ref ev = Some (ev_ref (cor_event r)))"

lemma authorize_accepted:
  assumes inv: "authority_inv s"
  shows "authorize_choice h tu cid ty response act ready ev clk s = (Inr d, t) \<and> dn_reason d = None \<longleftrightarrow>
    ty = CHOICE_EVENT_TYPE \<and> ready \<and> (\<exists>r. map_of (ca_correlations s) (h, tu, cid, CHOICE_EVENT_TYPE) = Some r
      \<and> answerable s (h, tu, cid, CHOICE_EVENT_TYPE) r act ev clk \<and> answer_refusal (choice_at s (cor_choice r)) response = None
      \<and> d = accepted_answer r (choice_at s (cor_choice r)) response
      \<and> t = consume_correlation (h, tu, cid, CHOICE_EVENT_TYPE) s)"
proof (cases "map_of (ca_correlations s) (h, tu, cid, CHOICE_EVENT_TYPE)")
  case None
  then show ?thesis by (auto simp: authorize_choice_def mutation_eval Let_def)
next
  case (Some r)
  let ?c = "choice_at s (cor_choice r)"
  have "correlations_inv s" using inv by (simp add: authority_inv_def)
  with Some have handle: "cho_handle ?c = h" unfolding correlations_inv_def by blast
  have accepted: "dn_reason (accepted_answer r ?c response) = None" by (simp add: accepted_answer_def)
  show ?thesis
  proof (cases "cho_expires ?c")
    case None
    then show ?thesis
      by (auto simp: authorize_choice_def settle_def mutation_eval Let_def Some answerable_def handle split: option.splits)
  next
    case opened: (Some e)
    show ?thesis
    proof (cases "choice_now clk")
      case (Inl x)
      then show ?thesis
        by (auto simp: authorize_choice_def settle_def mutation_eval Let_def Some opened answerable_def split: option.splits)
    next
      case (Inr now)
      then show ?thesis
        using accepted by (cases "cho_state ?c"; cases "answer_refusal ?c response")
          (auto simp: authorize_choice_def settle_def mutation_eval Let_def Some opened answerable_def lapsed_choice_def handle not_le)
    qed
  qed
qed

text \<open>
  C19. A choice response is accepted exactly when everything still stands: the prompt was
  issued for this handle, turn and correlation and its response is not yet spent; the caller
  is ready; the choice is active and is the one its turn shows; its window was opened by a
  delivery and has not run out; the turn is the active one and the event is the very one the
  prompt came from; and the response names a supported operation, an offered option and the
  two tokens of the choice. Then, and only then, the correlation is spent and the decision
  carries the source's own IDs in place of the public tokens.
\<close>

theorem choice_accepted_iff:
  assumes "choice_reachable s"
  shows "(\<exists>t. authorize_choice h tu cid ty response act ready ev clk s = (Inr d, t) \<and> dn_reason d = None) \<longleftrightarrow>
    ty = CHOICE_EVENT_TYPE \<and> ready \<and> act = Some tu \<and> response_fields response \<and>
    (\<exists>r c opened now op oid label. map_of (ca_correlations s) (h, tu, cid, CHOICE_EVENT_TYPE) = Some r
      \<and> \<not> cor_consumed r \<and> map_option ev_ref ev = Some (ev_ref (cor_event r))
      \<and> c = choice_at s (cor_choice r) \<and> cho_state c = ChoiceActive \<and> current_of s (h, tu) = Some (cor_choice r)
      \<and> cho_expires c = Some opened \<and> choice_now clk = Inr now \<and> now < opened
      \<and> op \<in> set (cho_supported c) \<and> dfield response ''operation'' = PStr op
      \<and> (oid, label) \<in> set (cho_options c) \<and> identifier_text oid \<and> dfield response ''option_id'' = PStr oid
      \<and> dfield response ''object_id'' = PStr (cho_object c) \<and> dfield response ''freshness'' = PStr (cho_freshness c)
      \<and> d = \<lparr>dn_reason = None, dn_operation = Some op, dn_event = Some (cor_event r),
               dn_response = Some (obj [(''operation'', PStr op), (''option_id'', PStr oid),
                 (''object_id'', PStr (cho_source_object c)), (''freshness'', PStr (cho_source_freshness c))]),
               dn_choice = Some (cor_choice r)\<rparr>)"
  (is "?accepts \<longleftrightarrow> ?stands")
proof -
  have inv: "authority_inv s" by (rule choice_reachable_inv [OF assms])
  then have i: "heap_inv s" "correlations_inv s" by (simp_all add: authority_inv_def)
  have ok: "choice_ok (choice_at s (cor_choice r))"
    if "map_of (ca_correlations s) (h, tu, cid, CHOICE_EVENT_TYPE) = Some r" for r
    using i(2) heap_objectD [OF i(1)] that unfolding correlations_inv_def by blast
  note acc = authorize_accepted [OF inv, of h tu cid ty response act ready ev clk d]
  show ?thesis
  proof
    assume ?accepts
    then obtain r where r: "ty = CHOICE_EVENT_TYPE" "ready" "map_of (ca_correlations s) (h, tu, cid, CHOICE_EVENT_TYPE) = Some r"
      "answerable s (h, tu, cid, CHOICE_EVENT_TYPE) r act ev clk" "answer_refusal (choice_at s (cor_choice r)) response = None"
      "d = accepted_answer r (choice_at s (cor_choice r)) response"
      using acc by blast
    from r(5) obtain op oid label where "op \<in> set (cho_supported (choice_at s (cor_choice r)))"
      "dfield response ''operation'' = PStr op" "(oid, label) \<in> set (cho_options (choice_at s (cor_choice r)))"
      "identifier_text oid" "dfield response ''option_id'' = PStr oid" "response_fields response"
      "dfield response ''object_id'' = PStr (cho_object (choice_at s (cor_choice r)))"
      "dfield response ''freshness'' = PStr (cho_freshness (choice_at s (cor_choice r)))"
      by (auto simp: answer_refusal_none)
    with r(1-4,6) show ?stands by (auto simp: answerable_def Let_def accepted_answer_def)
  next
    assume ?stands
    then obtain r c opened now op oid label where fixed: "ty = CHOICE_EVENT_TYPE" "ready" "act = Some tu" "response_fields response"
      and r: "map_of (ca_correlations s) (h, tu, cid, CHOICE_EVENT_TYPE) = Some r" "\<not> cor_consumed r"
        "map_option ev_ref ev = Some (ev_ref (cor_event r))" "c = choice_at s (cor_choice r)" "cho_state c = ChoiceActive"
        "current_of s (h, tu) = Some (cor_choice r)" "cho_expires c = Some opened" "choice_now clk = Inr now" "now < opened"
      and fields: "op \<in> set (cho_supported c)" "dfield response ''operation'' = PStr op" "(oid, label) \<in> set (cho_options c)"
        "identifier_text oid" "dfield response ''option_id'' = PStr oid" "dfield response ''object_id'' = PStr (cho_object c)"
        "dfield response ''freshness'' = PStr (cho_freshness c)"
      and d: "d = \<lparr>dn_reason = None, dn_operation = Some op, dn_event = Some (cor_event r),
               dn_response = Some (obj [(''operation'', PStr op), (''option_id'', PStr oid),
                 (''object_id'', PStr (cho_source_object c)), (''freshness'', PStr (cho_source_freshness c))]),
               dn_choice = Some (cor_choice r)\<rparr>"
      by (elim conjE exE) (rule that; assumption)
    have c: "choice_ok c" using ok [OF r(1)] r(4) by simp
    have "answer_refusal c response = None"
      unfolding answer_refusal_none using fields fixed(4) c by (auto simp: choice_ok_def)
    moreover have "answerable s (h, tu, cid, CHOICE_EVENT_TYPE) r act ev clk"
      using r fixed(3) by (simp add: answerable_def)
    moreover have "d = accepted_answer r c response" using fields by (simp add: d accepted_answer_def)
    ultimately show ?accepts using acc fixed(1,2) r(1) unfolding r(4) by blast
  qed
qed

section \<open>A response is spent once\<close>

text \<open>A response already given: the choice is over, or the correlation that was answered is spent.\<close>

definition spent :: "prompt_key \<Rightarrow> nat \<Rightarrow> authority \<Rightarrow> bool" where
  "spent k a s \<longleftrightarrow> a < length (ca_heap s) \<and> (is_active s a \<longrightarrow>
     (\<exists>r. map_of (ca_correlations s) k = Some r \<and> cor_choice r = a \<and> cor_consumed r))"

lemma spent_step:
  assumes "spent k a s" and "choice_step s t"
    and "\<And>r. map_of (ca_correlations s) k = Some r \<Longrightarrow> cor_consumed r \<Longrightarrow> is_active t (cor_choice r)
      \<Longrightarrow> \<exists>r'. map_of (ca_correlations t) k = Some r' \<and> cor_choice r' = cor_choice r \<and> cor_consumed r'"
  shows "spent k a t"
  using assms unfolding spent_def choice_step_def choice_evolves_def by fastforce

lemma spent_same_table: "spent k a s \<Longrightarrow> choice_step s t \<Longrightarrow> ca_correlations t = ca_correlations s \<Longrightarrow> spent k a t"
  by (rule spent_step) auto

lemma spent_pruned:
  assumes inv: "authority_inv s" and "spent k a s"
  shows "spent k a (pruned s)"
proof (rule spent_step [OF assms(2) pruned_step])
  fix r assume r: "map_of (ca_correlations s) k = Some r" "cor_consumed r" "is_active (pruned s) (cor_choice r)"
  have i: "heap_inv s" "correlations_inv s" using inv by (simp_all add: authority_inv_def)
  obtain h tu cid ty where k: "k = (h, tu, cid, ty)" by (cases k) auto
  with r i(2) have range: "cor_choice r < length (ca_heap s)" unfolding correlations_inv_def by blast
  then have "correlation_live s r"
    using heap_objectD [OF i(1)] r(3) by (simp add: correlation_live_def pruned_same)
  then have "map_of (ca_correlations (pruned s)) k = Some r"
    using r(1) inv_parts(2) [OF inv] by (simp add: pruned_def prune_inactive_correlations_def map_of_eq_Some_iff distinct_map_filter)
  with r(2) show "\<exists>r'. map_of (ca_correlations (pruned s)) k = Some r' \<and> cor_choice r' = cor_choice r \<and> cor_consumed r'"
    by blast
qed

lemma same_correlations [simp]:
  "ca_correlations (drop_current tk a s) = ca_correlations s" "ca_correlations (revoke_turn h tu s) = ca_correlations s"
  "ca_correlations (revoke_all s) = ca_correlations s" "ca_correlations (complete_choice d s) = ca_correlations s"
  "ca_correlations (expire_correlation h tu cid s) = ca_correlations s" "ca_correlations (start_window a now s) = ca_correlations s"
  by (simp_all add: drop_current_def revoke_turn_def revoke_current_def Let_def revoke_all_def complete_choice_def
      expire_correlation_def start_window_def split: option.splits)

lemma mark_delivered_correlations: "ca_correlations (snd (mark_delivered h tu cid clk s)) = ca_correlations s"
  by (auto simp: mark_delivered_def mutation_eval Let_def split: option.splits sum.splits)

lemma authorize_correlations:
  "ca_correlations (snd (authorize_choice h tu cid ty response act ready ev clk s)) = ca_correlations s
   \<or> (\<exists>pk. ca_correlations (snd (authorize_choice h tu cid ty response act ready ev clk s))
        = ca_correlations (consume_correlation pk s))"
  by (auto simp: authorize_choice_def settle_def mutation_eval Let_def split: option.splits sum.splits)

lemma spent_exec:
  assumes inv: "authority_inv s" and sp: "spent k a s"
  shows "spent k a (choice_exec s p)"
proof (cases p)
  case (Project ev h clk d1 d2)
  from project_effect [OF inv, of ev h clk d1 d2] obtain t where t: "choice_step s t" "ca_correlations t = ca_correlations s"
    and u: "choice_exec s p = t \<or> choice_exec s p = pruned t \<or> (\<exists>pk new. map_of (ca_correlations (pruned t)) pk = None
        \<and> choice_exec s p = (pruned t)\<lparr>ca_correlations := AList.update pk new (ca_correlations (pruned t))\<rparr>)"
    unfolding project_leaves_def Project choice_exec.simps by blast
  have st: "spent k a t" by (rule spent_same_table [OF sp t])
  have "spent k a (pruned t)" using spent_pruned [OF choice_step_inv [OF t(1) inv] st] .
  with st u show ?thesis by (auto simp: spent_def update_conv')
next
  case (MarkDelivered h tu cid clk)
  then show ?thesis using spent_same_table [OF sp mark_delivered_step] mark_delivered_correlations by simp
next
  case (Authorize h tu cid ty response act ready ev clk)
  show ?thesis unfolding Authorize choice_exec.simps
    by (rule spent_step [OF sp authorize_choice_step])
      (use authorize_correlations [of h tu cid ty response act ready ev clk s] in
        \<open>auto simp: consume_correlation_def map_of_map_entry\<close>)
qed (use spent_same_table [OF sp] in \<open>simp_all add: choice_steps\<close>)

lemma spent_run: "authority_inv s \<Longrightarrow> spent k a s \<Longrightarrow> spent k a (run_ops choice_exec s ps)"
  using choices.run_stable [OF _ all_allowed, of s "spent k a" ps] spent_exec by blast

lemma completed_choice_over:
  assumes inv: "authority_inv s" and d: "dn_reason d = None" "dn_operation d = Some ''choose''" "dn_choice d = Some a"
    and a: "a < length (ca_heap s)"
  shows "\<not> is_active (run_ops choice_exec (complete_choice d s) ps) a"
proof -
  let ?nowhere = "([], [], [], []) :: prompt_key" and ?z = "run_ops choice_exec (complete_choice d s) ps"
  have t: "authority_inv (complete_choice d s)" by (rule choice_step_inv [OF complete_choice_step inv])
  have "heap_inv s" using inv by (simp add: authority_inv_def)
  then have "\<not> is_active (complete_choice d s) a"
    using heap_objectD [of s a] a d by (auto simp: complete_choice_def choice_at_set_state)
  moreover have "a < length (ca_heap (complete_choice d s))"
    using complete_choice_step [of s d] a by (simp add: choice_step_def choice_evolves_def)
  ultimately have "spent ?nowhere a ?z" by (intro spent_run [OF t]) (simp add: spent_def)
  moreover have "map_of (ca_correlations ?z) ?nowhere = None"
  proof (cases "map_of (ca_correlations ?z) ?nowhere")
    case (Some x)
    have "authority_inv ?z" by (rule choices.run_inv [OF t all_allowed])
    with Some have "[] = CHOICE_EVENT_TYPE" unfolding authority_inv_def correlations_inv_def by blast
    then show ?thesis by (simp add: CHOICE_EVENT_TYPE_def)
  qed
  ultimately show ?thesis by (auto simp: spent_def)
qed

text \<open>
  C13. A response is accepted at most once. After an accepted response to a prompt, no
  response under the same handle, turn and correlation is accepted again for that choice,
  whatever the authority does in between; and once an accepted \<open>choose\<close> has been completed,
  nothing is accepted for that choice any more, under any prompt, ever.
\<close>

theorem choice_answered_once:
  assumes "choice_reachable s"
    and "authorize_choice h tu cid ty response act ready ev clk s = (Inr d, t)" and "dn_reason d = None"
    and "authorize_choice h' tu' cid' ty' response' act' ready' ev' clk' (run_ops choice_exec t (ps @ qs)) = (Inr d', u)"
    and "dn_reason d' = None"
  shows "((h', tu', cid') = (h, tu, cid) \<longrightarrow> dn_choice d' \<noteq> dn_choice d)
    \<and> (dn_operation d = Some ''choose'' \<and> qs \<noteq> [] \<and> hd qs = Complete d \<longrightarrow> dn_choice d' \<noteq> dn_choice d)"
proof -
  have inv: "authority_inv s" by (rule choice_reachable_inv [OF assms(1)])
  let ?k = "(h, tu, cid, CHOICE_EVENT_TYPE)" and ?k' = "(h', tu', cid', CHOICE_EVENT_TYPE)"
  let ?z = "run_ops choice_exec t (ps @ qs)"
  obtain r where r: "map_of (ca_correlations s) ?k = Some r" "d = accepted_answer r (choice_at s (cor_choice r)) response"
    "t = consume_correlation ?k s"
    using authorize_accepted [OF inv, of h tu cid ty response act ready ev clk d t] assms(2,3) by blast
  have t: "authority_inv t" using spend_step inv r(3) choice_step_inv by blast
  have z: "authority_inv ?z" by (rule choices.run_inv [OF t all_allowed])
  obtain r' where r': "map_of (ca_correlations ?z) ?k' = Some r'"
    "answerable ?z ?k' r' act' ev' clk'" "d' = accepted_answer r' (choice_at ?z (cor_choice r')) response'"
    using authorize_accepted [OF z, of h' tu' cid' ty' response' act' ready' ev' clk' d' u] assms(4,5) by blast
  have active: "is_active ?z (cor_choice r')" "\<not> cor_consumed r'" using r'(2) by (simp_all add: answerable_def Let_def)
  have d: "dn_choice d = Some (cor_choice r)" "dn_choice d' = Some (cor_choice r')"
    by (simp_all add: r(2) r'(3) accepted_answer_def)
  have range: "cor_choice r < length (ca_heap t)"
    using inv r(1,3) by (auto simp: authority_inv_def correlations_inv_def consume_correlation_def)
  have "spent ?k (cor_choice r) t"
    using range r(1,3) by (simp add: spent_def consume_correlation_def map_of_map_entry)
  then have "spent ?k (cor_choice r) ?z" by (rule spent_run [OF t])
  then have same: "cor_choice r' \<noteq> cor_choice r" if "(h', tu', cid') = (h, tu, cid)"
    using that active r'(1) by (auto simp: spent_def)
  have "cor_choice r' \<noteq> cor_choice r" if choose: "dn_operation d = Some ''choose''" "qs \<noteq> []" "hd qs = Complete d"
  proof -
    let ?y = "run_ops choice_exec t ps"
    have y: "authority_inv ?y" by (rule choices.run_inv [OF t all_allowed])
    have "cor_choice r < length (ca_heap ?y)"
      using spent_run [OF t \<open>spent ?k (cor_choice r) t\<close>, of ps] by (simp add: spent_def)
    moreover have "?z = run_ops choice_exec (complete_choice d ?y) (tl qs)"
      using choose(2,3) by (cases qs) (simp_all add: run_ops_append)
    ultimately have "\<not> is_active ?z (cor_choice r)"
      using completed_choice_over [OF y assms(3) choose(1) d(1)] by simp
    with active(1) show ?thesis by auto
  qed
  with same d show ?thesis by auto
qed

section \<open>Limits and tokens\<close>

text \<open>
  C20. In every state the authority can reach: at most 256 prompts are correlated and a turn
  has at most 128 registered choices; a turn has at most one active choice and it is the one
  the turn shows; two registered choices share no token and no source identity; and every
  choice offers between one and 32 distinct options, supports only operations its source
  allows, and has a window of more than nothing and at most an hour.
\<close>

theorem choice_tables_bounded:
  assumes "choice_reachable s" and "a < length (ca_heap s)" and "b < length (ca_heap s)"
  shows "length (ca_correlations s) \<le> 256 \<and> objects_of_turn tk s \<le> 128
    \<and> (is_active s a \<and> is_active s b \<and> turn_of (choice_at s a) = turn_of (choice_at s b) \<longrightarrow> a = b)
    \<and> (is_active s a \<longrightarrow> current_of s (turn_of (choice_at s a)) = Some a)
    \<and> (a \<in> snd ` set (ca_objects s) \<and> b \<in> snd ` set (ca_objects s) \<and> a \<noteq> b \<longrightarrow>
         {cho_object (choice_at s a), cho_freshness (choice_at s a)} \<inter> {cho_object (choice_at s b), cho_freshness (choice_at s b)} = {}
         \<and> cho_key (choice_at s a) \<noteq> cho_key (choice_at s b))
    \<and> cho_options (choice_at s a) \<noteq> [] \<and> length (cho_options (choice_at s a)) \<le> 32 \<and> distinct (map fst (cho_options (choice_at s a)))
    \<and> set (cho_supported (choice_at s a)) \<subseteq> set (cho_operations (choice_at s a)) \<and> 0 < cho_ttl (choice_at s a) \<and> cho_ttl (choice_at s a) \<le> 3600"
proof -
  have inv: "authority_inv s" by (rule choice_reachable_inv [OF assms(1)])
  then have i: "heap_inv s" "tables_inv s" "tokens_inv s" by (simp_all add: authority_inv_def)
  have active: "current_of s (turn_of (choice_at s x)) = Some x" if "is_active s x" "x < length (ca_heap s)" for x
    using heap_objectD [OF i(1) that(2)] that(1) by simp
  have registered: "map_of (ca_objects s) (cho_key (choice_at s x)) = Some x" if "x \<in> snd ` set (ca_objects s)" for x
  proof -
    from that obtain k where "map_of (ca_objects s) k = Some x" using inv_parts(4) [OF inv] by force
    then show ?thesis using heap_registeredD [OF i(1)] by blast
  qed
  have tok: "{cho_object (choice_at s a), cho_freshness (choice_at s a)} \<inter> {cho_object (choice_at s b), cho_freshness (choice_at s b)} = {}
      \<and> cho_key (choice_at s a) \<noteq> cho_key (choice_at s b)"
    if "a \<in> snd ` set (ca_objects s)" "b \<in> snd ` set (ca_objects s)" "a \<noteq> b"
    using registered [OF that(1)] registered [OF that(2)] that(3) i(3) unfolding tokens_inv_def tokens_of_def
    by (metis option.inject)
  have one: "a = b" if "is_active s a" "is_active s b" "turn_of (choice_at s a) = turn_of (choice_at s b)"
    using active [OF that(1) assms(2)] active [OF that(2) assms(3)] unfolding that(3) by simp
  have "choice_ok (choice_at s a)" using heap_objectD [OF i(1) assms(2)] by simp
  then have opts: "cho_options (choice_at s a) \<noteq> []" "length (cho_options (choice_at s a)) \<le> 32" "distinct (map fst (cho_options (choice_at s a)))"
    "set (cho_supported (choice_at s a)) \<subseteq> set (cho_operations (choice_at s a))" "0 < cho_ttl (choice_at s a)" "cho_ttl (choice_at s a) \<le> 3600"
    by (simp_all add: choice_ok_def MAX_CHOICE_OPTIONS_def CLARIFY_CHOICE_TTL_SECONDS_def)
  have limits: "length (ca_correlations s) \<le> 256" "objects_of_turn tk s \<le> 128"
    using i(2) by (simp_all add: tables_inv_def MAX_CHOICE_CORRELATIONS_def MAX_CHOICE_OBJECTS_PER_TURN_def)
  show ?thesis
    by (intro conjI impI limits opts)
      ((elim conjE)?, (rule one | rule active | rule tok [THEN conjunct1] | rule tok [THEN conjunct2]), (assumption | rule assms(2))+)+
qed

section \<open>An example\<close>

text \<open>One prompt with two options, issued, delivered and answered.\<close>

definition demo_event :: bridge_event where
  "demo_event = \<lparr>ev_ref = 7, ev_handle = ''h'', ev_type = ''prompt.request'',
     ev_payload = [(KStr ''prompt_kind'', PStr ''choice''), (KStr ''text'', PStr ''Which lamp?''),
       (KStr ''choice'', obj [(''object_id'', PStr ''src''), (''freshness'', PStr ''f1''),
          (''operations'', PList [PStr ''choose'', PStr ''explore''])]),
       (KStr ''options'', PList [obj [(''id'', PStr ''a''), (''label'', PStr ''Left'')],
          obj [(''id'', PStr ''b''), (''label'', PStr ''Right'')]])],
     ev_turn = Some ''t'', ev_correlation = Some ''c'', ev_session = PStr ''s'', ev_revision = PInt 3,
     ev_capabilities = [''prompt.choose''], ev_ttl = PNone\<rparr>"

definition demo_shown :: authority where
  "demo_shown = run_ops choice_exec new_authority
     [Project demo_event ''h'' (Some (PFloat (Fin 0))) (Some (PStr ''x1'')) (Some (PStr ''x2'')),
      MarkDelivered ''h'' ''t'' ''c'' (Some (PFloat (Fin 1)))]"

definition demo_answer :: pydict where
  "demo_answer = [(KStr ''operation'', PStr ''choose''), (KStr ''option_id'', PStr ''b''),
     (KStr ''object_id'', PStr ''x1''), (KStr ''freshness'', PStr ''x2'')]"

definition demo_authorize :: "authority \<Rightarrow> (choice_error, choice_decision) result \<times> authority" where
  "demo_authorize s = authorize_choice ''h'' ''t'' ''c'' ''prompt.request'' demo_answer (Some ''t'') True
     (Some demo_event) (Some (PFloat (Fin 2))) s"

lemma demo_shown_reachable: "choice_reachable demo_shown"
  unfolding choice_reachable_def demo_shown_def by blast

lemma demo_accepted: "\<exists>d t. demo_authorize demo_shown = (Inr d, t) \<and> dn_reason d = None \<and> dn_operation d = Some ''choose''
    \<and> dn_choice d = Some 0"
proof -
  have "map_sum id (\<lambda>d. (dn_reason d, dn_operation d, dn_choice d)) (fst (demo_authorize demo_shown))
      = Inr (None, Some ''choose'', Some 0)" by code_simp
  then show ?thesis by (cases "demo_authorize demo_shown"; cases "fst (demo_authorize demo_shown)") auto
qed

theorem choice_accepted_iff_witness:
  "\<exists>r. map_of (ca_correlations demo_shown) (''h'', ''t'', ''c'', CHOICE_EVENT_TYPE) = Some r \<and> \<not> cor_consumed r"
proof -
  obtain d t where "demo_authorize demo_shown = (Inr d, t)" "dn_reason d = None" using demo_accepted by blast
  then have "\<exists>t. authorize_choice ''h'' ''t'' ''c'' ''prompt.request'' demo_answer (Some ''t'') True
     (Some demo_event) (Some (PFloat (Fin 2))) demo_shown = (Inr d, t) \<and> dn_reason d = None"
    by (simp add: demo_authorize_def)
  from choice_accepted_iff [OF demo_shown_reachable, THEN iffD1, OF this] show ?thesis by (elim conjE exE) (rule exI, rule conjI)
qed

theorem choice_tables_bounded_witness:
  "length (ca_correlations demo_shown) \<le> 256 \<and> current_of demo_shown (''h'', ''t'') = Some 0"
proof -
  have "0 < length (ca_heap demo_shown)" "is_active demo_shown 0" "turn_of (choice_at demo_shown 0) = (''h'', ''t'')" by code_simp+
  with choice_tables_bounded [OF demo_shown_reachable this(1) this(1)] show ?thesis by simp
qed

text \<open>A second prompt of the turn replaces the choice; its own response is accepted.\<close>

definition demo_event2 :: bridge_event where
  "demo_event2 = demo_event\<lparr>ev_ref := 8, ev_correlation := Some ''c2'', ev_revision := PInt 4\<rparr>"

definition demo_later :: "choice_call list" where
  "demo_later = [Project demo_event2 ''h'' (Some (PFloat (Fin 3))) (Some (PStr ''y1'')) (Some (PStr ''y2'')),
     MarkDelivered ''h'' ''t'' ''c2'' (Some (PFloat (Fin 3)))]"

definition demo_answer2 :: pydict where
  "demo_answer2 = [(KStr ''operation'', PStr ''choose''), (KStr ''option_id'', PStr ''a''),
     (KStr ''object_id'', PStr ''y1''), (KStr ''freshness'', PStr ''y2'')]"

theorem choice_answered_once_witness:
  "\<exists>d t d' u. demo_authorize demo_shown = (Inr d, t) \<and> dn_reason d = None
    \<and> authorize_choice ''h'' ''t'' ''c2'' ''prompt.request'' demo_answer2 (Some ''t'') True (Some demo_event2)
        (Some (PFloat (Fin 4))) (run_ops choice_exec t ([] @ Complete d # demo_later)) = (Inr d', u)
    \<and> dn_reason d' = None \<and> dn_choice d' \<noteq> dn_choice d"
proof -
  obtain d t where d: "demo_authorize demo_shown = (Inr d, t)" "dn_reason d = None" "dn_operation d = Some ''choose''"
    using demo_accepted by blast
  let ?again = "\<lambda>r. authorize_choice ''h'' ''t'' ''c2'' ''prompt.request'' demo_answer2 (Some ''t'') True (Some demo_event2)
        (Some (PFloat (Fin 4))) (run_ops choice_exec (snd r) ([] @ Complete (projr (fst r)) # demo_later))"
  have "map_sum id dn_reason (fst (?again (demo_authorize demo_shown))) = Inr None" by code_simp
  then obtain d' u where d': "?again (Inr d, t) = (Inr d', u)" "dn_reason d' = None"
    unfolding d(1) by (cases "?again (Inr d, t)"; cases "fst (?again (Inr d, t))") auto
  have run: "authorize_choice ''h'' ''t'' ''c'' ''prompt.request'' demo_answer (Some ''t'') True
     (Some demo_event) (Some (PFloat (Fin 2))) demo_shown = (Inr d, t)" using d(1) by (simp add: demo_authorize_def)
  from choice_answered_once [OF demo_shown_reachable run d(2) d'(1) [unfolded fst_conv snd_conv sum.sel] d'(2)] d(3)
  have "dn_choice d' \<noteq> dn_choice d" by simp
  with d d' show ?thesis by auto
qed

end
