(* ===== verification/Routes.thy ===== *)
theory Routes
  imports Transactions
begin

text \<open>
  Route selection (\<open>bridge/routes.py\<close>). The ports are functions of the route and of the
  timeout they are given; the clock is the sequence of its readings, consumed one by one. The
  state of a pass is how many readings were taken and which port calls were made.
  \<open>urllib.parse.urlsplit\<close> is the parameter \<open>split\<close>; it returns the parts or raises.
\<close>

definition HOME_BRIDGE_PATH :: string where "HOME_BRIDGE_PATH = ''/api/v1/bridge/ws''"

definition ROUTE_ATTEMPT_OUTCOMES :: "string list" where
  "ROUTE_ATTEMPT_OUTCOMES = [''reachable'', ''unavailable'', ''unauthorized'', ''identity_mismatch'', ''timed_out'']"

definition ROUTE_CLASSES :: "string list" where "ROUTE_CLASSES = [''home'', ''tailscale'', ''public'']"

definition ROUTE_PRIORITY :: "(string \<times> nat) list" where
  "ROUTE_PRIORITY = [(''home'', 0), (''tailscale'', 1), (''public'', 2)]"

definition FAILURE_REASONS :: "(string \<times> string) list" where
  "FAILURE_REASONS = [(''unavailable'', ''route_unavailable''), (''unauthorized'', ''route_unauthorized''),
     (''identity_mismatch'', ''route_identity_mismatch''), (''timed_out'', ''route_timeout'')]"

datatype route_error = RouteValidationError string | RoutePortFailure

type_synonym 'a route_result = "(route_error, 'a) result"

abbreviation route_fail :: "string \<Rightarrow> 'a route_result" where
  "route_fail m \<equiv> Inl (RouteValidationError m)"

abbreviation ensure :: "bool \<Rightarrow> string \<Rightarrow> unit route_result" where
  "ensure b m \<equiv> checkE b (RouteValidationError m)"

section \<open>Routes\<close>

record url_parts =
  up_scheme :: string
  up_netloc :: string
  up_path :: string
  up_query :: string
  up_fragment :: string
  up_username :: "string option"
  up_password :: "string option"
  up_hostname :: "string option"
  up_port_ok :: bool

type_synonym urlsplit = "string \<Rightarrow> url_parts option"

definition control_char :: "char \<Rightarrow> bool" where
  "control_char c \<longleftrightarrow> ord_of c < 32 \<or> ord_of c = 127"

definition ascii_casefold :: "string \<Rightarrow> string" where
  "ascii_casefold = map (\<lambda>c. if 65 \<le> ord_of c \<and> ord_of c \<le> 90 then char_of (ord_of c + 32) else c)"

fun normalise_label :: "pyval \<Rightarrow> string \<Rightarrow> string route_result" where
  "normalise_label (PStr s) field =
     (let n = py_strip s in
      bindE (ensure (1 \<le> length n \<and> length n \<le> 128) (field @ '' must be 1-128 characters'')) (\<lambda>_.
      bindE (ensure (\<not> list_ex control_char n) (field @ '' must not contain control characters'')) (\<lambda>_. Inr n)))"
| "normalise_label v field = route_fail (field @ '' must be a string'')"

definition validate_url_parts :: "url_parts \<Rightarrow> unit route_result" where
  "validate_url_parts p =
     bindE (ensure (ascii_casefold (up_scheme p) \<in> {''ws'', ''wss''}) ''route url must use ws or wss'') (\<lambda>_.
     bindE (ensure (up_netloc p \<noteq> [] \<and> up_hostname p \<noteq> None) ''route url must include a host'') (\<lambda>_.
     bindE (ensure (up_username p = None \<and> up_password p = None) ''route url must not contain userinfo'') (\<lambda>_.
     bindE (ensure (up_query p = [] \<and> up_fragment p = []) ''route url must not contain query or fragment'') (\<lambda>_.
     ensure (up_path p = HOME_BRIDGE_PATH) ''route url must end at /api/v1/bridge/ws''))))"

text \<open>\<open>RouteValidationError\<close> is a \<open>ValueError\<close>, so every failure of the parts becomes one message.\<close>

fun validate_url :: "urlsplit \<Rightarrow> pyval \<Rightarrow> string route_result" where
  "validate_url split (PStr s) =
     (let url = py_strip s in
      bindE (ensure (url \<noteq> [] \<and> \<not> list_ex py_isspace url) ''route url must be a non-blank URL'') (\<lambda>_.
      bindE (ensure (CHR ''?'' \<notin> set url \<and> CHR ''#'' \<notin> set url) ''route url must not contain query or fragment'') (\<lambda>_.
      bindE (ensure (\<not> list_ex control_char url) ''route url must not contain control characters'') (\<lambda>_.
      case split url of
        None \<Rightarrow> route_fail ''route url is invalid''
      | Some p \<Rightarrow> (case validate_url_parts p of
            Inl e \<Rightarrow> route_fail ''route url is invalid''
          | Inr _ \<Rightarrow> if up_port_ok p then Inr url else route_fail ''route url is invalid'')))))"
| "validate_url split v = route_fail ''route url must be a string''"

record approved_route =
  rt_class :: string
  rt_id :: string
  rt_url :: string
  rt_enabled :: bool

definition class_of :: "pyval \<Rightarrow> string \<Rightarrow> string route_result" where
  "class_of v m = (case v of PStr c \<Rightarrow> bindE (ensure (c \<in> set ROUTE_CLASSES) m) (\<lambda>_. Inr c) | _ \<Rightarrow> route_fail m)"

definition make_route :: "urlsplit \<Rightarrow> pyval \<Rightarrow> pyval \<Rightarrow> pyval \<Rightarrow> pyval \<Rightarrow> approved_route route_result" where
  "make_route split class rid url enabled =
     bindE (class_of class ''route_class must be one of home, tailscale, or public'') (\<lambda>c.
     bindE (normalise_label rid ''route id'') (\<lambda>i.
     case enabled of
       PBool b \<Rightarrow> bindE (validate_url split url) (\<lambda>u.
         Inr \<lparr>rt_class = c, rt_id = i, rt_url = u, rt_enabled = b\<rparr>)
     | _ \<Rightarrow> route_fail ''route enabled must be a boolean''))"

definition route_from_mapping :: "urlsplit \<Rightarrow> pydict \<Rightarrow> approved_route route_result" where
  "route_from_mapping split d =
     bindE (ensure (set (map fst d) = set (map KStr [''class'', ''id'', ''url'', ''enabled'']))
              ''route has invalid fields'') (\<lambda>_.
     make_route split (dfield d ''class'') (dfield d ''id'') (dfield d ''url'') (dfield d ''enabled''))"

record selected_route =
  sr_class :: string
  sr_id :: string

definition make_selected :: "string \<Rightarrow> string \<Rightarrow> selected_route route_result" where
  "make_selected c i =
     bindE (ensure (c \<in> set ROUTE_CLASSES) ''selected route has an invalid class'') (\<lambda>_.
     bindE (normalise_label (PStr i) ''route id'') (\<lambda>n. Inr \<lparr>sr_class = c, sr_id = n\<rparr>))"

definition to_descriptor :: "approved_route \<Rightarrow> selected_route route_result" where
  "to_descriptor r = make_selected (rt_class r) (rt_id r)"

definition selected_endpoint :: "selected_route \<Rightarrow> pyval" where
  "selected_endpoint r = obj [(''class'', PStr (sr_class r)), (''id'', PStr (sr_id r))]"

text \<open>A route given as an object was validated when it was made.\<close>

datatype route_candidate = RouteObject approved_route | RouteMapping pydict | OtherCandidate

fun read_candidate :: "urlsplit \<Rightarrow> route_candidate \<Rightarrow> approved_route route_result" where
  "read_candidate split (RouteObject r) = Inr r"
| "read_candidate split (RouteMapping d) = route_from_mapping split d"
| "read_candidate split OtherCandidate = route_fail ''route must be an ApprovedRoute or object''"

definition add_route :: "urlsplit \<Rightarrow> approved_route list \<Rightarrow> route_candidate \<Rightarrow> approved_route list route_result" where
  "add_route split acc v =
     bindE (read_candidate split v) (\<lambda>r.
     bindE (ensure (rt_id r \<notin> set (map rt_id acc)) ''duplicate route id'') (\<lambda>_. Inr (acc @ [r])))"

datatype route_source = Candidates "route_candidate list" | NotSequence | NotIterable

fun snapshot_routes :: "urlsplit \<Rightarrow> route_source \<Rightarrow> approved_route list route_result" where
  "snapshot_routes split (Candidates vs) = foldE (add_route split) [] vs"
| "snapshot_routes split NotSequence = route_fail ''routes must be an iterable of route objects''"
| "snapshot_routes split NotIterable = route_fail ''routes must be iterable''"

section \<open>The selector\<close>

definition finite_number :: "pyval \<Rightarrow> string \<Rightarrow> rat route_result" where
  "finite_number v field = (case v of
     PInt n \<Rightarrow> (case float_of_int n of None \<Rightarrow> route_fail (field @ '' must be a finite number'') | Some q \<Rightarrow> Inr q)
   | PFloat (Fin q) \<Rightarrow> Inr q
   | _ \<Rightarrow> route_fail (field @ '' must be a finite number''))"

fun validate_expected_identity :: "pyval \<Rightarrow> string route_result" where
  "validate_expected_identity (PStr s) =
     bindE (ensure (py_strip s \<noteq> []) ''expected Household Identity must be non-empty'') (\<lambda>_.
     bindE (ensure (\<not> list_ex control_char s) ''expected Household Identity must not contain control characters'') (\<lambda>_.
     Inr s))"
| "validate_expected_identity v = route_fail ''expected Household Identity must be non-empty''"

definition validate_timeout :: "pyval \<Rightarrow> rat option route_result" where
  "validate_timeout v = (if v = PNone then Inr None
     else case v of
       PInt _ \<Rightarrow> bindE (finite_number v ''route timeout'') (\<lambda>q.
         bindE (ensure (0 < q) ''route timeout must be a positive finite number'') (\<lambda>_. Inr (Some q)))
     | PFloat _ \<Rightarrow> bindE (finite_number v ''route timeout'') (\<lambda>q.
         bindE (ensure (0 < q) ''route timeout must be a positive finite number'') (\<lambda>_. Inr (Some q)))
     | _ \<Rightarrow> route_fail ''route timeout must be a positive finite number'')"

text \<open>A port is called with the route and its time bound, and answers or raises.\<close>

datatype 'a port_answer =
    Answered 'a
  | RaisedTypeError
  | RaisedProbe string
  | RaisedTimeout
  | RaisedPermission
  | RaisedConnection
  | RaisedOther

type_synonym 'a route_port = "approved_route \<Rightarrow> rat option \<Rightarrow> 'a port_answer"

datatype probe_value = PlainAnswer pyval | ProbeResult string

definition select_port :: "'p option \<Rightarrow> 'p option \<Rightarrow> string \<Rightarrow> 'p route_result" where
  "select_port primary alias label = (case (primary, alias) of
     (Some p, Some q) \<Rightarrow> route_fail (''provide only one '' @ label @ '' port'')
   | (Some p, None) \<Rightarrow> Inr p
   | (None, Some q) \<Rightarrow> Inr q
   | (None, None) \<Rightarrow> route_fail (label @ '' port must be callable''))"

record selector =
  sel_routes :: "approved_route list"
  sel_identity :: string
  sel_probe :: "probe_value route_port"
  sel_verifier :: "pyval route_port"
  sel_public :: bool
  sel_timeout :: "rat option"
  sel_clock :: "nat \<Rightarrow> pyval"

definition new_selector :: "urlsplit \<Rightarrow> route_source \<Rightarrow> pyval \<Rightarrow> probe_value route_port option \<Rightarrow> probe_value route_port option
    \<Rightarrow> pyval route_port option \<Rightarrow> pyval route_port option \<Rightarrow> pyval \<Rightarrow> pyval \<Rightarrow> (nat \<Rightarrow> pyval) \<Rightarrow> selector route_result" where
  "new_selector split routes identity probe route_probe verifier identity_verifier public timeout clock =
     bindE (snapshot_routes split routes) (\<lambda>rs.
     bindE (validate_expected_identity identity) (\<lambda>i.
     bindE (select_port probe route_probe ''route probe'') (\<lambda>p.
     bindE (select_port verifier identity_verifier ''Household Identity verifier'') (\<lambda>v.
     case public of
       PBool b \<Rightarrow> bindE (validate_timeout timeout) (\<lambda>t.
         Inr \<lparr>sel_routes = rs, sel_identity = i, sel_probe = p, sel_verifier = v, sel_public = b,
              sel_timeout = t, sel_clock = clock\<rparr>)
     | _ \<Rightarrow> route_fail ''allow_public must be a boolean''))))"

datatype route_call = ProbeCall string "rat option" | VerifyCall string "rat option"

record pass =
  pass_reads :: nat
  pass_calls :: "route_call list"

type_synonym 'a routing = "(pass, route_error, 'a) mutation"

definition read_clock :: "selector \<Rightarrow> string \<Rightarrow> rat routing" where
  "read_clock z field = readM (\<lambda>s.
     bindM (modifyM (\<lambda>s. s\<lparr>pass_reads := Suc (pass_reads s)\<rparr>)) (\<lambda>_.
     liftM (finite_number (sel_clock z (pass_reads s)) field)))"

definition note_call :: "route_call \<Rightarrow> unit routing" where
  "note_call c = modifyM (\<lambda>s. s\<lparr>pass_calls := pass_calls s @ [c]\<rparr>)"

definition route_deadline :: "selector \<Rightarrow> rat option routing" where
  "route_deadline z = (case sel_timeout z of
     None \<Rightarrow> returnM None
   | Some t \<Rightarrow> bindM (read_clock z ''clock'') (\<lambda>now. returnM (Some (now + t))))"

definition route_remaining :: "selector \<Rightarrow> rat option \<Rightarrow> rat option routing" where
  "route_remaining z deadline = (case deadline of
     None \<Rightarrow> returnM None
   | Some d \<Rightarrow> bindM (read_clock z ''clock'') (\<lambda>now. returnM (Some (max 0 (d - now)))))"

definition exhausted :: "rat option \<Rightarrow> bool" where
  "exhausted r = (case r of None \<Rightarrow> False | Some q \<Rightarrow> q \<le> 0)"

definition route_expired :: "selector \<Rightarrow> rat option \<Rightarrow> bool routing" where
  "route_expired z deadline = bindM (route_remaining z deadline) (\<lambda>r. returnM (exhausted r))"

fun outcome_for_exception :: "'a port_answer \<Rightarrow> string route_result" where
  "outcome_for_exception (RaisedProbe out) = (if out \<in> fst ` set FAILURE_REASONS then Inr out
     else route_fail ''route probe failure has an invalid outcome'')"
| "outcome_for_exception RaisedTimeout = Inr ''timed_out''"
| "outcome_for_exception RaisedPermission = Inr ''unauthorized''"
| "outcome_for_exception RaisedConnection = Inr ''unavailable''"
| "outcome_for_exception _ = Inl RoutePortFailure"

definition failure_outcome :: "selector \<Rightarrow> 'a port_answer \<Rightarrow> rat option \<Rightarrow> string routing" where
  "failure_outcome z error deadline =
     bindM (liftM (outcome_for_exception error)) (\<lambda>out.
     bindM (route_expired z deadline) (\<lambda>late. returnM (if late then ''timed_out'' else out)))"

text \<open>What a call of a port comes to: its answer, or the outcome of the failure it raised.\<close>

definition port_result :: "selector \<Rightarrow> 'a port_answer \<Rightarrow> rat option \<Rightarrow> string \<Rightarrow> ('a \<Rightarrow> string routing) \<Rightarrow> string routing" where
  "port_result z answer deadline mismatch k = (case answer of
     Answered v \<Rightarrow> k v
   | RaisedTypeError \<Rightarrow> raiseM (RouteValidationError mismatch)
   | RaisedOther \<Rightarrow> raiseM RoutePortFailure
   | _ \<Rightarrow> failure_outcome z answer deadline)"

definition plain_outcome :: "pyval \<Rightarrow> string option" where
  "plain_outcome v = (case v of PStr out \<Rightarrow> if out \<in> set ROUTE_ATTEMPT_OUTCOMES then Some out else None | _ \<Rightarrow> None)"

fun normalise_probe_result :: "probe_value \<Rightarrow> string route_result" where
  "normalise_probe_result (ProbeResult out) = Inr out"
| "normalise_probe_result (PlainAnswer (PBool b)) = Inr (if b then ''reachable'' else ''unavailable'')"
| "normalise_probe_result (PlainAnswer (PDict d)) = (if set (map fst d) = {KStr ''outcome''}
     then (case plain_outcome (dfield d ''outcome'') of None \<Rightarrow> route_fail ''route probe returned a malformed result'' | Some out \<Rightarrow> Inr out)
     else route_fail ''route probe returned a malformed result'')"
| "normalise_probe_result (PlainAnswer v) = (case plain_outcome v of
     None \<Rightarrow> route_fail ''route probe returned a malformed result'' | Some out \<Rightarrow> Inr out)"

fun compare_identity :: "pyval \<Rightarrow> string \<Rightarrow> string route_result" where
  "compare_identity PNone expected = Inr ''identity_mismatch''"
| "compare_identity (PStr p) expected = Inr (if p = expected then ''reachable'' else ''identity_mismatch'')"
| "compare_identity v expected = route_fail ''identity verifier returned a malformed result''"

definition verify_route :: "selector \<Rightarrow> approved_route \<Rightarrow> rat option \<Rightarrow> string routing" where
  "verify_route z r deadline =
     bindM (route_remaining z deadline) (\<lambda>left.
     if exhausted left then returnM ''timed_out''
     else bindM (note_call (VerifyCall (rt_id r) left)) (\<lambda>_.
       port_result z (sel_verifier z r left) deadline ''Household Identity verifier has an incompatible signature'' (\<lambda>proof_value.
         bindM (route_expired z deadline) (\<lambda>late.
         if late then returnM ''timed_out'' else liftM (compare_identity proof_value (sel_identity z))))))"

definition evaluate_route :: "selector \<Rightarrow> approved_route \<Rightarrow> string routing" where
  "evaluate_route z r =
     bindM (route_deadline z) (\<lambda>deadline.
     bindM (route_remaining z deadline) (\<lambda>left.
     if exhausted left then returnM ''timed_out''
     else bindM (note_call (ProbeCall (rt_id r) left)) (\<lambda>_.
       port_result z (sel_probe z r left) deadline ''route probe port has an incompatible signature'' (\<lambda>answer.
         bindM (liftM (normalise_probe_result answer)) (\<lambda>out.
         bindM (route_expired z deadline) (\<lambda>late.
         if late then returnM ''timed_out''
         else if out \<noteq> ''reachable'' then returnM out
         else verify_route z r deadline))))))"

section \<open>Selection\<close>

record route_attempt =
  at_route :: selected_route
  at_outcome :: string

definition make_attempt :: "selected_route \<Rightarrow> string \<Rightarrow> route_attempt route_result" where
  "make_attempt r out = bindE (ensure (out \<in> set ROUTE_ATTEMPT_OUTCOMES) ''route attempt has an invalid outcome'') (\<lambda>_.
     Inr \<lparr>at_route = r, at_outcome = out\<rparr>)"

definition attempt_reason :: "route_attempt \<Rightarrow> string option" where
  "attempt_reason a = map_of FAILURE_REASONS (at_outcome a)"

definition attempt_endpoint :: "route_attempt \<Rightarrow> pyval" where
  "attempt_endpoint a = obj ([(''route'', selected_endpoint (at_route a)), (''outcome'', PStr (at_outcome a))]
     @ (case attempt_reason a of None \<Rightarrow> [] | Some m \<Rightarrow> [(''reason'', PStr m)]))"

record route_selection =
  rs_status :: string
  rs_selected :: "selected_route option"
  rs_attempts :: "route_attempt list"
  rs_reason :: "string option"

definition make_selection :: "string \<Rightarrow> selected_route option \<Rightarrow> route_attempt list \<Rightarrow> string option \<Rightarrow> route_selection route_result" where
  "make_selection status sel attempts reason =
     bindE (ensure (status \<in> {''selected'', ''unavailable''}) ''route selection has an invalid status'') (\<lambda>_.
     bindE (if status = ''selected''
            then ensure (sel \<noteq> None \<and> reason = None) ''selected route result is incomplete''
            else ensure (sel = None \<and> reason = Some ''route_unavailable'') ''unavailable route selection is incomplete'') (\<lambda>_.
     Inr \<lparr>rs_status = status, rs_selected = sel, rs_attempts = attempts, rs_reason = reason\<rparr>))"

definition selection_available :: "route_selection \<Rightarrow> bool" where
  "selection_available x \<longleftrightarrow> rs_status x = ''selected''"

definition safe_failure_reason :: "route_selection \<Rightarrow> string option" where
  "safe_failure_reason x = (if rs_status x = ''selected'' then None
     else case find (\<lambda>a. attempt_reason a \<noteq> None) (rs_attempts x) of
       None \<Rightarrow> rs_reason x | Some a \<Rightarrow> attempt_reason a)"

definition selection_endpoint :: "route_selection \<Rightarrow> pyval" where
  "selection_endpoint x = obj ([(''status'', PStr (rs_status x)), (''attempts'', PList (map attempt_endpoint (rs_attempts x)))]
     @ (case rs_selected x of None \<Rightarrow> [] | Some r \<Rightarrow> [(''route'', selected_endpoint r)])
     @ (case rs_reason x of None \<Rightarrow> [] | Some m \<Rightarrow> [(''reason'', PStr m)]))"

text \<open>The sort is stable, so the index in the key of the code decides nothing further.\<close>

definition class_priority :: "approved_route \<Rightarrow> nat" where
  "class_priority r = the (map_of ROUTE_PRIORITY (rt_class r))"

definition eligible :: "selector \<Rightarrow> approved_route \<Rightarrow> bool" where
  "eligible z r \<longleftrightarrow> rt_enabled r \<and> (rt_class r \<noteq> ''public'' \<or> sel_public z)"

definition eligible_routes :: "selector \<Rightarrow> approved_route list" where
  "eligible_routes z = sort_key class_priority (filter (eligible z) (sel_routes z))"

fun try_routes :: "selector \<Rightarrow> route_attempt list \<Rightarrow> approved_route list \<Rightarrow> route_selection routing" where
  "try_routes z attempts [] = liftM (make_selection ''unavailable'' None attempts (Some ''route_unavailable''))"
| "try_routes z attempts (r # rs) =
     bindM (evaluate_route z r) (\<lambda>out.
     bindM (liftM (to_descriptor r)) (\<lambda>d.
     bindM (liftM (make_attempt d out)) (\<lambda>a.
     if out = ''reachable'' then liftM (make_selection ''selected'' (Some d) (attempts @ [a]) None)
     else try_routes z (attempts @ [a]) rs)))"

definition select_route :: "selector \<Rightarrow> route_selection routing" where
  "select_route z = try_routes z [] (eligible_routes z)"

definition new_pass :: pass where "new_pass = \<lparr>pass_reads = 0, pass_calls = []\<rparr>"

definition select_approved_route :: "urlsplit \<Rightarrow> route_source \<Rightarrow> pyval \<Rightarrow> probe_value route_port \<Rightarrow> pyval route_port
    \<Rightarrow> pyval \<Rightarrow> pyval \<Rightarrow> (nat \<Rightarrow> pyval) \<Rightarrow> (route_error, route_selection) result \<times> pass" where
  "select_approved_route split routes identity probe verifier public timeout clock =
     bindM (liftM (new_selector split routes identity (Some probe) None (Some verifier) None public timeout clock))
       select_route new_pass"

section \<open>Routes that passed validation\<close>

definition route_ok :: "approved_route \<Rightarrow> bool" where
  "route_ok r \<longleftrightarrow> rt_class r \<in> set ROUTE_CLASSES \<and> normalise_label (PStr (rt_id r)) ''route id'' = Inr (rt_id r)"

lemma strip_strip [simp]: "py_strip (py_strip s) = py_strip s"
proof -
  let ?d = "dropWhile py_isspace"
  have front: "?d (rev (?d (rev (?d s)))) = rev (?d (rev (?d s)))"
  proof (cases "rev (?d (rev (?d s)))")
    case (Cons c cs)
    obtain ys where "?d s = rev (?d (rev (?d s))) @ ys"
      by (metis rev_append rev_rev_ident takeWhile_dropWhile_id)
    with Cons have "hd (?d s) = c" "?d s \<noteq> []" by auto
    then have "\<not> py_isspace c" using hd_dropWhile by metis
    with Cons show ?thesis by simp
  qed (simp only: dropWhile.simps)
  then show ?thesis unfolding py_strip_def by (simp add: dropWhile_idem)
qed

lemma normalise_label_ok:
  "normalise_label v f = Inr n \<Longrightarrow> normalise_label (PStr n) f = Inr n"
  by (cases v) (auto simp: Let_def result_simps)

lemma make_route_ok: "make_route split c i u e = Inr r \<Longrightarrow> route_ok r"
  by (cases c; cases e) (auto simp: make_route_def class_of_def route_ok_def result_simps simp del: normalise_label.simps
      dest: normalise_label_ok)

lemma descriptor_ok: "route_ok r \<Longrightarrow> to_descriptor r = Inr \<lparr>sr_class = rt_class r, sr_id = rt_id r\<rparr>"
  by (simp add: route_ok_def to_descriptor_def make_selected_def)

section \<open>One route\<close>

definition clock_monotone :: "selector \<Rightarrow> bool" where
  "clock_monotone z \<longleftrightarrow> (\<forall>i j a b. i \<le> j \<and> finite_number (sel_clock z i) ''clock'' = Inr a
     \<and> finite_number (sel_clock z j) ''clock'' = Inr b \<longrightarrow> a \<le> b)"

definition within_bound :: "selector \<Rightarrow> rat option \<Rightarrow> bool" where
  "within_bound z left = (case sel_timeout z of None \<Rightarrow> left = None
     | Some bound \<Rightarrow> (case left of None \<Rightarrow> False | Some q \<Rightarrow> 0 < q \<and> q \<le> bound))"

text \<open>A deadline set from a reading that was taken before the \<open>n\<close>-th.\<close>

definition deadline_before :: "selector \<Rightarrow> rat option \<Rightarrow> nat \<Rightarrow> bool" where
  "deadline_before z deadline n = (case sel_timeout z of None \<Rightarrow> deadline = None
     | Some bound \<Rightarrow> (\<exists>i now. i < n \<and> finite_number (sel_clock z i) ''clock'' = Inr now \<and> deadline = Some (now + bound)))"

lemma deadline_before_later: "deadline_before z d n \<Longrightarrow> n \<le> m \<Longrightarrow> deadline_before z d m"
  by (auto simp: deadline_before_def split: option.splits) (use order_less_le_trans in blast)

lemma read_clock_run: "read_clock z f s = (Inr q, t) \<longleftrightarrow> finite_number (sel_clock z (pass_reads s)) f = Inr q
    \<and> t = s\<lparr>pass_reads := Suc (pass_reads s)\<rparr>"
  by (auto simp: read_clock_def mutation_simps)

lemma route_deadline_run:
  assumes "route_deadline z s = (Inr d, t)"
  shows "pass_calls t = pass_calls s" "deadline_before z d (pass_reads t)"
  using assms by (auto simp: route_deadline_def mutation_simps read_clock_run deadline_before_def split: option.splits)

lemma route_remaining_run:
  assumes "route_remaining z d s = (Inr left, t)" and "deadline_before z d (pass_reads s)"
  shows "pass_calls t = pass_calls s" "deadline_before z d (pass_reads t)"
    "\<lbrakk>clock_monotone z; \<not> exhausted left\<rbrakk> \<Longrightarrow> within_bound z left"
proof -
  have t: "pass_calls t = pass_calls s \<and> pass_reads s \<le> pass_reads t"
    using assms(1) by (auto simp: route_remaining_def mutation_simps read_clock_run split: option.splits)
  then show "pass_calls t = pass_calls s" "deadline_before z d (pass_reads t)"
    using deadline_before_later [OF assms(2)] by simp_all
  assume mono: "clock_monotone z" and left: "\<not> exhausted left"
  show "within_bound z left"
  proof (cases "sel_timeout z")
    case None
    then show ?thesis using assms by (auto simp: within_bound_def deadline_before_def route_remaining_def mutation_simps)
  next
    case (Some bound)
    with assms(2) obtain i now where i: "i < pass_reads s" "finite_number (sel_clock z i) ''clock'' = Inr now" "d = Some (now + bound)"
      by (auto simp: deadline_before_def)
    from assms(1) i(3) obtain later where l: "finite_number (sel_clock z (pass_reads s)) ''clock'' = Inr later"
      "left = Some (max 0 (now + bound - later))"
      by (auto simp: route_remaining_def mutation_simps read_clock_run)
    have "now \<le> later" using mono i(1,2) l(1) less_imp_le unfolding clock_monotone_def by blast
    with left l(2) Some show ?thesis by (auto simp: within_bound_def exhausted_def max_def split: if_splits)
  qed
qed

lemma route_expired_run:
  assumes "route_expired z d s = (Inr late, t)"
  shows "pass_calls t = pass_calls s" "pass_reads s \<le> pass_reads t"
  using assms by (auto simp: route_expired_def route_remaining_def mutation_simps read_clock_run split: option.splits)

lemma failure_outcome_run:
  assumes "failure_outcome z e d s = (Inr out, t)"
  shows "pass_calls t = pass_calls s" "out \<noteq> ''reachable''"
proof -
  obtain o' late where o': "outcome_for_exception e = Inr o'" and late: "route_expired z d s = (Inr late, t)"
    and out: "out = (if late then ''timed_out'' else o')"
    using assms by (auto simp: failure_outcome_def mutation_simps)
  show "pass_calls t = pass_calls s" by (rule route_expired_run(1) [OF late])
  have "o' \<noteq> ''reachable''" using o' by (cases e rule: outcome_for_exception.cases) (auto simp: FAILURE_REASONS_def split: if_splits)
  with out show "out \<noteq> ''reachable''" by auto
qed

lemma port_result_run:
  assumes "port_result z ans d m k s = (Inr out, t)"
  shows "(\<exists>v. ans = Answered v \<and> k v s = (Inr out, t)) \<or> (\<nexists>v. ans = Answered v) \<and> pass_calls t = pass_calls s \<and> out \<noteq> ''reachable''"
  using assms failure_outcome_run [of z ans d s out t]
  by (cases ans) (auto simp: port_result_def mutation_simps)

text \<open>The calls one route may cause: a bounded probe, and a bounded verification only after a probe that reached it.\<close>

definition calls_for :: "selector \<Rightarrow> approved_route \<Rightarrow> route_call list \<Rightarrow> bool" where
  "calls_for z r cs \<longleftrightarrow> cs = [] \<or> (\<exists>tp. (clock_monotone z \<longrightarrow> within_bound z tp) \<and> (cs = [ProbeCall (rt_id r) tp]
     \<or> (\<exists>v tv. sel_probe z r tp = Answered v \<and> normalise_probe_result v = Inr ''reachable''
          \<and> (clock_monotone z \<longrightarrow> within_bound z tv) \<and> cs = [ProbeCall (rt_id r) tp, VerifyCall (rt_id r) tv])))"

definition proved :: "selector \<Rightarrow> approved_route \<Rightarrow> bool" where
  "proved z r \<longleftrightarrow> (\<exists>tp v. sel_probe z r tp = Answered v \<and> normalise_probe_result v = Inr ''reachable'')
     \<and> (\<exists>tv. sel_verifier z r tv = Answered (PStr (sel_identity z)))"

lemma compare_identity_reachable: "compare_identity v e = Inr ''reachable'' \<longleftrightarrow> v = PStr e"
  by (cases "(v, e)" rule: compare_identity.cases) auto

lemma verify_run:
  assumes "verify_route z r d s = (Inr out, t)" and "deadline_before z d (pass_reads s)"
  shows "(pass_calls t = pass_calls s \<and> out \<noteq> ''reachable'') \<or> (\<exists>tv. (clock_monotone z \<longrightarrow> within_bound z tv)
    \<and> pass_calls t = pass_calls s @ [VerifyCall (rt_id r) tv]
    \<and> (out = ''reachable'' \<longrightarrow> sel_verifier z r tv = Answered (PStr (sel_identity z))))"
proof -
  from assms(1) obtain left s1 where left: "route_remaining z d s = (Inr left, s1)"
    and k: "(exhausted left \<and> out = ''timed_out'' \<and> t = s1) \<or> (\<not> exhausted left
       \<and> port_result z (sel_verifier z r left) d ''Household Identity verifier has an incompatible signature'' (\<lambda>p.
         bindM (route_expired z d) (\<lambda>late. if late then returnM ''timed_out'' else liftM (compare_identity p (sel_identity z))))
         (s1\<lparr>pass_calls := pass_calls s1 @ [VerifyCall (rt_id r) left]\<rparr>) = (Inr out, t))"
    by (auto simp: verify_route_def mutation_simps note_call_def split: if_splits)
  note rem = route_remaining_run [OF left assms(2)]
  from k show ?thesis
  proof (elim disjE conjE)
    assume "\<not> exhausted left" and run: "port_result z (sel_verifier z r left) d ''Household Identity verifier has an incompatible signature'' (\<lambda>p.
         bindM (route_expired z d) (\<lambda>late. if late then returnM ''timed_out'' else liftM (compare_identity p (sel_identity z))))
         (s1\<lparr>pass_calls := pass_calls s1 @ [VerifyCall (rt_id r) left]\<rparr>) = (Inr out, t)"
    from port_result_run [OF run] have "pass_calls t = pass_calls s1 @ [VerifyCall (rt_id r) left]
        \<and> (out = ''reachable'' \<longrightarrow> sel_verifier z r left = Answered (PStr (sel_identity z)))"
      by (auto simp: mutation_simps compare_identity_reachable dest!: route_expired_run(1) split: if_splits)
    with rem \<open>\<not> exhausted left\<close> show ?thesis by auto
  qed (use rem(1) in simp)
qed

lemma evaluate_run:
  assumes "evaluate_route z r s = (Inr out, t)"
  obtains cs where "pass_calls t = pass_calls s @ cs" "calls_for z r cs" "out = ''reachable'' \<longrightarrow> proved z r \<and> length cs = 2"
proof -
  from assms obtain d s1 left s2 where dl: "route_deadline z s = (Inr d, s1)" and left: "route_remaining z d s1 = (Inr left, s2)"
    and k: "(exhausted left \<and> out = ''timed_out'' \<and> t = s2) \<or> (\<not> exhausted left
       \<and> port_result z (sel_probe z r left) d ''route probe port has an incompatible signature'' (\<lambda>answer.
         bindM (liftM (normalise_probe_result answer)) (\<lambda>out.
         bindM (route_expired z d) (\<lambda>late.
         if late then returnM ''timed_out'' else if out \<noteq> ''reachable'' then returnM out else verify_route z r d)))
         (s2\<lparr>pass_calls := pass_calls s2 @ [ProbeCall (rt_id r) left]\<rparr>) = (Inr out, t))"
    by (auto simp: evaluate_route_def mutation_simps note_call_def split: if_splits)
  note d = route_deadline_run [OF dl]
  note rem = route_remaining_run [OF left d(2)]
  have before: "pass_calls s2 = pass_calls s" using d(1) rem(1) by simp
  from k show thesis
  proof (elim disjE conjE)
    assume "out = ''timed_out''" "t = s2"
    then show thesis using before by (intro that [of "[]"]) (simp_all add: calls_for_def)
  next
    assume some: "\<not> exhausted left"
      and run: "port_result z (sel_probe z r left) d ''route probe port has an incompatible signature'' (\<lambda>answer.
         bindM (liftM (normalise_probe_result answer)) (\<lambda>out.
         bindM (route_expired z d) (\<lambda>late.
         if late then returnM ''timed_out'' else if out \<noteq> ''reachable'' then returnM out else verify_route z r d)))
         (s2\<lparr>pass_calls := pass_calls s2 @ [ProbeCall (rt_id r) left]\<rparr>) = (Inr out, t)"
    have one: "calls_for z r [ProbeCall (rt_id r) left]" using rem(3) [OF _ some] by (simp add: calls_for_def)
    let ?s = "s2\<lparr>pass_calls := pass_calls s2 @ [ProbeCall (rt_id r) left]\<rparr>"
    have answered: "pass_calls t = pass_calls ?s \<and> out \<noteq> ''reachable''
        \<or> normalise_probe_result v = Inr ''reachable'' \<and> (\<exists>s3. verify_route z r d s3 = (Inr out, t)
            \<and> pass_calls s3 = pass_calls ?s \<and> deadline_before z d (pass_reads s3))"
      if "bindM (liftM (normalise_probe_result v)) (\<lambda>out. bindM (route_expired z d) (\<lambda>late.
         if late then returnM ''timed_out'' else if out \<noteq> ''reachable'' then returnM out else verify_route z r d)) ?s = (Inr out, t)" for v
    proof -
      from that obtain o' late s3 where o': "normalise_probe_result v = Inr o'" and late: "route_expired z d ?s = (Inr late, s3)"
        and rest: "(if late then returnM ''timed_out'' else if o' \<noteq> ''reachable'' then returnM o' else verify_route z r d) s3 = (Inr out, t)"
        by (auto simp: mutation_simps)
      have s3: "pass_calls s3 = pass_calls ?s" "deadline_before z d (pass_reads s3)"
        using route_expired_run [OF late] deadline_before_later [OF rem(2)] by simp_all
      show ?thesis
      proof (cases "late \<or> o' \<noteq> ''reachable''")
        case True
        then show ?thesis using rest s3(1) by (auto simp: liftM_eq split: if_splits)
      next
        case False
        then show ?thesis using rest s3 o' by simp blast
      qed
    qed
    from port_result_run [OF run] consider
        (no_answer) "pass_calls t = pass_calls s2 @ [ProbeCall (rt_id r) left]" "out \<noteq> ''reachable''"
      | (verified) v s3 where "sel_probe z r left = Answered v" "normalise_probe_result v = Inr ''reachable''"
          "verify_route z r d s3 = (Inr out, t)" "pass_calls s3 = pass_calls s2 @ [ProbeCall (rt_id r) left]"
          "deadline_before z d (pass_reads s3)"
      using answered by (elim disjE exE conjE) (simp_all, blast)
    then show thesis
    proof cases
      case no_answer
      then show thesis using before one by (intro that [of "[ProbeCall (rt_id r) left]"]) simp_all
    next
      case verified
      from verify_run [OF verified(3,5)] show thesis
      proof (elim disjE exE conjE)
        assume "pass_calls t = pass_calls s3" "out \<noteq> ''reachable''"
        then show thesis using before verified(4) one by (intro that [of "[ProbeCall (rt_id r) left]"]) simp_all
      next
        fix tv assume tv: "clock_monotone z \<longrightarrow> within_bound z tv" "pass_calls t = pass_calls s3 @ [VerifyCall (rt_id r) tv]"
          "out = ''reachable'' \<longrightarrow> sel_verifier z r tv = Answered (PStr (sel_identity z))"
        have "calls_for z r [ProbeCall (rt_id r) left, VerifyCall (rt_id r) tv]"
          unfolding calls_for_def using tv(1) verified(1,2) rem(3) [OF _ some] by blast
        moreover have "out = ''reachable'' \<longrightarrow> proved z r" unfolding proved_def using tv(3) verified(1,2) by blast
        ultimately show thesis using before verified(4) tv(2)
          by (intro that [of "[ProbeCall (rt_id r) left, VerifyCall (rt_id r) tv]"]) simp_all
      qed
    qed
  qed
qed

section \<open>A pass over the routes\<close>

abbreviation descriptor :: "approved_route \<Rightarrow> selected_route" where
  "descriptor r \<equiv> \<lparr>sr_class = rt_class r, sr_id = rt_id r\<rparr>"

text \<open>
  The attempts of a pass that tried the routes \<open>tried\<close>, and the calls it made: selected means
  the last of them alone was reachable.
\<close>

definition pass_of :: "selector \<Rightarrow> approved_route list \<Rightarrow> bool \<Rightarrow> route_attempt list \<Rightarrow> route_call list \<Rightarrow> bool" where
  "pass_of z tried selected attempts calls \<longleftrightarrow> map at_route attempts = map descriptor tried
     \<and> (\<exists>css. list_all2 (calls_for z) tried css \<and> calls = concat css)
     \<and> (if selected then tried \<noteq> [] \<and> at_outcome (last attempts) = ''reachable'' \<and> proved z (last tried)
          \<and> (\<forall>a \<in> set (butlast attempts). at_outcome a \<noteq> ''reachable'')
        else \<forall>a \<in> set attempts. at_outcome a \<noteq> ''reachable'')"

lemma pass_of_Cons:
  assumes "pass_of z tried sel attempts calls" and "calls_for z r cs" and "at_route a = descriptor r" "at_outcome a \<noteq> ''reachable''"
  shows "pass_of z (r # tried) sel (a # attempts) (cs @ calls)"
proof -
  from assms(1) obtain css where "list_all2 (calls_for z) tried css" "calls = concat css" unfolding pass_of_def by blast
  then have "\<exists>css. list_all2 (calls_for z) (r # tried) css \<and> cs @ calls = concat css"
    using assms(2) by (intro exI [of _ "cs # css"]) simp
  moreover have "attempts \<noteq> [] \<longleftrightarrow> tried \<noteq> []" using assms(1) unfolding pass_of_def by (metis list.map_disc_iff)
  ultimately show ?thesis using assms(1,3,4) by (auto simp: pass_of_def)
qed

lemma try_routes_run:
  assumes "try_routes z acc rs s = (Inr x, t)" and "\<forall>r \<in> set rs. route_ok r"
  shows "\<exists>tried untried new calls. rs = tried @ untried \<and> rs_attempts x = acc @ new \<and> pass_calls t = pass_calls s @ calls
    \<and> pass_of z tried (rs_selected x \<noteq> None) new calls
    \<and> (case rs_selected x of None \<Rightarrow> untried = [] \<and> rs_status x = ''unavailable'' \<and> rs_reason x = Some ''route_unavailable''
        | Some d \<Rightarrow> d = descriptor (last tried) \<and> rs_status x = ''selected'' \<and> rs_reason x = None)"
  using assms
proof (induction rs arbitrary: acc s)
  case Nil
  then show ?case by (auto simp: mutation_simps make_selection_def result_simps pass_of_def)
next
  case (Cons r rs)
  from Cons.prems obtain out s1 a where out: "evaluate_route z r s = (Inr out, s1)" and a: "a = \<lparr>at_route = descriptor r, at_outcome = out\<rparr>"
    and k: "(if out = ''reachable'' then liftM (make_selection ''selected'' (Some (descriptor r)) (acc @ [a]) None)
      else try_routes z (acc @ [a]) rs) s1 = (Inr x, t)"
    by (auto simp: mutation_simps descriptor_ok make_attempt_def result_simps)
  from evaluate_run [OF out] obtain cs where cs: "pass_calls s1 = pass_calls s @ cs" "calls_for z r cs"
    "out = ''reachable'' \<longrightarrow> proved z r" by metis
  show ?case
  proof (cases "out = ''reachable''")
    case True
    with k have x: "rs_status x = ''selected''" "rs_selected x = Some (descriptor r)" "rs_attempts x = acc @ [a]" "rs_reason x = None" "t = s1"
      by (auto simp: mutation_simps make_selection_def result_simps)
    have "pass_of z [r] True [a] cs" unfolding pass_of_def using True cs by (auto simp: a intro: exI [of _ "[cs]"])
    with x cs(1) show ?thesis by (intro exI [of _ "[r]"] exI [of _ rs] exI [of _ "[a]"] exI [of _ cs]) simp
  next
    case False
    with k have "try_routes z (acc @ [a]) rs s1 = (Inr x, t)" by simp
    from Cons.IH [OF this] Cons.prems(2) obtain tried untried new calls where ih: "rs = tried @ untried"
      "rs_attempts x = (acc @ [a]) @ new" "pass_calls t = pass_calls s1 @ calls" "pass_of z tried (rs_selected x \<noteq> None) new calls"
      "case rs_selected x of None \<Rightarrow> untried = [] \<and> rs_status x = ''unavailable'' \<and> rs_reason x = Some ''route_unavailable''
        | Some d \<Rightarrow> d = descriptor (last tried) \<and> rs_status x = ''selected'' \<and> rs_reason x = None" by auto
    have "pass_of z (r # tried) (rs_selected x \<noteq> None) (a # new) (cs @ calls)"
      by (rule pass_of_Cons [OF ih(4) cs(2)]) (simp_all add: a False)
    moreover have "rs_selected x \<noteq> None \<Longrightarrow> tried \<noteq> []" using ih(4) by (auto simp: pass_of_def)
    ultimately show ?thesis using ih cs(1)
      by (intro exI [of _ "r # tried"] exI [of _ untried] exI [of _ "a # new"] exI [of _ "cs @ calls"]) (auto split: option.splits)
  qed
qed

definition objects_valid :: "route_source \<Rightarrow> bool" where
  "objects_valid source \<longleftrightarrow> (\<forall>vs r. source = Candidates vs \<and> RouteObject r \<in> set vs \<longrightarrow> route_ok r)"

lemma snapshot_ok:
  assumes "snapshot_routes split source = Inr rs" and "objects_valid source"
  shows "distinct (map rt_id rs) \<and> (\<forall>r \<in> set rs. route_ok r)"
proof (cases source)
  case (Candidates vs)
  show ?thesis
  proof (rule foldE_invariant [where P = "\<lambda>rs. distinct (map rt_id rs) \<and> (\<forall>r \<in> set rs. route_ok r)"])
    show "foldE (add_route split) [] vs = Inr rs" using assms(1) Candidates by simp
    fix acc v acc' assume acc: "distinct (map rt_id acc) \<and> (\<forall>r \<in> set acc. route_ok r)" "v \<in> set vs" "add_route split acc v = Inr acc'"
    then obtain r where r: "read_candidate split v = Inr r" "rt_id r \<notin> set (map rt_id acc)" "acc' = acc @ [r]"
      by (auto simp: add_route_def result_simps)
    have "route_ok r" using r(1) acc(2) assms(2) Candidates
      by (cases v) (auto simp: objects_valid_def route_from_mapping_def result_simps dest: make_route_ok)
    with acc r show "distinct (map rt_id acc') \<and> (\<forall>r \<in> set acc'. route_ok r)" by auto
  qed simp
qed (use assms in auto)

lemma eligible_order:
  "set (eligible_routes z) = {r \<in> set (sel_routes z). eligible z r}" "sorted (map class_priority (eligible_routes z))"
  "filter (\<lambda>r. class_priority r = n) (eligible_routes z)
     = filter (\<lambda>r. class_priority r = n) (filter (eligible z) (sel_routes z))"
  by (simp_all only: eligible_routes_def set_sort set_filter sorted_sort_key sort_key_stable)

text \<open>
  C36. Route selection takes the first approved route that is reachable and proves the
  Household Identity. The routes a pass tries are, in order, the first of the eligible ones:
  enabled, public only where that is allowed, home before Tailscale before public, and
  within a class in the configured order. If a route is selected, it is the last one tried,
  its probe said reachable and its verifier returned exactly the expected identity, and no
  route tried before it succeeded; if none is, every eligible route was tried and failed.
  The result shows class and ID of the routes and nothing else of them.
\<close>

theorem route_selection_first:
  assumes "new_selector split source identity p p' v v' public timeout clock = Inr z" and "objects_valid source"
    and "select_route z s = (Inr x, t)"
  shows "\<exists>tried untried. sort_key class_priority (filter (\<lambda>r. rt_enabled r \<and> (rt_class r \<noteq> ''public'' \<or> public = PBool True)) (sel_routes z))
      = tried @ untried
    \<and> map at_route (rs_attempts x) = map (\<lambda>r. \<lparr>sr_class = rt_class r, sr_id = rt_id r\<rparr>) tried
    \<and> (rs_selected x = None \<longrightarrow> untried = [] \<and> (\<forall>a \<in> set (rs_attempts x). at_outcome a \<noteq> ''reachable''))
    \<and> (\<forall>d. rs_selected x = Some d \<longrightarrow> (\<exists>before r tp answer tv. tried = before @ [r] \<and> d = \<lparr>sr_class = rt_class r, sr_id = rt_id r\<rparr>
         \<and> sel_probe z r tp = Answered answer \<and> normalise_probe_result answer = Inr ''reachable''
         \<and> sel_verifier z r tv = Answered identity
         \<and> (\<forall>a \<in> set (butlast (rs_attempts x)). at_outcome a \<noteq> ''reachable'')))"
proof -
  obtain rs i b where snap: "snapshot_routes split source = Inr rs" and i: "validate_expected_identity identity = Inr i"
    and b: "public = PBool b" and z: "sel_routes z = rs" "sel_identity z = i" "sel_public z = b"
    using assms(1) that by (cases public) (auto simp: new_selector_def result_simps)
  have identity: "identity = PStr i" using i by (cases identity) (auto simp: result_simps)
  have E: "sort_key class_priority (filter (\<lambda>r. rt_enabled r \<and> (rt_class r \<noteq> ''public'' \<or> public = PBool True)) (sel_routes z)) = eligible_routes z"
    by (simp add: eligible_routes_def eligible_def z b cong: filter_cong)
  have "\<forall>r \<in> set (eligible_routes z). route_ok r" using snapshot_ok [OF snap assms(2)] z(1) eligible_order(1) by auto
  from try_routes_run [OF assms(3) [unfolded select_route_def] this] obtain tried untried calls where
    r: "eligible_routes z = tried @ untried" "pass_of z tried (rs_selected x \<noteq> None) (rs_attempts x) calls"
    "case rs_selected x of None \<Rightarrow> untried = [] \<and> rs_status x = ''unavailable'' \<and> rs_reason x = Some ''route_unavailable''
        | Some d \<Rightarrow> d = descriptor (last tried) \<and> rs_status x = ''selected'' \<and> rs_reason x = None" by auto
  have sel: "\<exists>before r tp answer tv. tried = before @ [r] \<and> d = descriptor r
         \<and> sel_probe z r tp = Answered answer \<and> normalise_probe_result answer = Inr ''reachable''
         \<and> sel_verifier z r tv = Answered identity
         \<and> (\<forall>a \<in> set (butlast (rs_attempts x)). at_outcome a \<noteq> ''reachable'')" if d: "rs_selected x = Some d" for d
  proof -
    have "tried \<noteq> []" "proved z (last tried)" "\<forall>a \<in> set (butlast (rs_attempts x)). at_outcome a \<noteq> ''reachable''" "d = descriptor (last tried)"
      using r(2,3) d by (auto simp: pass_of_def)
    moreover from this(1) have "tried = butlast tried @ [last tried]" by simp
    ultimately show ?thesis unfolding proved_def z(2) identity by blast
  qed
  have att: "map at_route (rs_attempts x) = map descriptor tried" using r(2) by (simp add: pass_of_def)
  have none: "untried = []  \<and> (\<forall>a \<in> set (rs_attempts x). at_outcome a \<noteq> ''reachable'')" if "rs_selected x = None"
    using r(2,3) that by (simp add: pass_of_def)
  show ?thesis unfolding E
    by (rule exI [of _ tried], rule exI [of _ untried], intro conjI allI impI)
      (rule r(1) att sel none [THEN conjunct1] none [THEN conjunct2]; assumption)+
qed

text \<open>
  C37. What a pass does to the network is bounded. Every call of a port is for an eligible
  route, each route is probed and verified at most once, a verification comes right after a
  probe of the same route that said reachable, and, on a clock that does not run backwards,
  every call is given a positive time that is at most the configured bound, or none exactly
  when none is configured.
\<close>

theorem route_calls_bounded:
  assumes "new_selector split source identity p p' v v' public timeout clock = Inr z" and "objects_valid source"
    and "select_route z new_pass = (Inr x, t)"
  shows "\<exists>tried css. pass_calls t = concat css \<and> list_all2 (calls_for z) tried css \<and> distinct (map rt_id tried)
    \<and> set tried \<subseteq> {r \<in> set (sel_routes z). eligible z r} \<and> length (pass_calls t) \<le> 2 * length (sel_routes z)"
proof -
  obtain rs where snap: "snapshot_routes split source = Inr rs" and z: "sel_routes z = rs"
    using assms(1) that by (cases public) (auto simp: new_selector_def result_simps)
  note ok = snapshot_ok [OF snap assms(2)]
  have "\<forall>r \<in> set (eligible_routes z). route_ok r" using ok z eligible_order(1) by auto
  from try_routes_run [OF assms(3) [unfolded select_route_def] this] obtain tried untried calls where
    r: "eligible_routes z = tried @ untried" "pass_calls t = calls" "pass_of z tried (rs_selected x \<noteq> None) (rs_attempts x) calls"
    by (auto simp: new_pass_def)
  from r(3) obtain css where css: "list_all2 (calls_for z) tried css" "calls = concat css" by (auto simp: pass_of_def)
  have "length (concat css) \<le> 2 * length tried" using css(1)
    by (induction rule: list_all2_induct) (auto simp: calls_for_def)
  moreover have "length tried \<le> length (sel_routes z)"
    using r(1) by (metis eligible_routes_def length_append length_filter_le length_sort le_add1 le_trans)
  moreover have "distinct (map rt_id (eligible_routes z))"
  proof -
    have "distinct (map rt_id (filter (eligible z) (sel_routes z)))" using ok by (simp add: z distinct_map_filter)
    then show ?thesis by (simp add: eligible_routes_def distinct_map)
  qed
  then have "distinct (map rt_id tried)" by (simp add: r(1))
  moreover have "set tried \<subseteq> {r \<in> set (sel_routes z). eligible z r}" using eligible_order(1) [of z] r(1) by auto
  ultimately show ?thesis using css r(2) by (intro exI [of _ tried] exI [of _ css]) simp
qed

section \<open>A pass always answers\<close>














section \<open>An example\<close>

definition demo_split :: urlsplit where
  "demo_split url = Some \<lparr>up_scheme = ''wss'', up_netloc = ''home'', up_path = HOME_BRIDGE_PATH, up_query = [], up_fragment = [],
     up_username = None, up_password = None, up_hostname = Some ''home'', up_port_ok = True\<rparr>"

definition demo_candidate :: "string \<Rightarrow> string \<Rightarrow> route_candidate" where
  "demo_candidate c i = RouteMapping [(KStr ''class'', PStr c), (KStr ''id'', PStr i),
     (KStr ''url'', PStr ''wss://home/api/v1/bridge/ws''), (KStr ''enabled'', PBool True)]"

definition demo_routes :: route_source where
  "demo_routes = Candidates [demo_candidate ''public'' ''p'', demo_candidate ''tailscale'' ''t'', demo_candidate ''home'' ''h'']"

definition demo_probe :: "probe_value route_port" where
  "demo_probe r left = (if rt_class r = ''home'' then RaisedTimeout else Answered (PlainAnswer (PBool True)))"

definition demo_verifier :: "pyval route_port" where
  "demo_verifier r left = Answered (PStr ''house'')"

definition demo_selector :: "selector route_result" where
  "demo_selector = new_selector demo_split demo_routes (PStr ''house'') (Some demo_probe) None (Some demo_verifier) None
     (PBool False) (PFloat (Fin 5)) (\<lambda>n. PFloat (Fin 0))"

lemma demo_selects: "\<exists>z x t. demo_selector = Inr z \<and> select_route z new_pass = (Inr x, t)
    \<and> rs_selected x = Some \<lparr>sr_class = ''tailscale'', sr_id = ''t''\<rparr> \<and> length (pass_calls t) = 3"
proof -
  have z: "\<not> isl demo_selector" by code_simp
  have run: "map_sum id rs_selected (fst (select_route (projr demo_selector) new_pass)) = Inr (Some \<lparr>sr_class = ''tailscale'', sr_id = ''t''\<rparr>)"
    "length (pass_calls (snd (select_route (projr demo_selector) new_pass))) = 3" by code_simp+
  from z obtain y where y: "demo_selector = Inr y" by (metis isl_def sum.exhaust)
  from run show ?thesis unfolding y
    by (cases "select_route y new_pass"; cases "fst (select_route y new_pass)") auto
qed

lemma demo_objects: "objects_valid demo_routes"
  by (simp add: objects_valid_def demo_routes_def demo_candidate_def)

theorem route_selection_first_witness:
  "\<exists>z x t (tried :: approved_route list). demo_selector = Inr z \<and> select_route z new_pass = (Inr x, t) \<and> rs_selected x \<noteq> None
    \<and> map at_route (rs_attempts x) = map (\<lambda>r. \<lparr>sr_class = rt_class r, sr_id = rt_id r\<rparr>) tried"
proof -
  obtain z x t where "demo_selector = Inr z" "select_route z new_pass = (Inr x, t)" "rs_selected x \<noteq> None"
    using demo_selects by force
  moreover from route_selection_first [OF this(1) [unfolded demo_selector_def] demo_objects this(2)]
  obtain tried :: "approved_route list" where "map at_route (rs_attempts x) = map (\<lambda>r. \<lparr>sr_class = rt_class r, sr_id = rt_id r\<rparr>) tried"
    by (elim exE conjE) (rule that)
  ultimately show ?thesis by blast
qed

theorem route_calls_bounded_witness:
  "\<exists>z x t. demo_selector = Inr z \<and> select_route z new_pass = (Inr x, t) \<and> length (pass_calls t) \<le> 2 * length (sel_routes z)"
proof -
  obtain z x t where "demo_selector = Inr z" "select_route z new_pass = (Inr x, t)" using demo_selects by blast
  with route_calls_bounded [OF this(1) [unfolded demo_selector_def] demo_objects this(2)] show ?thesis by blast
qed


end
