(* ===== verification/Grant_Store.thy ===== *)
theory Grant_Store
  imports Watch Arbitration Transactions Configuration_Store Credential_Types
begin

text \<open>
  The durable conversation claims (\<open>bridge/production.py\<close>, \<open>ConversationGrantStore\<close>): the SQLite
  tables of claims and Session references, and beside them what the process keeps in memory,
  the armed timers, connection and parking markers, denials and revocation handlers. The
  lock makes every method one step. A method takes its clock readings, the values of its
  factories (identifiers, which \<open>_identifier\<close> leaves as they are) and the SQL statements that
  fail in this call; a failing statement or commit leaves the table as it was. The callbacks
  made after a method has released the lock are recorded in \<open>gs_calls\<close>.
\<close>

section \<open>Values\<close>

datatype grant_error =
    ClaimConflict string
  | GrantValueError string
  | GrantOSError string
  | GrantWatch watch_error
  | GrantHealth health_error

abbreviation MAX_IDENTIFIER_LENGTH :: nat where "MAX_IDENTIFIER_LENGTH \<equiv> 128"

definition CLIENT_CLOSED_REASON :: string where "CLIENT_CLOSED_REASON = ''client_closed''"

fun sql_identifier :: "pyval \<Rightarrow> string \<Rightarrow> (grant_error, string) result" where
  "sql_identifier (PStr s) label = (let n = py_strip s in
     if n = [] then Inl (GrantValueError (label @ '' must be a non-empty string''))
     else if length n > MAX_IDENTIFIER_LENGTH \<or> list_ex (\<lambda>c. ord_of c = 13 \<or> ord_of c = 10) n
       then Inl (GrantValueError (label @ '' is too long or contains a line break''))
     else Inr n)"
| "sql_identifier v label = Inl (GrantValueError (label @ '' must be a non-empty string''))"

definition bad_clock :: "(grant_error, rat) result" where
  "bad_clock = Inl (GrantValueError ''conversation clock value must be finite'')"

fun finite_time :: "pyval \<Rightarrow> (grant_error, rat) result" where
  "finite_time (PInt n) = (case float_of_int n of None \<Rightarrow> bad_clock | Some q \<Rightarrow> Inr q)"
| "finite_time (PFloat (Fin q)) = Inr q"
| "finite_time v = bad_clock"

definition positive_timeout :: "pyval \<Rightarrow> (grant_error, rat) result" where
  "positive_timeout v = bindE (finite_time v) (\<lambda>q.
     if q \<le> 0 then Inl (GrantValueError ''conversation idle timeout must be positive'') else Inr q)"

definition expiry_reason :: "string \<Rightarrow> string" where
  "expiry_reason activity = (if activity = ''ready'' then ''first_open_expired''
     else if activity = ''disconnected'' then ''client_disconnected'' else ''idle_expired'')"

section \<open>The tables\<close>

record claim_row =
  cr_handle :: string
  cr_claim :: string
  cr_device :: string
  cr_room :: "string option"
  cr_mapping :: "string option"
  cr_profile :: string
  cr_revision :: int
  cr_generation :: "int option"
  cr_session :: "string option"
  cr_status :: string
  cr_activity :: string
  cr_deadline :: "rat option"
  cr_close_reason :: "string option"
  cr_created :: rat
  cr_updated :: rat
  cr_kind :: string
  cr_grant :: "string option"
  cr_ref :: "string option"
  cr_wall :: "rat option"
  cr_opened :: "rat option"

record ref_row =
  rf_ref :: string
  rf_grant :: string
  rf_session :: string
  rf_created :: rat

datatype store_call = HandlerCall nat string | ListenerCall nat string

record grant_store =
  gs_rows :: "claim_row list"
  gs_refs :: "ref_row list"
  gs_timers :: "(string \<times> rat) list"
  gs_connected :: "(string \<times> rat) list"
  gs_detached :: "string set"
  gs_denied :: "string set"
  gs_failed :: "(string \<times> string option) set"
  gs_handlers :: "(string \<times> nat) list"
  gs_listeners :: "nat list"
  gs_calls :: "store_call list"

record grant_config =
  gc_limit :: int
  gc_idle :: rat
  gc_first_open :: rat
  gc_grace :: rat
  gc_route :: string

type_synonym 'a gs_op = "(grant_store, grant_error, 'a) mutation"

text \<open>The statements of one call that can fail: the expiry sweep, reads, writes, the commit.\<close>

datatype sql_point = SweepSql | ReadSql | WriteSql | CommitSql

definition sql_at :: "sql_point \<Rightarrow> sql_point list \<Rightarrow> string \<Rightarrow> unit gs_op" where
  "sql_at p flt msg = checkM (p \<notin> set flt) (GrantOSError msg)"

definition atomically :: "'a gs_op \<Rightarrow> 'a gs_op" where
  "atomically m = (\<lambda>s. case m s of (Inl e, s') \<Rightarrow> (Inl e, s) | (Inr x, s') \<Rightarrow> (Inr x, s'))"

definition active_row :: "claim_row \<Rightarrow> bool" where
  "active_row r \<longleftrightarrow> cr_status r = ''active''"

definition lapsed_row :: "rat \<Rightarrow> claim_row \<Rightarrow> bool" where
  "lapsed_row now r = (case cr_deadline r of None \<Rightarrow> False | Some t \<Rightarrow> t \<le> now)"

definition row_of :: "grant_store \<Rightarrow> string \<Rightarrow> claim_row option" where
  "row_of s h = find (\<lambda>r. cr_handle r = h) (gs_rows s)"

text \<open>
  Every \<open>UPDATE\<close> that closes has the condition \<open>status = 'active'\<close>; the reason can depend on
  the row (\<open>_EXPIRY_REASON_SQL\<close>).
\<close>

definition close_row :: "string \<Rightarrow> rat \<Rightarrow> claim_row \<Rightarrow> claim_row" where
  "close_row reason now r = r\<lparr>cr_status := ''closed'', cr_activity := ''closed'', cr_deadline := None,
     cr_close_reason := Some reason, cr_updated := now\<rparr>"

definition update_where :: "(claim_row \<Rightarrow> bool) \<Rightarrow> (claim_row \<Rightarrow> claim_row) \<Rightarrow> grant_store \<Rightarrow> grant_store" where
  "update_where p f s = s\<lparr>gs_rows := map (\<lambda>r. if active_row r \<and> p r then f r else r) (gs_rows s)\<rparr>"

definition close_where :: "(claim_row \<Rightarrow> bool) \<Rightarrow> (claim_row \<Rightarrow> string) \<Rightarrow> rat \<Rightarrow> grant_store \<Rightarrow> grant_store" where
  "close_where p reason now = update_where p (\<lambda>r. close_row (reason r) now r)"

definition active_where :: "(claim_row \<Rightarrow> bool) \<Rightarrow> grant_store \<Rightarrow> claim_row list" where
  "active_where p s = filter (\<lambda>r. active_row r \<and> p r) (gs_rows s)"

section \<open>Memory beside the tables\<close>

definition cancel_timer :: "string \<Rightarrow> grant_store \<Rightarrow> grant_store" where
  "cancel_timer h s = s\<lparr>gs_timers := AList.delete h (gs_timers s)\<rparr>"

definition schedule_timer :: "string \<Rightarrow> rat \<Rightarrow> grant_store \<Rightarrow> grant_store" where
  "schedule_timer h deadline s = s\<lparr>gs_timers := AList.update h deadline (AList.delete h (gs_timers s))\<rparr>"

definition forget :: "string list \<Rightarrow> grant_store \<Rightarrow> grant_store" where
  "forget hs s = s\<lparr>gs_timers := filter (\<lambda>(h, t). h \<notin> set hs) (gs_timers s),
     gs_connected := filter (\<lambda>(h, t). h \<notin> set hs) (gs_connected s),
     gs_detached := gs_detached s - set hs\<rparr>"

definition drop_handlers :: "string list \<Rightarrow> grant_store \<Rightarrow> grant_store" where
  "drop_handlers hs s = s\<lparr>gs_handlers := filter (\<lambda>(h, k). h \<notin> set hs) (gs_handlers s)\<rparr>"

section \<open>Opening the database and closing it\<close>

definition restart_row :: "claim_row \<Rightarrow> claim_row" where
  "restart_row r = (if active_row r then r\<lparr>cr_status := ''closed'', cr_activity := ''closed'', cr_deadline := None,
     cr_close_reason := Some ''service_restart''\<rparr> else r)"

definition open_grant_store :: "claim_row list \<Rightarrow> ref_row list \<Rightarrow> grant_store" where
  "open_grant_store rows refs = \<lparr>gs_rows = map restart_row rows, gs_refs = refs, gs_timers = [], gs_connected = [],
     gs_detached = {}, gs_denied = {}, gs_failed = {}, gs_handlers = [], gs_listeners = [], gs_calls = []\<rparr>"

fun claims_limit :: "pyval \<Rightarrow> (grant_error, int) result" where
  "claims_limit (PInt n) = (if 1 \<le> n \<and> n \<le> 64 then Inr n
     else Inl (GrantValueError ''client claims per device must be between 1 and 64''))"
| "claims_limit v = Inl (GrantValueError ''client claims per device must be between 1 and 64'')"

fun watch_route_id :: "pyval \<Rightarrow> (grant_error, string) result" where
  "watch_route_id (PStr s) = (if bounded_text_128 s then Inr s
     else Inl (GrantValueError ''watch route ID must be a non-empty bounded string''))"
| "watch_route_id v = Inl (GrantValueError ''watch route ID must be a non-empty bounded string'')"

definition make_grant_config :: "pyval \<Rightarrow> pyval \<Rightarrow> pyval \<Rightarrow> pyval \<Rightarrow> pyval \<Rightarrow> (grant_error, grant_config) result" where
  "make_grant_config limit grace idle first_open route =
     bindE (claims_limit limit) (\<lambda>n.
     bindE (positive_timeout grace) (\<lambda>g.
     bindE (positive_timeout idle) (\<lambda>i.
     bindE (positive_timeout first_open) (\<lambda>f.
     bindE (watch_route_id route) (\<lambda>r.
     Inr \<lparr>gc_limit = n, gc_idle = i, gc_first_open = f, gc_grace = g, gc_route = r\<rparr>)))))"

definition shut_down :: "grant_store \<Rightarrow> grant_store" where
  "shut_down s = s\<lparr>gs_timers := [], gs_connected := [], gs_handlers := [], gs_detached := {}\<rparr>"

section \<open>Closing rows\<close>

text \<open>The sweep of \<open>_expire_due_locked\<close>; the handlers of an expired claim stay registered.\<close>

definition handles_of :: "claim_row list \<Rightarrow> string list" where
  "handles_of rows = map cr_handle rows"

definition expire_due_locked :: "sql_point list \<Rightarrow> rat \<Rightarrow> unit gs_op" where
  "expire_due_locked flt now =
     bindM (sql_at SweepSql flt ''cannot expire Home conversation claims'') (\<lambda>_.
     modifyM (\<lambda>s. forget (handles_of (active_where (lapsed_row now) s))
       (close_where (lapsed_row now) (\<lambda>r. expiry_reason (cr_activity r)) now s)))"

definition close_locked :: "sql_point list \<Rightarrow> string \<Rightarrow> string \<Rightarrow> rat \<Rightarrow> unit gs_op" where
  "close_locked flt h reason now =
     bindM (sql_at WriteSql flt ''cannot close Home conversation claim'') (\<lambda>_.
     modifyM (\<lambda>s. drop_handlers [h] (forget [h] (close_where (\<lambda>r. cr_handle r = h) (\<lambda>_. reason) now s))))"

text \<open>A timer that fires: it forgets the handle even when its deadline is no longer the row's.\<close>

definition expire_timer :: "sql_point list \<Rightarrow> string \<Rightarrow> rat \<Rightarrow> pyval \<Rightarrow> unit gs_op" where
  "expire_timer flt h deadline clock =
     bindM (liftM (finite_time clock)) (\<lambda>now.
     if WriteSql \<in> set flt then returnM ()
     else modifyM (\<lambda>s. forget [h] (close_where (\<lambda>r. cr_handle r = h \<and> cr_deadline r = Some deadline \<and> lapsed_row now r)
       (\<lambda>r. expiry_reason (cr_activity r)) now s)))"

definition calls_on_close :: "claim_row list \<Rightarrow> string \<Rightarrow> grant_store \<Rightarrow> store_call list" where
  "calls_on_close rows reason s =
     concat (map (\<lambda>h. map (\<lambda>(_, k). HandlerCall k reason) (filter (\<lambda>(h', k). h' = h) (gs_handlers s))) (handles_of rows))
     @ concat (map (\<lambda>l. map (ListenerCall l) (handles_of rows)) (gs_listeners s))"

definition close_matching_rows :: "sql_point list \<Rightarrow> (claim_row \<Rightarrow> bool) \<Rightarrow> string \<Rightarrow> pyval
    \<Rightarrow> (string \<times> string option) list gs_op" where
  "close_matching_rows flt p reason clock =
     bindM (liftM (finite_time clock)) (\<lambda>now.
     bindM (sql_at WriteSql flt ''cannot revoke Home conversation claims'') (\<lambda>_. readM (\<lambda>s.
     let rows = active_where p s in
     if rows = [] then returnM []
     else bindM (modifyM (\<lambda>s. (drop_handlers (handles_of rows) (forget (handles_of rows)
            (close_where p (\<lambda>_. reason) now s)))\<lparr>gs_calls := gs_calls s @ calls_on_close rows reason s\<rparr>)) (\<lambda>_.
          returnM (map (\<lambda>r. (cr_handle r, cr_ref r)) rows)))))"

definition close_matching_claims :: "sql_point list \<Rightarrow> (claim_row \<Rightarrow> bool) \<Rightarrow> string \<Rightarrow> pyval \<Rightarrow> nat gs_op" where
  "close_matching_claims flt p reason clock =
     bindM (close_matching_rows flt p reason clock) (\<lambda>rows. returnM (length rows))"

definition close_grant_claims_sql :: "sql_point list \<Rightarrow> string \<Rightarrow> string \<Rightarrow> pyval \<Rightarrow> nat gs_op" where
  "close_grant_claims_sql flt grant = close_matching_claims flt (\<lambda>r. cr_grant r = Some grant)"

definition close_device_claims_sql :: "sql_point list \<Rightarrow> string \<Rightarrow> int option \<Rightarrow> string \<Rightarrow> pyval \<Rightarrow> nat gs_op" where
  "close_device_claims_sql flt device generation = close_matching_claims flt
     (case generation of None \<Rightarrow> (\<lambda>r. cr_device r = device)
      | Some g \<Rightarrow> (\<lambda>r. cr_device r = device \<and> (cr_generation r = None \<or> cr_generation r \<noteq> Some g)))"

definition on_revoked_sql :: "sql_point list \<Rightarrow> string \<Rightarrow> pyval \<Rightarrow> nat gs_op" where
  "on_revoked_sql flt device = close_device_claims_sql flt device None ''endpoint_revoked''"

definition close_profile_claims_sql :: "sql_point list \<Rightarrow> string list \<Rightarrow> string \<Rightarrow> pyval \<Rightarrow> nat gs_op" where
  "close_profile_claims_sql flt ids reason clock =
     (if ids = [] then returnM 0 else close_matching_claims flt (\<lambda>r. cr_profile r \<in> set ids) reason clock)"

definition close_mapping_claims_sql :: "sql_point list \<Rightarrow> string list \<Rightarrow> string \<Rightarrow> pyval \<Rightarrow> nat gs_op" where
  "close_mapping_claims_sql flt ids reason clock =
     (if ids = [] then returnM 0
      else close_matching_claims flt (\<lambda>r. case cr_mapping r of None \<Rightarrow> False | Some m \<Rightarrow> m \<in> set ids) reason clock)"

definition close_paired_room_claims_sql :: "sql_point list \<Rightarrow> int \<Rightarrow> string \<Rightarrow> pyval \<Rightarrow> nat gs_op" where
  "close_paired_room_claims_sql flt revision = close_matching_claims flt
     (\<lambda>r. cr_kind r = ''paired_room'' \<and> cr_revision r \<noteq> revision)"

definition close_all_claims_sql :: "sql_point list \<Rightarrow> string \<Rightarrow> pyval \<Rightarrow> nat gs_op" where
  "close_all_claims_sql flt = close_matching_claims flt (\<lambda>_. True)"

definition close_client_claims :: "sql_point list \<Rightarrow> pyval \<Rightarrow> string list \<Rightarrow> string \<Rightarrow> pyval \<Rightarrow> pyval \<Rightarrow> string list gs_op" where
  "close_client_claims flt device refs reason clock1 clock2 =
     bindM (liftM (sql_identifier device ''device ID'')) (\<lambda>d.
     if refs = [] then returnM []
     else
       bindM (liftM (finite_time clock1)) (\<lambda>now.
       bindM (expire_due_locked flt now) (\<lambda>_.
       bindM (close_matching_rows flt (\<lambda>r. cr_device r = d \<and> cr_kind r = ''client''
           \<and> (case cr_ref r of None \<Rightarrow> False | Some x \<Rightarrow> x \<in> set refs)) reason clock2) (\<lambda>closed.
       returnM (List.map_filter snd closed)))))"

definition close_claim_sql :: "sql_point list \<Rightarrow> string \<Rightarrow> string option \<Rightarrow> string \<Rightarrow> pyval \<Rightarrow> bool gs_op" where
  "close_claim_sql flt h device reason clock =
     bindM (liftM (finite_time clock)) (\<lambda>now.
     bindM (modifyM (\<lambda>s. if reason = ''upstream_lost'' then s\<lparr>gs_failed := insert (h, device) (gs_failed s)\<rparr> else s)) (\<lambda>_.
     bindM (sql_at ReadSql flt ''cannot read Home conversation claim'') (\<lambda>_. readM (\<lambda>s.
     if \<not> list_ex (\<lambda>r. cr_handle r = h \<and> (device = None \<or> device = Some (cr_device r))) (gs_rows s)
     then bindM (modifyM (\<lambda>s. s\<lparr>gs_failed := gs_failed s - {(h, device)}\<rparr>)) (\<lambda>_. returnM False)
     else bindM (close_locked flt h reason now) (\<lambda>_.
          bindM (modifyM (\<lambda>s. s\<lparr>gs_failed := gs_failed s - {(h, device), (h, None)}\<rparr>)) (\<lambda>_.
          returnM True))))))"

definition close_owned_paired_room_claim_sql :: "sql_point list \<Rightarrow> string \<Rightarrow> string \<Rightarrow> string list \<Rightarrow> string list
    \<Rightarrow> pyval \<Rightarrow> bool gs_op" where
  "close_owned_paired_room_claim_sql flt h device rooms mappings clock =
     bindM (sql_at ReadSql flt ''cannot read Home paired-room claim'') (\<lambda>_. readM (\<lambda>s.
     case find (\<lambda>r. cr_handle r = h \<and> cr_device r = device \<and> cr_kind r = ''paired_room'') (gs_rows s) of
       None \<Rightarrow> returnM False
     | Some r \<Rightarrow>
         (case (cr_room r, cr_mapping r) of
            (Some room, Some m) \<Rightarrow>
              if room \<notin> set rooms \<or> m \<notin> set mappings then returnM False
              else bindM (close_matching_rows flt (\<lambda>q. cr_handle q = h \<and> cr_device q = device
                     \<and> cr_kind q = ''paired_room'' \<and> cr_room q = Some room \<and> cr_mapping q = Some m) ''stopped'' clock) (\<lambda>_.
                   returnM True)
          | _ \<Rightarrow> returnM False)))"

end
