(* ===== verification/Grant_Operations.thy ===== *)
theory Grant_Operations
  imports Grant_Store
begin

text \<open>
  The operations of the durable claim store (\<open>bridge/production.py\<close>, \<open>ConversationGrantStore\<close>):
  admitting Room and client claims, Session references and bindings, the activity of a
  claim, revocation handlers and the views of the store.
\<close>

section \<open>Admission\<close>

definition insert_claim :: "sql_point list \<Rightarrow> string \<Rightarrow> claim_row \<Rightarrow> unit gs_op" where
  "insert_claim flt msg row =
     bindM (sql_at WriteSql flt msg) (\<lambda>_. readM (\<lambda>s.
     if list_ex (\<lambda>r. cr_handle r = cr_handle row \<or> cr_claim r = cr_claim row
          \<or> (cr_ref row \<noteq> None \<and> cr_ref r = cr_ref row)) (gs_rows s)
     then raiseM (ClaimConflict ''duplicate_claim'')
     else bindM (modifyM (\<lambda>s. s\<lparr>gs_rows := gs_rows s @ [row]\<rparr>)) (\<lambda>_. sql_at CommitSql flt msg)))"

text \<open>A touch may take over the Room from a conversation in its idle tail.\<close>

definition idle_tail :: "rat \<Rightarrow> claim_row \<Rightarrow> bool" where
  "idle_tail now r \<longleftrightarrow> cr_activity r = ''idle'' \<and> cr_deadline r \<noteq> None \<and> \<not> lapsed_row now r"

definition take_room :: "sql_point list \<Rightarrow> wake_decision \<Rightarrow> rat \<Rightarrow> string option gs_op" where
  "take_room flt d now = readM (\<lambda>s.
     case find (\<lambda>r. cr_room r = Some (dec_room d) \<and> active_row r) (gs_rows s) of
       None \<Rightarrow> returnM None
     | Some r \<Rightarrow>
         if dec_kind d = TouchClaim \<and> idle_tail now r then
           let taken = (\<lambda>q. cr_handle q = cr_handle r \<and> idle_tail now q) in
           bindM (sql_at WriteSql flt ''cannot create Home conversation claim'') (\<lambda>_.
           bindM (checkM (length (active_where taken s) = 1) (ClaimConflict ''room_busy'')) (\<lambda>_.
           bindM (modifyM (close_where taken (\<lambda>_. ''superseded_by_touch'') now)) (\<lambda>_.
           returnM (Some (cr_handle r)))))
         else raiseM (ClaimConflict (if dec_kind d \<noteq> TouchClaim \<or> cr_device r = dec_device d
           then ''conversation_active'' else ''room_busy'')))"

definition room_claim_row :: "wake_decision \<Rightarrow> int option \<Rightarrow> string \<Rightarrow> rat \<Rightarrow> rat \<Rightarrow> claim_row" where
  "room_claim_row d generation h deadline now = \<lparr>cr_handle = h, cr_claim = dec_claim_id d, cr_device = dec_device d,
     cr_room = Some (dec_room d), cr_mapping = Some (dec_mapping d), cr_profile = dec_profile d,
     cr_revision = dec_revision d, cr_generation = generation, cr_session = None, cr_status = ''active'',
     cr_activity = ''ready'', cr_deadline = Some deadline, cr_close_reason = None, cr_created = now, cr_updated = now,
     cr_kind = (if dec_kind d = PairedRoomClaim then ''paired_room'' else ''room''), cr_grant = None, cr_ref = None,
     cr_wall = None, cr_opened = None\<rparr>"

definition positive_generation :: "int option \<Rightarrow> bool" where
  "positive_generation g = (case g of None \<Rightarrow> True | Some n \<Rightarrow> 1 \<le> n)"

definition create_from_decision_sql :: "grant_config \<Rightarrow> sql_point list \<Rightarrow> wake_decision \<Rightarrow> int option \<Rightarrow> string
    \<Rightarrow> pyval \<Rightarrow> string gs_op" where
  "create_from_decision_sql cfg flt d generation h clock =
     bindM (checkM (dec_decision d = Granted) (GrantValueError ''only a granted wake can create a conversation claim'')) (\<lambda>_.
     bindM (checkM (positive_generation generation) (GrantValueError ''credential generation must be a positive integer'')) (\<lambda>_.
     bindM (liftM (finite_time clock)) (\<lambda>now.
     bindM (expire_due_locked flt now) (\<lambda>_.
     bindM (atomically (
       bindM (sql_at ReadSql flt ''cannot create Home conversation claim'') (\<lambda>_.
       bindM (take_room flt d now) (\<lambda>superseded.
       bindM (insert_claim flt ''cannot create Home conversation claim''
                (room_claim_row d generation h (now + gc_first_open cfg) now)) (\<lambda>_.
       returnM superseded)))))
     (\<lambda>superseded.
     bindM (modifyM (case superseded of None \<Rightarrow> id | Some h' \<Rightarrow> drop_handlers [h'] \<circ> forget [h'])) (\<lambda>_.
     bindM (modifyM (schedule_timer h (now + gc_first_open cfg))) (\<lambda>_.
     returnM h)))))))"

definition client_claim_row :: "string \<Rightarrow> string \<Rightarrow> string \<Rightarrow> string \<Rightarrow> int \<Rightarrow> int option \<Rightarrow> string option \<Rightarrow> string
    \<Rightarrow> string \<Rightarrow> rat \<Rightarrow> rat \<Rightarrow> rat \<Rightarrow> claim_row" where
  "client_claim_row claim device grant profile revision generation session h ref deadline now wall =
     \<lparr>cr_handle = h, cr_claim = claim, cr_device = device, cr_room = None, cr_mapping = None, cr_profile = profile,
      cr_revision = revision, cr_generation = generation, cr_session = session, cr_status = ''active'',
      cr_activity = ''ready'', cr_deadline = Some deadline, cr_close_reason = None, cr_created = now, cr_updated = now,
      cr_kind = ''client'', cr_grant = Some grant, cr_ref = Some ref, cr_wall = Some wall, cr_opened = None\<rparr>"

definition client_claims_of :: "grant_store \<Rightarrow> string \<Rightarrow> claim_row list" where
  "client_claims_of s device = active_where (\<lambda>r. cr_device r = device \<and> cr_kind r = ''client'') s"

definition session_bound :: "grant_store \<Rightarrow> string \<Rightarrow> string option \<Rightarrow> bool" where
  "session_bound s session except = list_ex (\<lambda>r. cr_session r = Some session \<and> active_row r
     \<and> except \<noteq> Some (cr_handle r)) (gs_rows s)"

fun optional_session :: "pyval \<Rightarrow> (grant_error, string option) result" where
  "optional_session PNone = Inr None"
| "optional_session v = bindE (sql_identifier v ''Standard Session ID'') (\<lambda>x. Inr (Some x))"

record client_request =
  rq_claim :: pyval
  rq_device :: pyval
  rq_grant :: pyval
  rq_profile :: pyval
  rq_revision :: int
  rq_generation :: "int option"
  rq_session :: pyval

definition admit_client :: "grant_config \<Rightarrow> sql_point list \<Rightarrow> claim_row \<Rightarrow> unit gs_op" where
  "admit_client cfg flt row =
     bindM (sql_at ReadSql flt ''cannot create Home client claim'') (\<lambda>_. readM (\<lambda>s.
     bindM (checkM (int (length (client_claims_of s (cr_device row))) < gc_limit cfg) (ClaimConflict ''claim_limit'')) (\<lambda>_.
     bindM (checkM (case cr_session row of None \<Rightarrow> True | Some x \<Rightarrow> \<not> session_bound s x None) (ClaimConflict ''session_busy'')) (\<lambda>_.
     insert_claim flt ''cannot create Home client claim'' row))))"

definition create_client_claim :: "grant_config \<Rightarrow> sql_point list \<Rightarrow> client_request \<Rightarrow> string \<Rightarrow> string \<Rightarrow> pyval \<Rightarrow> pyval
    \<Rightarrow> (string \<times> string) gs_op" where
  "create_client_claim cfg flt q h ref clock wall_clock =
     bindM (liftM (sql_identifier (rq_claim q) ''claim ID'')) (\<lambda>claim.
     bindM (liftM (sql_identifier (rq_device q) ''device ID'')) (\<lambda>device.
     bindM (liftM (sql_identifier (rq_grant q) ''grant ID'')) (\<lambda>grant.
     bindM (liftM (sql_identifier (rq_profile q) ''Profile ID'')) (\<lambda>profile.
     bindM (checkM (0 \<le> rq_revision q) (GrantValueError ''configuration revision must be a non-negative integer'')) (\<lambda>_.
     bindM (checkM (positive_generation (rq_generation q)) (GrantValueError ''credential generation must be a positive integer'')) (\<lambda>_.
     bindM (liftM (optional_session (rq_session q))) (\<lambda>session.
     bindM (liftM (finite_time clock)) (\<lambda>now.
     bindM (liftM (finite_time wall_clock)) (\<lambda>wall.
     bindM (expire_due_locked flt now) (\<lambda>_.
     bindM (atomically (admit_client cfg flt (client_claim_row claim device grant profile (rq_revision q) (rq_generation q)
              session h ref (now + gc_first_open cfg) now wall))) (\<lambda>_.
     bindM (modifyM (schedule_timer h (now + gc_first_open cfg))) (\<lambda>_.
     returnM (h, ref)))))))))))))"

section \<open>Session references\<close>

definition find_ref :: "grant_store \<Rightarrow> string \<Rightarrow> string \<Rightarrow> ref_row option" where
  "find_ref s grant session = find (\<lambda>r. rf_grant r = grant \<and> rf_session r = session) (gs_refs s)"

definition session_ref :: "sql_point list \<Rightarrow> pyval \<Rightarrow> pyval \<Rightarrow> pyval \<Rightarrow> pyval \<Rightarrow> string gs_op" where
  "session_ref flt grant session fresh clock =
     bindM (liftM (sql_identifier grant ''grant ID'')) (\<lambda>g.
     bindM (liftM (sql_identifier session ''Standard Session ID'')) (\<lambda>x.
     bindM (sql_at ReadSql flt ''cannot record Home session reference'') (\<lambda>_. readM (\<lambda>s.
     case find_ref s g x of
       Some r \<Rightarrow> returnM (rf_ref r)
     | None \<Rightarrow>
         bindM (liftM (sql_identifier fresh ''session reference'')) (\<lambda>ref.
         bindM (liftM (finite_time clock)) (\<lambda>now.
         bindM (checkM (WriteSql \<notin> set flt \<and> \<not> list_ex (\<lambda>r. rf_ref r = ref) (gs_refs s))
                  (GrantOSError ''cannot record Home session reference'')) (\<lambda>_.
         bindM (modifyM (\<lambda>s. s\<lparr>gs_refs := gs_refs s @ [\<lparr>rf_ref = ref, rf_grant = g, rf_session = x, rf_created = now\<rparr>]\<rparr>)) (\<lambda>_.
         returnM ref))))))))"

definition session_for_ref :: "sql_point list \<Rightarrow> pyval \<Rightarrow> pyval \<Rightarrow> string option gs_op" where
  "session_for_ref flt grant ref =
     bindM (liftM (sql_identifier grant ''grant ID'')) (\<lambda>g.
     case ref of
       PStr x \<Rightarrow>
         if \<not> bounded_text_128 x then returnM None
         else bindM (sql_at ReadSql flt ''cannot read Home session reference'') (\<lambda>_. readM (\<lambda>s.
              returnM (map_option rf_session (find (\<lambda>r. rf_grant r = g \<and> rf_ref r = x) (gs_refs s)))))
     | _ \<Rightarrow> returnM None)"

text \<open>The fields of the grant that \<open>persist_session\<close> compares with the row.\<close>

record conversation_grant =
  cg_handle :: string
  cg_device :: string
  cg_profile :: string
  cg_session :: "string option"
  cg_generation :: "int option"
  cg_revision :: int
  cg_choice :: bool
  cg_protected :: "string list"
  cg_capability_revision :: "int option"

fun non_blank :: "pyval \<Rightarrow> string option" where
  "non_blank (PStr s) = (if py_strip s = [] then None else Some s)"
| "non_blank v = None"

definition bind_session :: "conversation_grant \<Rightarrow> string \<Rightarrow> grant_store \<Rightarrow> (grant_error, unit) result" where
  "bind_session g session s = (case row_of s (cg_handle g) of
       None \<Rightarrow> Inl (GrantValueError ''conversation claim binding changed'')
     | Some r \<Rightarrow>
         bindE (checkE (cr_device r = cg_device g \<and> cr_profile r = cg_profile g)
           (GrantValueError ''conversation claim binding changed'')) (\<lambda>_.
         bindE (checkE (cr_generation r = cg_generation g) (GrantValueError ''conversation credential generation changed'')) (\<lambda>_.
         bindE (checkE (active_row r) (GrantValueError ''conversation claim is no longer active'')) (\<lambda>_.
         bindE (checkE (cr_session r = None \<or> cr_session r = Some session) (GrantValueError ''conversation claim Session changed'')) (\<lambda>_.
         checkE (\<not> session_bound s session (Some (cg_handle g)))
           (GrantValueError ''Standard Session is already bound to a claim''))))))"

definition persist_session :: "sql_point list \<Rightarrow> conversation_grant \<Rightarrow> pyval \<Rightarrow> pyval \<Rightarrow> unit gs_op" where
  "persist_session flt g session clock = (case non_blank session of
       None \<Rightarrow> raiseM (GrantValueError ''durable Standard session ID must be non-empty'')
     | Some x \<Rightarrow>
         bindM (sql_at ReadSql flt ''cannot persist Home conversation Session'') (\<lambda>_. readM (\<lambda>s.
         bindM (liftM (bind_session g x s)) (\<lambda>_.
         bindM (liftM (finite_time clock)) (\<lambda>now.
         bindM (sql_at WriteSql flt ''cannot persist Home conversation Session'') (\<lambda>_.
         modifyM (update_where (\<lambda>r. cr_handle r = cg_handle g) (\<lambda>r. r\<lparr>cr_session := Some x, cr_updated := now\<rparr>))))))))"

section \<open>Activity\<close>

text \<open>
  A claim found lapsed on its next use is closed there and its timer cancelled; its
  connection marker and its handlers stay.
\<close>

definition unpark :: "string \<Rightarrow> grant_store \<Rightarrow> grant_store" where
  "unpark h s = s\<lparr>gs_detached := gs_detached s - {h}\<rparr>"

definition lapse :: "sql_point list \<Rightarrow> string \<Rightarrow> string \<Rightarrow> rat \<Rightarrow> unit gs_op" where
  "lapse flt msg h now =
     bindM (sql_at WriteSql flt msg) (\<lambda>_.
     modifyM (\<lambda>s. unpark h (cancel_timer h (close_where (\<lambda>r. cr_handle r = h) (\<lambda>r. expiry_reason (cr_activity r)) now s))))"

abbreviation no_longer_active :: "'a gs_op" where
  "no_longer_active \<equiv> raiseM (GrantValueError ''conversation claim is no longer active'')"

abbreviation has_expired :: "'a gs_op" where
  "has_expired \<equiv> raiseM (GrantValueError ''conversation claim has expired'')"

definition mark_open_sql :: "sql_point list \<Rightarrow> string \<Rightarrow> string \<Rightarrow> pyval \<Rightarrow> pyval \<Rightarrow> unit gs_op" where
  "mark_open_sql flt h device clock wall_clock =
     bindM (liftM (finite_time clock)) (\<lambda>now.
     bindM (sql_at ReadSql flt ''cannot mark Home conversation open'') (\<lambda>_. readM (\<lambda>s.
     case find (\<lambda>r. cr_handle r = h \<and> cr_device r = device) (gs_rows s) of
       None \<Rightarrow> no_longer_active
     | Some r \<Rightarrow>
         if \<not> active_row r then no_longer_active
         else if lapsed_row now r then bindM (lapse flt ''cannot mark Home conversation open'' h now) (\<lambda>_. has_expired)
         else
           bindM (liftM (finite_time wall_clock)) (\<lambda>wall.
           bindM (sql_at WriteSql flt ''cannot mark Home conversation open'') (\<lambda>_.
           bindM (modifyM (update_where (\<lambda>r. cr_handle r = h) (\<lambda>r. r\<lparr>cr_activity := ''open'', cr_deadline := None,
             cr_updated := now, cr_opened := (case cr_opened r of None \<Rightarrow> Some wall | Some t \<Rightarrow> Some t)\<rparr>))) (\<lambda>_.
           modifyM (\<lambda>s. unpark h ((cancel_timer h s)\<lparr>gs_connected := AList.update h now (gs_connected s)\<rparr>))))))))"

definition mark_disconnected_sql :: "grant_config \<Rightarrow> sql_point list \<Rightarrow> string \<Rightarrow> string \<Rightarrow> pyval \<Rightarrow> unit gs_op" where
  "mark_disconnected_sql cfg flt h device clock =
     bindM (liftM (finite_time clock)) (\<lambda>now.
     bindM (sql_at ReadSql flt ''cannot read Home conversation claim'') (\<lambda>_. readM (\<lambda>s.
     case row_of s h of
       None \<Rightarrow> returnM ()
     | Some r \<Rightarrow>
         if cr_device r \<noteq> device then returnM ()
         else bindM (modifyM (\<lambda>s. s\<lparr>gs_connected := AList.delete h (gs_connected s)\<rparr>)) (\<lambda>_.
           if cr_kind r \<noteq> ''client'' \<or> \<not> active_row r \<or> cr_activity r = ''ready'' then returnM ()
           else bindM (sql_at WriteSql flt ''cannot start Home client reconnect grace'') (\<lambda>_.
             modifyM (\<lambda>s. schedule_timer h (now + gc_grace cfg)
               (update_where (\<lambda>r. cr_handle r = h) (\<lambda>r. r\<lparr>cr_activity := ''disconnected'',
                  cr_deadline := Some (now + gc_grace cfg), cr_updated := now\<rparr>) s)))))))"

definition mark_detached :: "sql_point list \<Rightarrow> string \<Rightarrow> unit gs_op" where
  "mark_detached flt h =
     bindM (sql_at ReadSql flt ''cannot read Home conversation claim'') (\<lambda>_.
     modifyM (\<lambda>s. if list_ex (\<lambda>r. cr_handle r = h \<and> cr_kind r = ''client'' \<and> active_row r) (gs_rows s)
       then s\<lparr>gs_detached := insert h (gs_detached s)\<rparr> else s))"

definition clear_detached :: "string \<Rightarrow> unit gs_op" where
  "clear_detached h = modifyM (unpark h)"

definition RECORDED_STATES :: "string list" where
  "RECORDED_STATES = [''capture'', ''turn'', ''playback'', ''response_ready'', ''playback_complete'', ''idle'']"

definition record_activity_sql :: "grant_config \<Rightarrow> sql_point list \<Rightarrow> string \<Rightarrow> string \<Rightarrow> string \<Rightarrow> pyval \<Rightarrow> unit gs_op" where
  "record_activity_sql cfg flt h device state clock =
     bindM (checkM (state \<in> set RECORDED_STATES) (GrantValueError ''conversation activity state is invalid'')) (\<lambda>_.
     bindM (liftM (finite_time clock)) (\<lambda>now.
     bindM (sql_at ReadSql flt ''cannot read Home conversation activity'') (\<lambda>_. readM (\<lambda>s.
     case find (\<lambda>r. cr_handle r = h \<and> cr_device r = device) (gs_rows s) of
       None \<Rightarrow> no_longer_active
     | Some r \<Rightarrow>
         if \<not> active_row r then no_longer_active
         else if lapsed_row now r
           then bindM (lapse flt ''cannot expire Home conversation activity'' h now) (\<lambda>_. has_expired)
         else if state = ''playback_complete'' \<and> cr_activity r \<notin> {''playback'', ''response_ready''}
           then raiseM (GrantValueError ''playback completion was not pending'')
         else
           let pause = (state \<in> {''playback_complete'', ''idle''});
               deadline = (if pause \<and> cr_kind r \<noteq> ''client'' then Some (now + gc_idle cfg) else None);
               activity = (if pause then ''idle'' else state)
           in bindM (sql_at WriteSql flt ''cannot update Home conversation activity'') (\<lambda>_.
              bindM (checkM (length (active_where (\<lambda>q. cr_handle q = h \<and> \<not> lapsed_row now q) s) = 1)
                       (GrantValueError ''conversation claim has expired'')) (\<lambda>_.
              bindM (modifyM (update_where (\<lambda>q. cr_handle q = h \<and> \<not> lapsed_row now q)
                       (\<lambda>q. q\<lparr>cr_activity := activity, cr_deadline := deadline, cr_updated := now\<rparr>))) (\<lambda>_.
              modifyM (\<lambda>s. let t = (case deadline of None \<Rightarrow> cancel_timer h s | Some q \<Rightarrow> schedule_timer h q s) in
                if map_of (gs_connected s) h = None then t
                else t\<lparr>gs_connected := AList.update h now (gs_connected s)\<rparr>))))))))"

section \<open>Revocation handlers and close listeners\<close>

definition register_revocation_handler :: "sql_point list \<Rightarrow> string \<Rightarrow> nat \<Rightarrow> pyval \<Rightarrow> bool gs_op" where
  "register_revocation_handler flt h k clock =
     bindM (liftM (finite_time clock)) (\<lambda>now.
     bindM (sql_at ReadSql flt ''cannot register Home conversation revocation'') (\<lambda>_. readM (\<lambda>s.
     case row_of s h of
       None \<Rightarrow> returnM False
     | Some r \<Rightarrow>
         if \<not> active_row r then returnM False
         else if lapsed_row now r
           then bindM (lapse flt ''cannot register Home conversation revocation'' h now) (\<lambda>_. returnM False)
         else bindM (modifyM (\<lambda>s. s\<lparr>gs_handlers := List.insert (h, k) (gs_handlers s)\<rparr>)) (\<lambda>_. returnM True))))"

definition unregister_revocation_handler :: "string \<Rightarrow> nat \<Rightarrow> unit gs_op" where
  "unregister_revocation_handler h k = modifyM (\<lambda>s. s\<lparr>gs_handlers := filter (\<lambda>x. x \<noteq> (h, k)) (gs_handlers s)\<rparr>)"

definition add_close_listener :: "nat \<Rightarrow> unit gs_op" where
  "add_close_listener l = modifyM (\<lambda>s. s\<lparr>gs_listeners := gs_listeners s @ [l]\<rparr>)"

section \<open>Views\<close>

definition client_claim_binding :: "sql_point list \<Rightarrow> string \<Rightarrow> string \<Rightarrow> (string \<times> string option) option gs_op" where
  "client_claim_binding flt h device =
     bindM (sql_at ReadSql flt ''cannot read Home client claim'') (\<lambda>_. readM (\<lambda>s.
     returnM (case find (\<lambda>r. cr_handle r = h \<and> cr_device r = device \<and> cr_kind r = ''client'' \<and> active_row r) (gs_rows s) of
         None \<Rightarrow> None
       | Some r \<Rightarrow> (case cr_grant r of None \<Rightarrow> None | Some g \<Rightarrow> Some (g, cr_session r)))))"

definition active_session_ids :: "sql_point list \<Rightarrow> pyval \<Rightarrow> string list gs_op" where
  "active_session_ids flt clock =
     bindM (liftM (finite_time clock)) (\<lambda>now.
     bindM (sql_at ReadSql flt ''cannot read Home active sessions'') (\<lambda>_. readM (\<lambda>s.
     returnM (List.map_filter cr_session (active_where (\<lambda>r. \<not> lapsed_row now r) s)))))"

record client_claim_view =
  ccv_ref :: string
  ccv_grant :: "string option"
  ccv_profile :: string
  ccv_session :: "string option"
  ccv_created :: "rat option"
  ccv_opened :: "rat option"
  ccv_state :: string

definition client_claim_state :: "string \<Rightarrow> bool \<Rightarrow> string" where
  "client_claim_state activity detached =
     (if detached \<or> activity = ''disconnected'' then ''waiting_to_reconnect''
      else if activity = ''ready'' then ''connecting''
      else if activity \<in> {''turn'', ''capture'', ''playback''} then ''replying'' else ''idle'')"

definition claim_view :: "grant_store \<Rightarrow> claim_row \<Rightarrow> client_claim_view option" where
  "claim_view s r = (case cr_ref r of None \<Rightarrow> None | Some x \<Rightarrow> Some \<lparr>ccv_ref = x, ccv_grant = cr_grant r,
     ccv_profile = cr_profile r, ccv_session = cr_session r, ccv_created = cr_wall r, ccv_opened = cr_opened r,
     ccv_state = client_claim_state (cr_activity r) (cr_handle r \<in> gs_detached s)\<rparr>)"

definition newest_first :: "client_claim_view \<Rightarrow> rat" where
  "newest_first v = - (case ccv_created v of None \<Rightarrow> 0 | Some t \<Rightarrow> t)"

definition client_claims :: "sql_point list \<Rightarrow> pyval \<Rightarrow> pyval \<Rightarrow> client_claim_view list gs_op" where
  "client_claims flt device clock =
     bindM (liftM (sql_identifier device ''device ID'')) (\<lambda>d.
     bindM (liftM (finite_time clock)) (\<lambda>now.
     bindM (expire_due_locked flt now) (\<lambda>_.
     bindM (sql_at ReadSql flt ''cannot read Home client claims'') (\<lambda>_. readM (\<lambda>s.
     returnM (sort_key newest_first (List.map_filter (claim_view s) (client_claims_of s d))))))))"

definition live_rows :: "grant_store \<Rightarrow> string \<Rightarrow> rat \<Rightarrow> claim_row list" where
  "live_rows s device now = active_where (\<lambda>r. cr_device r = device \<and> \<not> lapsed_row now r) s"

definition row_view :: "grant_config \<Rightarrow> string \<Rightarrow> claim_row \<Rightarrow> watch_view" where
  "row_view cfg device r = \<lparr>ws_device = device, ws_profile = cr_profile r, ws_revision = cr_revision r,
     ws_generation = cr_generation r, ws_activity = cr_activity r,
     ws_route = obj [(''class'', PStr ''home''), (''id'', PStr (gc_route cfg))], ws_health = ''ready'',
     ws_session = (case cr_session r of None \<Rightarrow> False | Some x \<Rightarrow> x \<noteq> [])\<rparr>"

definition watch_snapshot_sql :: "grant_config \<Rightarrow> sql_point list \<Rightarrow> string \<Rightarrow> int \<Rightarrow> pyval \<Rightarrow> watch_view option gs_op" where
  "watch_snapshot_sql cfg flt device revision clock =
     bindM (liftM (finite_time clock)) (\<lambda>now.
     bindM (sql_at ReadSql flt ''cannot read Home Watch state'') (\<lambda>_. readM (\<lambda>s.
     case live_rows s device now of
       [r] \<Rightarrow>
         if cr_revision r \<noteq> revision \<or> map_of (gs_connected s) (cr_handle r) = None
            \<or> cr_activity r \<notin> set WATCH_ACTIVITY_STATES then returnM None
         else (case make_watch_view (row_view cfg device r) of
             Inl e \<Rightarrow> raiseM (GrantWatch e) | Inr w \<Rightarrow> returnM (Some w))
     | _ \<Rightarrow> returnM None)))"

definition delivery_state_sql :: "sql_point list \<Rightarrow> string \<Rightarrow> pyval \<Rightarrow> health_delivery gs_op" where
  "delivery_state_sql flt device clock =
     bindM (liftM (finite_time clock)) (\<lambda>now.
     bindM (sql_at ReadSql flt ''cannot read Home delivery state'') (\<lambda>_. readM (\<lambda>s.
     case (case live_rows s device now of
         [] \<Rightarrow> make_delivery (PStr ''idle'') PNone PNone
       | [r] \<Rightarrow>
           if cr_activity r \<notin> set HEALTH_ACTIVITIES then delivery_unavailable
           else make_delivery (PStr ''active'') (PStr (cr_activity r)) PNone
       | _ \<Rightarrow> delivery_unavailable) of
       Inl e \<Rightarrow> raiseM (GrantHealth e)
     | Inr d \<Rightarrow> returnM d)))"

section \<open>Resolving a handle\<close>

text \<open>
  What \<open>resolve\<close> asks outside the store: the validated configuration, the paired-room
  checker, the client grant checker, the scope and the projected revision of a Device's
  credential. \<open>None\<close> for a port is one that is not attached; an answer \<open>None\<close> is one of the
  exceptions the caller turns into a denial.
\<close>

record authority_ports =
  ap_snapshot :: "(store_error, snapshot) result"
  ap_paired :: "(string \<Rightarrow> int option \<Rightarrow> int \<Rightarrow> string option \<Rightarrow> bool option) option"
  ap_grant :: "(string \<Rightarrow> string option \<Rightarrow> bool option) option"
  ap_scope :: "(string \<Rightarrow> int \<Rightarrow> cred_scope option option) option"
  ap_revision :: "(string \<Rightarrow> int \<Rightarrow> int option option) option"

definition client_interactive_choice :: "authority_ports \<Rightarrow> snapshot \<Rightarrow> string \<Rightarrow> int \<Rightarrow> bool" where
  "client_interactive_choice P snap device revision = (case ap_revision P of
       None \<Rightarrow> False
     | Some resolver \<Rightarrow>
         list_ex (\<lambda>c. client_id c = device \<and> client_choice c) (cfg_clients (snap_config snap))
         \<and> resolver device (snap_revision snap) = Some (Some revision))"

definition protected_for :: "device option \<Rightarrow> cred_scope \<Rightarrow> string list" where
  "protected_for dev scope = (case dev of
       None \<Rightarrow> []
     | Some d \<Rightarrow> filter (\<lambda>c. c \<in> set (scope_capabilities scope))
         ((if sensitive_entry (device_caps d) then [''sensitive_entry''] else [])
          @ (if consequence_confirm (device_caps d) then [''consequence_confirm''] else [])))"

text \<open>The protected capabilities and the revision they are stated for; \<open>None\<close> when the resolver raises.\<close>

definition protected_authority :: "authority_ports \<Rightarrow> snapshot \<Rightarrow> string \<Rightarrow> int option \<Rightarrow> (string list \<times> int option) option" where
  "protected_authority P snap device generation = (case (ap_scope P, generation) of
       (Some resolver, Some g) \<Rightarrow> (case resolver device g of
           None \<Rightarrow> None
         | Some None \<Rightarrow> Some ([], None)
         | Some (Some scope) \<Rightarrow>
             Some (protected_for (index_by device_id (cfg_devices (snap_config snap)) device) scope, Some (snap_revision snap)))
     | _ \<Rightarrow> Some ([], None))"

definition choice_allowed :: "authority_ports \<Rightarrow> snapshot \<Rightarrow> claim_row \<Rightarrow> bool" where
  "choice_allowed P snap r = (if cr_kind r = ''client'' then client_interactive_choice P snap (cr_device r) (cr_revision r)
     else snap_revision snap = cr_revision r
       \<and> (case index_by device_id (cfg_devices (snap_config snap)) (cr_device r) of
            None \<Rightarrow> False | Some d \<Rightarrow> interactive_choice (device_caps d)))"

definition grant_of_row :: "authority_ports \<Rightarrow> snapshot \<Rightarrow> claim_row \<Rightarrow> string list \<times> int option \<Rightarrow> conversation_grant" where
  "grant_of_row P snap r protected = \<lparr>cg_handle = cr_handle r, cg_device = cr_device r, cg_profile = cr_profile r,
     cg_session = cr_session r, cg_generation = cr_generation r, cg_revision = cr_revision r,
     cg_choice = choice_allowed P snap r, cg_protected = fst protected, cg_capability_revision = snd protected\<rparr>"

definition inactive_mapping :: "snapshot \<Rightarrow> string option \<Rightarrow> bool" where
  "inactive_mapping snap mapping = (case mapping of None \<Rightarrow> False
     | Some m \<Rightarrow> (case index_by mapping_id (cfg_mappings (snap_config snap)) m of
         None \<Rightarrow> False | Some e \<Rightarrow> \<not> mapping_active e))"

definition usable_profile :: "snapshot \<Rightarrow> string \<Rightarrow> bool" where
  "usable_profile snap pid = (case index_by profile_id (cfg_profiles (snap_config snap)) pid of
     None \<Rightarrow> False | Some p \<Rightarrow> profile_available p)"

definition deny_paired :: "string \<Rightarrow> 'a option gs_op" where
  "deny_paired h = bindM (modifyM (\<lambda>s. s\<lparr>gs_denied := insert h (gs_denied s)\<rparr>)) (\<lambda>_. returnM None)"

definition resolve_configured :: "sql_point list \<Rightarrow> authority_ports \<Rightarrow> claim_row \<Rightarrow> rat \<Rightarrow> conversation_grant option gs_op" where
  "resolve_configured flt P r now =
     (let closed = (\<lambda>reason. bindM (close_locked flt (cr_handle r) reason now) (\<lambda>_. returnM None)) in
      case ap_snapshot P of
        Inl (ConfigurationMigrationRequired n) \<Rightarrow> closed ''configuration_migration''
      | Inl ConfigurationStoreError \<Rightarrow> raiseM (GrantOSError ''cannot verify Home conversation authority'')
      | Inl e \<Rightarrow> returnM None
      | Inr snap \<Rightarrow>
          if cr_kind r = ''paired_room'' \<and> snap_revision snap \<noteq> cr_revision r then deny_paired (cr_handle r)
          else if \<not> usable_profile snap (cr_profile r) then closed ''profile_revoked''
          else (case protected_authority P snap (cr_device r) (cr_generation r) of
              None \<Rightarrow> returnM None
            | Some protected \<Rightarrow>
                if inactive_mapping snap (cr_mapping r) then closed ''mapping_revoked''
                else returnM (Some (grant_of_row P snap r protected))))"

definition paired_authorized :: "authority_ports \<Rightarrow> claim_row \<Rightarrow> bool" where
  "paired_authorized P r \<longleftrightarrow> (case ap_paired P of None \<Rightarrow> False
     | Some checker \<Rightarrow> checker (cr_device r) (cr_generation r) (cr_revision r) (cr_mapping r) = Some True)"

definition client_authority :: "authority_ports \<Rightarrow> claim_row \<Rightarrow> bool option" where
  "client_authority P r = (if cr_kind r \<noteq> ''client'' then Some True
     else case ap_grant P of None \<Rightarrow> Some True | Some checker \<Rightarrow> checker (cr_device r) (cr_grant r))"

definition resolve_row :: "sql_point list \<Rightarrow> authority_ports \<Rightarrow> claim_row \<Rightarrow> rat \<Rightarrow> conversation_grant option gs_op" where
  "resolve_row flt P r now =
     (if lapsed_row now r
        then bindM (close_locked flt (cr_handle r) (expiry_reason (cr_activity r)) now) (\<lambda>_. returnM None)
      else if cr_kind r = ''paired_room'' \<and> \<not> paired_authorized P r then deny_paired (cr_handle r)
      else (case client_authority P r of
          None \<Rightarrow> returnM None
        | Some False \<Rightarrow> bindM (close_locked flt (cr_handle r) ''grant_revoked'' now) (\<lambda>_. returnM None)
        | Some True \<Rightarrow> resolve_configured flt P r now))"

text \<open>Retrying a retirement that failed swallows its \<open>OSError\<close>.\<close>

definition retry_retirement :: "sql_point list \<Rightarrow> string \<Rightarrow> string \<Rightarrow> pyval \<Rightarrow> 'a option gs_op" where
  "retry_retirement flt h device clock = (\<lambda>s. case close_claim_sql flt h (Some device) ''upstream_lost'' clock s of
       (Inl (GrantOSError m), t) \<Rightarrow> (Inr None, t)
     | (Inl e, t) \<Rightarrow> (Inl e, t)
     | (Inr b, t) \<Rightarrow> (Inr None, t))"

definition resolve_grant :: "sql_point list \<Rightarrow> authority_ports \<Rightarrow> string \<Rightarrow> string \<Rightarrow> pyval \<Rightarrow> conversation_grant option gs_op" where
  "resolve_grant flt P h device clock = readM (\<lambda>s.
     if h \<in> gs_denied s then returnM None
     else if (h, Some device) \<in> gs_failed s \<or> (h, None) \<in> gs_failed s then retry_retirement flt h device clock
     else bindM (sql_at ReadSql flt ''cannot read Home conversation claim'') (\<lambda>_.
       case row_of s h of
         None \<Rightarrow> returnM None
       | Some r \<Rightarrow>
           if cr_device r \<noteq> device \<or> \<not> active_row r then returnM None
           else bindM (liftM (finite_time clock)) (\<lambda>now. resolve_row flt P r now)))"

definition resolve :: "sql_point list \<Rightarrow> authority_ports \<Rightarrow> string \<Rightarrow> string \<Rightarrow> pyval \<Rightarrow> pyval \<Rightarrow> conversation_grant option gs_op" where
  "resolve flt P h device clock1 clock2 =
     bindM (resolve_grant flt P h device clock1) (\<lambda>grant. readM (\<lambda>s.
     if grant = None \<and> h \<in> gs_denied s
     then bindM (close_matching_rows flt (\<lambda>r. cr_handle r = h \<and> cr_device r = device \<and> cr_kind r = ''paired_room'')
            ''paired_room_revoked'' clock2) (\<lambda>_. returnM None)
     else returnM grant))"

end
