(* ===== verification/Grant_Store_Invariant.thy ===== *)
theory Grant_Store_Invariant
  imports Grant_Operations
begin

text \<open>
  How the durable claims change: an operation is a sequence of four kinds of change, and
  each keeps the invariant of the tables. Rows keep their identity, bind one Session at
  most once and never change after they are closed.
\<close>

section \<open>Changes of one row\<close>

definition claim_identity :: "claim_row \<Rightarrow> (string \<times> string \<times> string \<times> string option \<times> string option \<times> string)
    \<times> (int \<times> int option \<times> rat \<times> string \<times> string option \<times> string option \<times> rat option)" where
  "claim_identity r = ((cr_handle r, cr_claim r, cr_device r, cr_room r, cr_mapping r, cr_profile r),
     (cr_revision r, cr_generation r, cr_created r, cr_kind r, cr_grant r, cr_ref r, cr_wall r))"

lemma identity_fields:
  assumes "claim_identity r' = claim_identity r"
  shows "cr_handle r' = cr_handle r" "cr_claim r' = cr_claim r" "cr_device r' = cr_device r" "cr_room r' = cr_room r"
    "cr_profile r' = cr_profile r" "cr_revision r' = cr_revision r" "cr_generation r' = cr_generation r"
    "cr_kind r' = cr_kind r" "cr_ref r' = cr_ref r" "cr_grant r' = cr_grant r" "cr_mapping r' = cr_mapping r"
  using assms by (simp_all add: claim_identity_def)

definition GRANT_ACTIVITIES :: "string list" where
  "GRANT_ACTIVITIES = [''ready'', ''open'', ''capture'', ''turn'', ''playback'', ''response_ready'', ''idle'', ''disconnected'']"

text \<open>
  An active claim waits under a deadline before it first opens, in the idle tail of a Room
  conversation and while a client is away, and only then; a closed one says why.
\<close>

definition waits :: "claim_row \<Rightarrow> bool" where
  "waits r \<longleftrightarrow> cr_activity r \<in> {''ready'', ''disconnected''} \<or> (cr_activity r = ''idle'' \<and> cr_kind r \<noteq> ''client'')"

definition row_ok :: "claim_row \<Rightarrow> bool" where
  "row_ok r \<longleftrightarrow> cr_kind r \<in> {''room'', ''paired_room'', ''client''} \<and> (cr_room r = None \<longleftrightarrow> cr_kind r = ''client'')
     \<and> (if active_row r
        then cr_activity r \<in> set GRANT_ACTIVITIES \<and> cr_close_reason r = None \<and> (cr_deadline r \<noteq> None \<longleftrightarrow> waits r)
        else cr_status r = ''closed'' \<and> cr_activity r = ''closed'' \<and> cr_deadline r = None \<and> cr_close_reason r \<noteq> None)"

definition row_step :: "claim_row \<Rightarrow> claim_row \<Rightarrow> bool" where
  "row_step r r' \<longleftrightarrow> claim_identity r' = claim_identity r \<and> cr_session r' = cr_session r \<and> (\<not> active_row r \<longrightarrow> r' = r)
     \<and> (row_ok r \<longrightarrow> row_ok r')"

lemma row_step_refl [simp, intro]: "row_step r r"
  by (simp add: row_step_def)

lemma row_step_session: "row_step r r' \<Longrightarrow> cr_session r' = cr_session r \<and> (active_row r' \<longrightarrow> active_row r)"
  unfolding row_step_def by metis

lemma close_row_step: "active_row r \<Longrightarrow> row_step r (close_row reason now r)"
  by (auto simp: row_step_def close_row_def claim_identity_def row_ok_def active_row_def)

lemma restart_row_step: "row_step r (restart_row r)"
  by (auto simp: row_step_def restart_row_def claim_identity_def row_ok_def active_row_def)

lemma open_row_step: "active_row r \<Longrightarrow>
  row_step r (r\<lparr>cr_activity := ''open'', cr_deadline := None, cr_updated := now, cr_opened := w\<rparr>)"
  by (auto simp: row_step_def claim_identity_def row_ok_def active_row_def waits_def GRANT_ACTIVITIES_def)

lemma away_row_step: "active_row r \<Longrightarrow>
  row_step r (r\<lparr>cr_activity := ''disconnected'', cr_deadline := Some t, cr_updated := now\<rparr>)"
  by (auto simp: row_step_def claim_identity_def row_ok_def active_row_def waits_def GRANT_ACTIVITIES_def)

lemma record_row_step:
  assumes "active_row r" and "state \<in> set RECORDED_STATES"
  defines "pause \<equiv> state \<in> {''playback_complete'', ''idle''}"
  shows "row_step r (r\<lparr>cr_activity := if pause then ''idle'' else state,
    cr_deadline := if pause \<and> cr_kind r \<noteq> ''client'' then Some t else None, cr_updated := now\<rparr>)"
  using assms
  by (auto simp: row_step_def claim_identity_def row_ok_def active_row_def waits_def GRANT_ACTIVITIES_def RECORDED_STATES_def)

section \<open>Changes of the tables\<close>

text \<open>What a new row must respect: fresh keys, a free Room, a free Session, the client limit.\<close>

definition admissible_row :: "grant_config \<Rightarrow> grant_store \<Rightarrow> claim_row \<Rightarrow> bool" where
  "admissible_row cfg s row \<longleftrightarrow> row_ok row \<and> active_row row
     \<and> (\<forall>r \<in> set (gs_rows s). cr_handle r \<noteq> cr_handle row \<and> cr_claim r \<noteq> cr_claim row
          \<and> (cr_ref row \<noteq> None \<longrightarrow> cr_ref r \<noteq> cr_ref row)
          \<and> (active_row r \<and> cr_room row \<noteq> None \<longrightarrow> cr_room r \<noteq> cr_room row)
          \<and> (active_row r \<and> cr_session row \<noteq> None \<longrightarrow> cr_session r \<noteq> cr_session row))
     \<and> (cr_kind row = ''client'' \<longrightarrow> int (length (client_claims_of s (cr_device row))) < gc_limit cfg)"

text \<open>A denial is kept, or its claim has been closed (by a restart, which forgets denials).\<close>

definition keeps_denials :: "grant_store \<Rightarrow> grant_store \<Rightarrow> bool" where
  "keeps_denials s t \<longleftrightarrow> (\<forall>h \<in> gs_denied s. h \<in> gs_denied t \<or> (\<forall>r \<in> set (gs_rows t). cr_handle r = h \<longrightarrow> \<not> active_row r))"

inductive claim_change :: "grant_config \<Rightarrow> grant_store \<Rightarrow> grant_store \<Rightarrow> bool" for cfg :: grant_config where
  Quiet: "gs_rows t = map f (gs_rows s) \<Longrightarrow> (\<And>r. r \<in> set (gs_rows s) \<Longrightarrow> row_step r (f r)) \<Longrightarrow>
    gs_refs t = gs_refs s \<Longrightarrow> keeps_denials s t \<Longrightarrow> claim_change cfg s t"
| Bound: "gs_rows t = map (\<lambda>r. if active_row r \<and> cr_handle r = h then r\<lparr>cr_session := Some x, cr_updated := now\<rparr> else r) (gs_rows s) \<Longrightarrow>
    (\<And>r. r \<in> set (gs_rows s) \<Longrightarrow> active_row r \<Longrightarrow> cr_handle r = h \<Longrightarrow> cr_session r = None \<or> cr_session r = Some x) \<Longrightarrow>
    \<not> session_bound s x (Some h) \<Longrightarrow> gs_refs t = gs_refs s \<Longrightarrow> gs_denied t = gs_denied s \<Longrightarrow> claim_change cfg s t"
| Admitted: "gs_rows t = gs_rows s @ [row] \<Longrightarrow> admissible_row cfg s row \<Longrightarrow> gs_refs t = gs_refs s \<Longrightarrow>
    gs_denied t = gs_denied s \<Longrightarrow> claim_change cfg s t"
| Referenced: "gs_rows t = gs_rows s \<Longrightarrow> gs_refs t = gs_refs s @ [x] \<Longrightarrow>
    (\<And>r. r \<in> set (gs_refs s) \<Longrightarrow> rf_ref r \<noteq> rf_ref x \<and> (rf_grant r \<noteq> rf_grant x \<or> rf_session r \<noteq> rf_session x)) \<Longrightarrow>
    bounded_text_128 (rf_ref x) \<Longrightarrow> gs_denied t = gs_denied s \<Longrightarrow> claim_change cfg s t"

definition moves :: "grant_config \<Rightarrow> grant_store \<Rightarrow> grant_store \<Rightarrow> bool" where
  "moves cfg = rtranclp (claim_change cfg)"

lemma moves_refl [simp, intro]: "moves cfg s s"
  by (simp add: moves_def)

lemma moves_trans: "moves cfg s t \<Longrightarrow> moves cfg t u \<Longrightarrow> moves cfg s u"
  unfolding moves_def by (rule rtranclp_trans)

lemma moves_change: "claim_change cfg s t \<Longrightarrow> moves cfg s t"
  by (simp add: moves_def)

lemma moves_memory: "gs_rows t = gs_rows s \<Longrightarrow> gs_refs t = gs_refs s \<Longrightarrow> gs_denied s \<subseteq> gs_denied t \<Longrightarrow> moves cfg s t"
  by (rule moves_change [OF claim_change.Quiet [where f = id]]) (auto simp: keeps_denials_def)

lemma moves_update:
  assumes "gs_rows t = gs_rows (update_where p f s)" and "gs_refs t = gs_refs s" and "gs_denied t = gs_denied s"
    and "\<And>r. r \<in> set (gs_rows s) \<Longrightarrow> active_row r \<Longrightarrow> p r \<Longrightarrow> row_step r (f r)"
  shows "moves cfg s t"
  by (rule moves_change [OF claim_change.Quiet [where f = "\<lambda>r. if active_row r \<and> p r then f r else r"]])
    (use assms in \<open>auto simp: update_where_def keeps_denials_def\<close>)

section \<open>Operations are sequences of changes\<close>

lemma memory_simps [simp]:
  "gs_rows (cancel_timer h s) = gs_rows s" "gs_refs (cancel_timer h s) = gs_refs s"
  "gs_rows (schedule_timer h q s) = gs_rows s" "gs_refs (schedule_timer h q s) = gs_refs s"
  "gs_rows (forget hs s) = gs_rows s" "gs_refs (forget hs s) = gs_refs s"
  "gs_rows (drop_handlers hs s) = gs_rows s" "gs_refs (drop_handlers hs s) = gs_refs s"
  "gs_rows (unpark h s) = gs_rows s" "gs_refs (unpark h s) = gs_refs s"
  "gs_refs (update_where p f s) = gs_refs s" "gs_refs (close_where p rs now s) = gs_refs s"
  "gs_denied (cancel_timer h s) = gs_denied s" "gs_denied (schedule_timer h q s) = gs_denied s"
  "gs_denied (forget hs s) = gs_denied s" "gs_denied (drop_handlers hs s) = gs_denied s"
  "gs_denied (unpark h s) = gs_denied s" "gs_denied (update_where p f s) = gs_denied s"
  "gs_denied (close_where p rs now s) = gs_denied s"
  by (simp_all add: cancel_timer_def schedule_timer_def forget_def drop_handlers_def unpark_def update_where_def close_where_def)

lemma moves_close:
  assumes "gs_rows t = gs_rows (close_where p rs now s)" and "gs_refs t = gs_refs s" and "gs_denied t = gs_denied s"
  shows "moves cfg s t"
  by (rule moves_update [where p = p and f = "\<lambda>r. close_row (rs r) now r"])
    (use assms in \<open>auto simp: close_where_def close_row_step\<close>)

text \<open>\<open>runs R m s\<close>: the state \<open>m\<close> leaves from \<open>s\<close> is related to \<open>s\<close>.\<close>

definition runs :: "grant_config \<Rightarrow> 'a gs_op \<Rightarrow> grant_store \<Rightarrow> bool" where
  "runs cfg m s \<longleftrightarrow> moves cfg s (snd (m s))"

named_theorems runs_intros

lemma runs_lift [runs_intros]: "runs cfg (liftM r) s"
  by (simp add: runs_def liftM_def)

lemma runs_sql [runs_intros]: "runs cfg (sql_at p flt msg) s"
  by (simp add: sql_at_def runs_lift)

lemma runs_bind [runs_intros]:
  assumes "runs cfg m s" and "\<And>x t. m s = (Inr x, t) \<Longrightarrow> runs cfg (f x) t"
  shows "runs cfg (bindM m f) s"
proof (cases "m s")
  case (Pair r t)
  with assms show ?thesis
    by (cases r) (auto simp: runs_def bindM_def intro: moves_trans)
qed

lemma runs_read [runs_intros]: "runs cfg (f s) s \<Longrightarrow> runs cfg (readM f) s"
  by (simp add: runs_def readM_def)

lemma runs_modify: "moves cfg s (g s) \<Longrightarrow> runs cfg (modifyM g) s"
  by (simp add: runs_def modifyM_def)

lemma runs_memory [runs_intros]: "(\<And>s. gs_rows (g s) = gs_rows s) \<Longrightarrow> (\<And>s. gs_refs (g s) = gs_refs s) \<Longrightarrow>
  (\<And>s. gs_denied s \<subseteq> gs_denied (g s)) \<Longrightarrow> runs cfg (modifyM g) s"
  by (rule runs_modify [OF moves_memory]) auto

lemma runs_if [runs_intros]: "(b \<Longrightarrow> runs cfg m s) \<Longrightarrow> (\<not> b \<Longrightarrow> runs cfg n s) \<Longrightarrow> runs cfg (if b then m else n) s"
  by simp

lemma runs_atomically [runs_intros]: "runs cfg m s \<Longrightarrow> runs cfg (atomically m) s"
  by (auto simp: runs_def atomically_def split: prod.splits sum.splits)

lemma runs_option [runs_intros]:
  "(x = None \<Longrightarrow> runs cfg m s) \<Longrightarrow> (\<And>y. x = Some y \<Longrightarrow> runs cfg (f y) s) \<Longrightarrow>
     runs cfg (case x of None \<Rightarrow> m | Some y \<Rightarrow> f y) s"
  by (cases x) auto

lemma check_ok: "checkM b e s = (Inr u, t) \<longleftrightarrow> b \<and> t = s"
  by (auto simp: liftM_def checkE_def)

lemma sql_ok: "sql_at p flt msg s = (Inr u, t) \<longleftrightarrow> p \<notin> set flt \<and> t = s"
  by (auto simp: sql_at_def check_ok)

lemma lift_ok: "liftM r s = (Inr x, t) \<longleftrightarrow> r = Inr x \<and> t = s"
  by (auto simp: liftM_def)

lemma runs_expire_due: "runs cfg (expire_due_locked flt now) s"
  unfolding expire_due_locked_def by (intro runs_bind runs_sql runs_modify moves_close) simp_all

lemma runs_close_locked: "runs cfg (close_locked flt h reason now) s"
  unfolding close_locked_def by (intro runs_bind runs_sql runs_modify moves_close) simp_all

lemma runs_expire_timer: "runs cfg (expire_timer flt h q clk) s"
  unfolding expire_timer_def by (intro runs_bind runs_lift runs_if runs_modify moves_close) simp_all

lemma runs_matching: "runs cfg (close_matching_rows flt p reason clk) s"
  unfolding close_matching_rows_def Let_def
  by (intro runs_bind runs_lift runs_sql runs_read runs_if runs_modify moves_close) simp_all

lemma runs_matching_claims: "runs cfg (close_matching_claims flt p reason clk) s"
  unfolding close_matching_claims_def by (intro runs_bind runs_matching runs_lift)

lemma runs_client_close: "runs cfg (close_client_claims flt d refs reason c1 c2) s"
  unfolding close_client_claims_def by (intro runs_bind runs_lift runs_if runs_expire_due runs_matching)

lemma runs_close_claim: "runs cfg (close_claim_sql flt h d reason clk) s"
  unfolding close_claim_sql_def
  by (intro runs_bind runs_lift runs_sql runs_read runs_if runs_close_locked runs_memory) auto

lemma runs_close_owned: "runs cfg (close_owned_paired_room_claim_sql flt h d rooms mappings clk) s"
  unfolding close_owned_paired_room_claim_sql_def
  by (auto split: option.splits intro!: runs_bind runs_lift runs_sql runs_read runs_matching)

section \<open>Admission\<close>

lemma runs_insert:
  assumes "\<And>t. \<not> list_ex (\<lambda>r. cr_handle r = cr_handle row \<or> cr_claim r = cr_claim row
      \<or> (cr_ref row \<noteq> None \<and> cr_ref r = cr_ref row)) (gs_rows s) \<Longrightarrow> admissible_row cfg s row"
  shows "runs cfg (insert_claim flt msg row) s"
  unfolding insert_claim_def
proof (intro runs_bind runs_sql runs_read runs_if runs_lift runs_modify)
  fix x t
  assume "sql_at WriteSql flt msg s = (Inr x, t)"
    and fresh: "\<not> list_ex (\<lambda>r. cr_handle r = cr_handle row \<or> cr_claim r = cr_claim row
      \<or> (cr_ref row \<noteq> None \<and> cr_ref r = cr_ref row)) (gs_rows t)"
  then have "t = s" by (simp add: sql_ok)
  with fresh assms have "admissible_row cfg t row" by simp
  then show "moves cfg t (t\<lparr>gs_rows := gs_rows t @ [row]\<rparr>)"
    by (intro moves_change claim_change.Admitted) auto
qed

text \<open>The tables' invariant; two rows of one handle are one row.\<close>

definition refs_distinct :: "claim_row list \<Rightarrow> bool" where
  "refs_distinct rows \<longleftrightarrow> (\<forall>r \<in> set rows. \<forall>q \<in> set rows. cr_ref r \<noteq> None \<and> cr_ref r = cr_ref q \<longrightarrow> r = q)"

definition exclusive :: "(claim_row \<Rightarrow> string option) \<Rightarrow> claim_row list \<Rightarrow> bool" where
  "exclusive sel rows \<longleftrightarrow> (\<forall>r \<in> set rows. \<forall>q \<in> set rows.
     active_row r \<and> active_row q \<and> sel r \<noteq> None \<and> sel r = sel q \<longrightarrow> r = q)"

lemma exclusiveD: "exclusive sel rows \<Longrightarrow> r \<in> set rows \<Longrightarrow> q \<in> set rows \<Longrightarrow> active_row r \<Longrightarrow> active_row q \<Longrightarrow>
  sel r \<noteq> None \<Longrightarrow> sel r = sel q \<Longrightarrow> r = q"
  unfolding exclusive_def by blast

lemma exclusive_map:
  assumes "exclusive sel rows" and f: "\<And>r. r \<in> set rows \<Longrightarrow> sel (f r) = sel r \<and> (active_row (f r) \<longrightarrow> active_row r)"
  shows "exclusive sel (map f rows)"
  unfolding exclusive_def
proof (intro ballI impI)
  fix a b
  assume "a \<in> set (map f rows)" and "b \<in> set (map f rows)"
    and same: "active_row a \<and> active_row b \<and> sel a \<noteq> None \<and> sel a = sel b"
  then obtain r q where r: "r \<in> set rows" "a = f r" and q: "q \<in> set rows" "b = f q" by auto
  have "active_row r" "active_row q" "sel r \<noteq> None" "sel r = sel q"
    using same f [OF r(1)] f [OF q(1)] r(2) q(2) by metis+
  then have "r = q" by (rule exclusiveD [OF assms(1) r(1) q(1)])
  with r q show "a = b" by simp
qed

lemma exclusive_append:
  assumes "exclusive sel rows" and "\<And>r. r \<in> set rows \<Longrightarrow> active_row r \<Longrightarrow> sel row \<noteq> None \<Longrightarrow> sel r \<noteq> sel row"
  shows "exclusive sel (rows @ [row])"
  unfolding exclusive_def
proof (intro ballI impI)
  fix a b
  assume a: "a \<in> set (rows @ [row])" and b: "b \<in> set (rows @ [row])"
    and same: "active_row a \<and> active_row b \<and> sel a \<noteq> None \<and> sel a = sel b"
  from a b consider "a \<in> set rows" "b \<in> set rows" | "a = row" "b = row"
    | "a \<in> set rows" "b = row" | "a = row" "b \<in> set rows" by auto
  then show "a = b"
  proof cases
    case 1
    then show ?thesis using same exclusiveD [OF assms(1)] by blast
  next
    case 3
    then show ?thesis using same assms(2) [of a] by metis
  next
    case 4
    then show ?thesis using same assms(2) [of b] by metis
  qed simp
qed

abbreviation rooms_exclusive :: "claim_row list \<Rightarrow> bool" where
  "rooms_exclusive \<equiv> exclusive cr_room"

abbreviation sessions_exclusive :: "claim_row list \<Rightarrow> bool" where
  "sessions_exclusive \<equiv> exclusive cr_session"

definition grant_inv :: "grant_config \<Rightarrow> grant_store \<Rightarrow> bool" where
  "grant_inv cfg s \<longleftrightarrow> distinct (map cr_handle (gs_rows s)) \<and> distinct (map cr_claim (gs_rows s))
     \<and> refs_distinct (gs_rows s) \<and> (\<forall>r \<in> set (gs_rows s). row_ok r)
     \<and> rooms_exclusive (gs_rows s) \<and> sessions_exclusive (gs_rows s)
     \<and> (\<forall>device. int (length (client_claims_of s device)) \<le> gc_limit cfg)
     \<and> (\<forall>x \<in> set (gs_refs s). bounded_text_128 (rf_ref x)) \<and> distinct (map rf_ref (gs_refs s)) \<and> distinct (map (\<lambda>r. (rf_grant r, rf_session r)) (gs_refs s))"

text \<open>Admitting a Room claim: after the Room was found free or taken over, no active row has it.\<close>

definition room_free :: "string \<Rightarrow> grant_store \<Rightarrow> bool" where
  "room_free room s \<longleftrightarrow> (\<forall>r \<in> set (gs_rows s). active_row r \<longrightarrow> cr_room r \<noteq> Some room)"

lemma active_close_where: "r \<in> set (gs_rows (close_where p rs now s)) \<Longrightarrow> active_row r \<Longrightarrow> r \<in> set (gs_rows s) \<and> \<not> p r"
  by (auto simp: close_where_def update_where_def close_row_def active_row_def split: if_splits)

lemma take_room_frees:
  assumes "rooms_exclusive (gs_rows s)" and "take_room flt d now s = (Inr x, t)"
  shows "room_free (dec_room d) t"
proof (cases "find (\<lambda>r. cr_room r = Some (dec_room d) \<and> active_row r) (gs_rows s)")
  case None
  with assms(2) have "t = s" by (simp add: take_room_def mutation_simps)
  with None show ?thesis by (auto simp: room_free_def find_None_iff)
next
  case (Some r)
  from find_in [OF this] have r: "r \<in> set (gs_rows s)" "cr_room r = Some (dec_room d)" "active_row r" by auto
  define taken where "taken = (\<lambda>q. cr_handle q = cr_handle r \<and> idle_tail now q)"
  from assms(2) Some have idle: "idle_tail now r"
    and t: "t = close_where taken (\<lambda>_. ''superseded_by_touch'') now s"
    by (auto simp: take_room_def taken_def mutation_simps Let_def sql_ok result_simps split: if_splits)
  show ?thesis
    unfolding room_free_def
  proof (intro ballI impI)
    fix q
    assume "q \<in> set (gs_rows t)" and "active_row q"
    then have q: "q \<in> set (gs_rows s)" "\<not> taken q" unfolding t using active_close_where by blast+
    show "cr_room q \<noteq> Some (dec_room d)"
    proof
      assume "cr_room q = Some (dec_room d)"
      with r q(1) \<open>active_row q\<close> have "q = r" using exclusiveD [OF assms(1)] by force
      with idle q(2) show False by (simp add: taken_def)
    qed
  qed
qed

lemma runs_take_room: "runs cfg (take_room flt d now) s"
  unfolding take_room_def Let_def
  by (intro runs_read runs_option runs_if runs_bind runs_sql runs_lift runs_modify moves_close) simp_all

lemma room_row_ok: "row_ok (room_claim_row d g h q now)" "active_row (room_claim_row d g h q now)"
  "cr_kind (room_claim_row d g h q now) \<noteq> ''client''"
  by (auto simp: room_claim_row_def row_ok_def active_row_def waits_def GRANT_ACTIVITIES_def)

lemma client_row_ok: "row_ok (client_claim_row c d g p n gen x h ref q now wall)" "active_row (client_claim_row c d g p n gen x h ref q now wall)"
  "cr_room (client_claim_row c d g p n gen x h ref q now wall) = None"
  by (auto simp: client_claim_row_def row_ok_def active_row_def waits_def GRANT_ACTIVITIES_def)

lemma runs_create_room:
  assumes "\<And>t. moves cfg s t \<Longrightarrow> rooms_exclusive (gs_rows t)"
  shows "runs cfg (create_from_decision_sql cfg flt d g h clk) s"
  unfolding create_from_decision_sql_def
proof (intro runs_bind runs_lift runs_expire_due runs_atomically runs_sql runs_take_room runs_insert)
  fix u1 t1 u2 t2 now t3 u4 t4 u5 t5 sup t6
  assume "checkM (dec_decision d = Granted) (GrantValueError ''only a granted wake can create a conversation claim'') s = (Inr u1, t1)"
    and "checkM (positive_generation g) (GrantValueError ''credential generation must be a positive integer'') t1 = (Inr u2, t2)"
    and "liftM (finite_time clk) t2 = (Inr now, t3)"
    and due: "expire_due_locked flt now t3 = (Inr u4, t4)"
    and "sql_at ReadSql flt ''cannot create Home conversation claim'' t4 = (Inr u5, t5)"
    and take: "take_room flt d now t5 = (Inr sup, t6)"
    and fresh: "\<not> list_ex (\<lambda>r. cr_handle r = cr_handle (room_claim_row d g h (now + gc_first_open cfg) now)
        \<or> cr_claim r = cr_claim (room_claim_row d g h (now + gc_first_open cfg) now)
        \<or> (cr_ref (room_claim_row d g h (now + gc_first_open cfg) now) \<noteq> None
           \<and> cr_ref r = cr_ref (room_claim_row d g h (now + gc_first_open cfg) now))) (gs_rows t6)"
  then have "t3 = s" and "t5 = t4" by (simp_all add: check_ok lift_ok sql_ok)
  with due have "moves cfg s t5" using runs_expire_due [of cfg flt now s] by (simp add: runs_def)
  from take_room_frees [OF assms [OF this] take] fresh show "admissible_row cfg t6 (room_claim_row d g h (now + gc_first_open cfg) now)"
    by (auto simp: admissible_row_def room_row_ok room_free_def list_ex_iff) (auto simp: room_claim_row_def)
qed (auto split: option.splits intro: runs_memory)

lemma runs_admit_client:
  assumes "row_ok row" "active_row row" "cr_room row = None"
  shows "runs cfg (admit_client cfg flt row) s"
  unfolding admit_client_def
proof (intro runs_bind runs_sql runs_read runs_lift runs_insert)
  fix u t u1 t1 u2 t2
  assume "sql_at ReadSql flt ''cannot create Home client claim'' s = (Inr u, t)"
    and "checkM (int (length (client_claims_of t (cr_device row))) < gc_limit cfg) (ClaimConflict ''claim_limit'') t = (Inr u1, t1)"
    and "checkM (case cr_session row of None \<Rightarrow> True | Some x \<Rightarrow> \<not> session_bound t x None) (ClaimConflict ''session_busy'') t1 = (Inr u2, t2)"
    and "\<not> list_ex (\<lambda>r. cr_handle r = cr_handle row \<or> cr_claim r = cr_claim row
      \<or> (cr_ref row \<noteq> None \<and> cr_ref r = cr_ref row)) (gs_rows t2)"
  then show "admissible_row cfg t2 row"
    using assms by (auto simp: admissible_row_def check_ok list_ex_iff session_bound_def split: option.splits)
qed

lemma runs_create_client: "runs cfg (create_client_claim cfg flt q h ref clk wall) s"
  unfolding create_client_claim_def
  by (intro runs_bind runs_lift runs_expire_due runs_atomically runs_admit_client client_row_ok runs_memory) auto

section \<open>References, Sessions and activity\<close>

lemma sql_identifier_bounded: "sql_identifier v label = Inr x \<Longrightarrow> bounded_text_128 x"
  by (cases "(v, label)" rule: sql_identifier.cases)
    (auto simp: bounded_text_128_def Let_def Suc_le_eq split: if_splits)

lemma runs_session_ref: "runs cfg (session_ref flt g x fresh clk) s"
  unfolding session_ref_def
proof (intro runs_bind runs_lift runs_sql runs_read runs_option runs_modify)
  fix g' t1 x' t2 u t3 ref t4 now t5 u6 t6
  assume "find_ref t3 g' x' = None" and "liftM (sql_identifier fresh ''session reference'') t3 = (Inr ref, t4)"
    and "liftM (finite_time clk) t4 = (Inr now, t5)"
    and "checkM (WriteSql \<notin> set flt \<and> \<not> list_ex (\<lambda>r. rf_ref r = ref) (gs_refs t3))
      (GrantOSError ''cannot record Home session reference'') t5 = (Inr u6, t6)"
  then show "moves cfg t6 (t6\<lparr>gs_refs := gs_refs t6 @ [\<lparr>rf_ref = ref, rf_grant = g', rf_session = x', rf_created = now\<rparr>]\<rparr>)"
    by (intro moves_change claim_change.Referenced)
      (auto simp: checkE_eq_Inr lift_ok list_ex_iff find_ref_def find_None_iff sql_identifier_bounded)
qed

lemma bind_session_ok:
  assumes "distinct (map cr_handle (gs_rows s))" and "bind_session g x s = Inr u"
  shows "\<not> session_bound s x (Some (cg_handle g))"
    and "r \<in> set (gs_rows s) \<Longrightarrow> cr_handle r = cg_handle g \<Longrightarrow> cr_session r = None \<or> cr_session r = Some x"
proof -
  from assms(2) obtain q where q: "row_of s (cg_handle g) = Some q" "cr_session q = None \<or> cr_session q = Some x"
    and free: "\<not> session_bound s x (Some (cg_handle g))"
    by (auto simp: bind_session_def result_simps split: option.splits)
  show "\<not> session_bound s x (Some (cg_handle g))" by (rule free)
  show "cr_session r = None \<or> cr_session r = Some x" if "r \<in> set (gs_rows s)" "cr_handle r = cg_handle g"
    using that find_in [OF q(1) [unfolded row_of_def]] q(2) distinct_map_unique [OF assms(1), of r q] by auto
qed

lemma runs_persist:
  assumes "distinct (map cr_handle (gs_rows s))"
  shows "runs cfg (persist_session flt g x clk) s"
  unfolding persist_session_def
proof (intro runs_option runs_bind runs_lift runs_sql runs_read runs_modify)
  fix y u t1 v t2 now t3 w t4
  assume "sql_at ReadSql flt ''cannot persist Home conversation Session'' s = (Inr u, t1)"
    and "liftM (bind_session g y t1) t1 = (Inr v, t2)" and "liftM (finite_time clk) t2 = (Inr now, t3)"
    and "sql_at WriteSql flt ''cannot persist Home conversation Session'' t3 = (Inr w, t4)"
  then have t4: "t4 = s" and ok: "bind_session g y s = Inr v" by (simp_all add: sql_ok lift_ok)
  note bound = bind_session_ok [OF assms ok]
  show "moves cfg t4 (update_where (\<lambda>r. cr_handle r = cg_handle g) (\<lambda>r. r\<lparr>cr_session := Some y, cr_updated := now\<rparr>) t4)"
    unfolding t4
    by (intro moves_change claim_change.Bound [where h = "cg_handle g" and x = y and now = now])
      (use bound in \<open>simp_all add: update_where_def\<close>)
qed

lemma runs_lapse: "runs cfg (lapse flt msg h now) s"
  unfolding lapse_def by (intro runs_bind runs_sql runs_modify moves_close) simp_all

lemma moves_updated:
  "(\<And>r. active_row r \<Longrightarrow> p r \<Longrightarrow> row_step r (f r)) \<Longrightarrow> moves cfg s (update_where p f s)"
  by (rule moves_update [where p = p and f = f]) auto

lemma moves_scheduled:
  "(\<And>r. active_row r \<Longrightarrow> p r \<Longrightarrow> row_step r (f r)) \<Longrightarrow> moves cfg s (schedule_timer h q (update_where p f s))"
  by (rule moves_update [where p = p and f = f]) auto

lemma runs_mark_open: "runs cfg (mark_open_sql flt h device clk wall) s"
  unfolding mark_open_sql_def
  by (auto split: option.splits intro!: runs_bind runs_lift runs_sql runs_read runs_lapse runs_memory
      runs_modify [OF moves_updated] open_row_step)

lemma runs_disconnected: "runs cfg (mark_disconnected_sql cfg flt h device clk) s"
  unfolding mark_disconnected_sql_def
  by (auto split: option.splits intro!: runs_bind runs_lift runs_sql runs_read runs_memory runs_modify
      [OF moves_scheduled] away_row_step)

lemma runs_detached: "runs cfg (mark_detached flt h) s" "runs cfg (clear_detached h) s"
  unfolding mark_detached_def clear_detached_def by (intro runs_bind runs_sql runs_memory; simp)+

lemma kind_at: "distinct (map cr_handle (gs_rows s)) \<Longrightarrow> find (\<lambda>r. cr_handle r = h \<and> cr_device r = device) (gs_rows s) = Some r \<Longrightarrow>
  q \<in> set (gs_rows s) \<Longrightarrow> cr_handle q = h \<Longrightarrow> q = r"
  by (drule find_in) (auto dest: distinct_map_unique)

lemma runs_record:
  assumes "distinct (map cr_handle (gs_rows s))"
  shows "runs cfg (record_activity_sql cfg flt h device state clk) s"
  unfolding record_activity_sql_def Let_def
proof (intro runs_bind runs_lift runs_sql runs_read runs_option runs_if runs_lapse runs_modify)
  fix u0 t0 now t1 u2 t2 r u3 t3 u4 t4
  assume "checkM (state \<in> set RECORDED_STATES) (GrantValueError ''conversation activity state is invalid'') s = (Inr u0, t0)"
    and "liftM (finite_time clk) t0 = (Inr now, t1)"
    and "sql_at ReadSql flt ''cannot read Home conversation activity'' t1 = (Inr u2, t2)"
    and r: "find (\<lambda>r. cr_handle r = h \<and> cr_device r = device) (gs_rows t2) = Some r"
    and "sql_at WriteSql flt ''cannot update Home conversation activity'' t2 = (Inr u3, t3)"
    and "checkM (length (active_where (\<lambda>q. cr_handle q = h \<and> \<not> lapsed_row now q) t2) = 1)
           (GrantValueError ''conversation claim has expired'') t3 = (Inr u4, t4)"
  then have t: "t4 = s" "t2 = s" and state: "state \<in> set RECORDED_STATES"
    by (simp_all add: sql_ok checkE_eq_Inr lift_ok)
  have same: "q = r" if "q \<in> set (gs_rows s)" "cr_handle q = h" for q
    using kind_at [OF assms r [unfolded t] that] .
  show "moves cfg t4 (update_where (\<lambda>q. cr_handle q = h \<and> \<not> lapsed_row now q)
    (\<lambda>q. q\<lparr>cr_activity := if state \<in> {''playback_complete'', ''idle''} then ''idle'' else state,
       cr_deadline := if state \<in> {''playback_complete'', ''idle''} \<and> cr_kind r \<noteq> ''client'' then Some (now + gc_idle cfg) else None,
       cr_updated := now\<rparr>) t4)"
    unfolding t by (rule moves_update [OF refl]) (use same record_row_step [OF _ state] in auto)
qed (auto split: option.splits intro!: moves_memory)

lemma runs_register: "runs cfg (register_revocation_handler flt h k clk) s"
  unfolding register_revocation_handler_def
  by (auto split: option.splits intro!: runs_bind runs_lift runs_sql runs_read runs_lapse runs_memory)

lemma runs_views: "runs cfg (client_claims flt v clk) s"
  unfolding client_claims_def by (intro runs_bind runs_lift runs_sql runs_read runs_expire_due)

section \<open>Resolving\<close>

lemma runs_deny: "runs cfg (deny_paired h) s"
  unfolding deny_paired_def by (intro runs_bind runs_lift runs_memory) auto

lemma runs_configured: "runs cfg (resolve_configured flt P r now) s"
  unfolding resolve_configured_def Let_def
  by (auto split: sum.splits store_error.splits option.splits intro!: runs_bind runs_lift runs_close_locked runs_deny)

lemma runs_resolve_row: "runs cfg (resolve_row flt P r now) s"
  unfolding resolve_row_def
  by (auto split: option.splits bool.splits intro!: runs_bind runs_lift runs_close_locked runs_deny runs_configured)

lemma runs_retry: "runs cfg (retry_retirement flt h d clk) s"
  using runs_close_claim [of cfg flt h "Some d" "''upstream_lost''" clk s]
  by (auto simp: runs_def retry_retirement_def split: prod.splits sum.splits grant_error.splits)

lemma runs_resolve_grant: "runs cfg (resolve_grant flt P h d clk) s"
  unfolding resolve_grant_def
  by (auto split: option.splits intro!: runs_bind runs_lift runs_sql runs_read runs_retry runs_resolve_row)

lemma runs_resolve: "runs cfg (resolve flt P h d c1 c2) s"
  unfolding resolve_def by (intro runs_bind runs_resolve_grant runs_read runs_if runs_matching runs_lift)

section \<open>The invariant is kept\<close>

text \<open>A pointwise change of the rows that keeps identities and closed rows keeps most of it.\<close>

definition follows :: "claim_row \<Rightarrow> claim_row \<Rightarrow> bool" where
  "follows r r' \<longleftrightarrow> claim_identity r' = claim_identity r \<and> (\<not> active_row r \<longrightarrow> r' = r) \<and> (row_ok r \<longrightarrow> row_ok r')"

lemma followsD:
  assumes "follows r r'"
  shows "cr_handle r' = cr_handle r" "cr_claim r' = cr_claim r" "cr_device r' = cr_device r" "cr_room r' = cr_room r"
    "cr_kind r' = cr_kind r" "cr_ref r' = cr_ref r" "active_row r' \<Longrightarrow> active_row r" "row_ok r \<Longrightarrow> row_ok r'"
  using assms identity_fields [of r' r] by (auto simp: follows_def)

lemma row_step_follows: "row_step r r' \<Longrightarrow> follows r r'"
  by (simp add: row_step_def follows_def)

lemma map_same: "(\<And>r. r \<in> set rows \<Longrightarrow> g (f r) = g r) \<Longrightarrow> map g (map f rows) = map g rows"
  by simp

lemma length_filter_map_le:
  "(\<And>r. r \<in> set rows \<Longrightarrow> p (f r) \<Longrightarrow> p r) \<Longrightarrow> length (filter p (map f rows)) \<le> length (filter p rows)"
  by (induction rows) auto

lemma mapped_inv:
  assumes inv: "grant_inv cfg s" and rows: "gs_rows t = map f (gs_rows s)" and refs: "gs_refs t = gs_refs s"
    and f: "\<And>r. r \<in> set (gs_rows s) \<Longrightarrow> follows r (f r)" and sessions: "sessions_exclusive (gs_rows t)"
  shows "grant_inv cfg t"
proof -
  note fields = followsD [OF f]
  have keys: "map cr_handle (gs_rows t) = map cr_handle (gs_rows s)" "map cr_claim (gs_rows t) = map cr_claim (gs_rows s)"
    unfolding rows by (rule map_same, simp add: fields)+
  have "refs_distinct (gs_rows t)"
    using inv unfolding rows grant_inv_def refs_distinct_def by (auto simp: fields)
  moreover have "rooms_exclusive (gs_rows t)"
    using inv fields unfolding rows grant_inv_def by (intro exclusive_map) auto
  moreover have "int (length (client_claims_of t device)) \<le> gc_limit cfg" for device
  proof -
    have "length (client_claims_of t device) \<le> length (client_claims_of s device)"
      unfolding client_claims_of_def active_where_def rows by (rule length_filter_map_le) (use fields in auto)
    then show ?thesis using inv by (auto simp: grant_inv_def intro: order_trans [rotated])
  qed
  moreover have "\<forall>r \<in> set (gs_rows t). row_ok r"
    using inv fields(8) unfolding rows by (auto simp: grant_inv_def)
  ultimately show ?thesis
    using inv sessions by (simp add: grant_inv_def keys refs)
qed

lemma bound_sessions:
  assumes "sessions_exclusive rows" and "distinct (map cr_handle rows)"
    and free: "\<And>r. r \<in> set rows \<Longrightarrow> active_row r \<Longrightarrow> cr_session r = Some x \<Longrightarrow> cr_handle r = h"
    and hit: "\<And>r. active_row r \<Longrightarrow> cr_handle r = h \<Longrightarrow> cr_session (f r) = Some x \<and> active_row (f r)"
    and miss: "\<And>r. \<not> (active_row r \<and> cr_handle r = h) \<Longrightarrow> f r = r"
  shows "sessions_exclusive (map f rows)"
  unfolding exclusive_def
proof (intro ballI impI)
  fix a b
  assume "a \<in> set (map f rows)" and "b \<in> set (map f rows)"
    and same: "active_row a \<and> active_row b \<and> cr_session a \<noteq> None \<and> cr_session a = cr_session b"
  then obtain r q where r: "r \<in> set rows" "a = f r" and q: "q \<in> set rows" "b = f q" by auto
  have act: "active_row r" "active_row q" using same r(2) q(2) miss by metis+
  have at: "cr_handle p = h" if "p \<in> set rows" "active_row p" "cr_session (f p) = Some x" for p
    using that free [of p] miss [of p] by metis
  have "r = q"
  proof (cases "cr_handle r = h \<or> cr_handle q = h")
    case True
    then have "cr_session a = Some x" using act r(2) q(2) same hit by metis
    then have "cr_handle r = h" "cr_handle q = h" using r q act same at by metis+
    then show ?thesis using distinct_map_unique [OF assms(2) r(1) q(1)] by simp
  next
    case False
    then have "f r = r" "f q = q" using miss by blast+
    then show ?thesis using exclusiveD [OF assms(1) r(1) q(1) act] same r(2) q(2) by metis
  qed
  with r q show "a = b" by simp
qed

lemma admitted_inv:
  assumes inv: "grant_inv cfg s" and rows: "gs_rows t = gs_rows s @ [row]" and ok: "admissible_row cfg s row"
    and refs: "gs_refs t = gs_refs s"
  shows "grant_inv cfg t"
proof -
  have new: "row_ok row" "\<And>r. r \<in> set (gs_rows s) \<Longrightarrow> cr_handle r \<noteq> cr_handle row \<and> cr_claim r \<noteq> cr_claim row"
    "\<And>r. r \<in> set (gs_rows s) \<Longrightarrow> cr_ref row \<noteq> None \<Longrightarrow> cr_ref r \<noteq> cr_ref row"
    "\<And>r. r \<in> set (gs_rows s) \<Longrightarrow> active_row r \<Longrightarrow> cr_room row \<noteq> None \<Longrightarrow> cr_room r \<noteq> cr_room row"
    "\<And>r. r \<in> set (gs_rows s) \<Longrightarrow> active_row r \<Longrightarrow> cr_session row \<noteq> None \<Longrightarrow> cr_session r \<noteq> cr_session row"
    "cr_kind row = ''client'' \<Longrightarrow> int (length (client_claims_of s (cr_device row))) < gc_limit cfg"
    using ok by (auto simp: admissible_row_def)
  have "refs_distinct (gs_rows t)"
    using inv new(3) unfolding rows grant_inv_def refs_distinct_def by (auto, metis+)
  moreover have "rooms_exclusive (gs_rows t)"
    using inv new(4) unfolding rows grant_inv_def by (intro exclusive_append) auto
  moreover have "sessions_exclusive (gs_rows t)"
    using inv new(5) unfolding rows grant_inv_def by (intro exclusive_append) auto
  moreover have "int (length (client_claims_of t device)) \<le> gc_limit cfg" for device
    using inv new(6) unfolding rows grant_inv_def client_claims_of_def active_where_def by auto
  moreover have fresh: "cr_handle row \<notin> cr_handle ` set (gs_rows s)" "cr_claim row \<notin> cr_claim ` set (gs_rows s)"
    using new(2) by (metis image_iff)+
  then have "distinct (map cr_handle (gs_rows t))" "distinct (map cr_claim (gs_rows t))" "\<forall>r \<in> set (gs_rows t). row_ok r"
    using inv new(1) fresh unfolding rows grant_inv_def by auto
  ultimately show ?thesis using inv by (simp add: grant_inv_def refs)
qed

lemma claim_change_inv: "claim_change cfg s t \<Longrightarrow> grant_inv cfg s \<Longrightarrow> grant_inv cfg t"
proof (induction rule: claim_change.induct)
  case (Quiet t f s)
  have "sessions_exclusive (gs_rows t)"
    unfolding Quiet.hyps(1) using Quiet.prems
    by (intro exclusive_map row_step_session [OF Quiet.hyps(2)]) (simp_all add: grant_inv_def)
  with Quiet show ?case
    by (intro mapped_inv [OF Quiet.prems Quiet.hyps(1,3)] row_step_follows)
next
  case (Bound t h now x s)
  have free: "cr_handle r = h" if "r \<in> set (gs_rows s)" "active_row r" "cr_session r = Some x" for r
    using Bound.hyps(3) that by (auto simp: session_bound_def list_ex_iff)
  have "sessions_exclusive (gs_rows t)"
    unfolding Bound.hyps(1)
    by (rule bound_sessions [where x = x and h = h]) (use Bound.prems free in \<open>auto simp: grant_inv_def active_row_def\<close>)
  then show ?case
    by (intro mapped_inv [OF Bound.prems Bound.hyps(1,4)])
      (auto simp: follows_def claim_identity_def row_ok_def active_row_def waits_def)
next
  case (Admitted t s row)
  then show ?case using admitted_inv by blast
next
  case (Referenced t s x)
  have "rf_ref x \<notin> rf_ref ` set (gs_refs s)"
    "(rf_grant x, rf_session x) \<notin> (\<lambda>r. (rf_grant r, rf_session r)) ` set (gs_refs s)"
    using Referenced.hyps(3) by fastforce+
  with Referenced.hyps(1,2,4) Referenced.prems show ?case
    by (simp add: grant_inv_def client_claims_of_def active_where_def)
qed

lemma moves_inv: "moves cfg s t \<Longrightarrow> grant_inv cfg s \<Longrightarrow> grant_inv cfg t"
  unfolding moves_def by (induction rule: rtranclp_induct) (auto intro: claim_change_inv)

section \<open>The history of a row\<close>

definition claim_evolves :: "claim_row \<Rightarrow> claim_row \<Rightarrow> bool" where
  "claim_evolves r r' \<longleftrightarrow> claim_identity r' = claim_identity r \<and> (cr_session r = None \<or> cr_session r' = cr_session r)
     \<and> (\<not> active_row r \<longrightarrow> r' = r)"

lemma claim_evolves_preorder: "reflp claim_evolves" "transp claim_evolves"
  by (auto simp: reflp_def transp_def claim_evolves_def)

lemma moves_grows: "moves cfg s t \<Longrightarrow> grows claim_evolves (gs_rows s) (gs_rows t) \<and> prefix_refs s t"
  if "\<And>s t. prefix_refs s t \<longleftrightarrow> (\<exists>xs. gs_refs t = gs_refs s @ xs)" for prefix_refs
  unfolding moves_def
proof (induction rule: rtranclp_induct)
  case base
  then show ?case using grows_refl [OF claim_evolves_preorder(1)] that by auto
next
  case (step t u)
  have "grows claim_evolves (gs_rows t) (gs_rows u) \<and> (\<exists>xs. gs_refs u = gs_refs t @ xs)"
    using step.hyps(2)
  proof cases
    case (Quiet f)
    then show ?thesis by (auto simp: row_step_def claim_evolves_def intro!: grows_map)
  next
    case (Bound h now x)
    have "grows claim_evolves (gs_rows t) (gs_rows u)"
      unfolding Bound(1) by (rule grows_map, simp add: claim_evolves_def claim_identity_def) (metis Bound(2))
    with Bound(4) show ?thesis by simp
  next
    case (Admitted row)
    then show ?thesis by (auto intro: grows_append grows_refl claim_evolves_preorder)
  next
    case (Referenced x)
    then show ?thesis by (auto intro: grows_refl claim_evolves_preorder)
  qed
  with step.IH that show ?case using grows_trans [OF claim_evolves_preorder(2)] by (metis append.assoc)
qed

text \<open>A claim that is closed or denied stays so.\<close>

definition silenced :: "grant_store \<Rightarrow> string \<Rightarrow> bool" where
  "silenced s h \<longleftrightarrow> (\<exists>r. row_of s h = Some r \<and> (\<not> active_row r \<or> h \<in> gs_denied s))"

lemma row_of_in: "row_of s h = Some r \<Longrightarrow> r \<in> set (gs_rows s) \<and> cr_handle r = h"
  unfolding row_of_def by (rule find_in)

lemma moves_row:
  assumes "moves cfg s t" and "row_of s h = Some r"
  shows "\<exists>r'. row_of t h = Some r' \<and> claim_evolves r r'"
  unfolding row_of_def
proof (rule grows_find [where R = claim_evolves])
  show "grows claim_evolves (gs_rows s) (gs_rows t)" using moves_grows [OF refl assms(1)] by blast
  show "find (\<lambda>r. cr_handle r = h) (gs_rows s) = Some r" using assms(2) by (simp add: row_of_def)
qed (auto simp: claim_evolves_def dest: identity_fields)

lemma claim_change_denials: "claim_change cfg s t \<Longrightarrow> keeps_denials s t"
  by (induction rule: claim_change.induct) (auto simp: keeps_denials_def)

lemma moves_silenced: "moves cfg s t \<Longrightarrow> silenced s h \<Longrightarrow> silenced t h"
  unfolding moves_def
proof (induction rule: rtranclp_induct)
  case base
  then show ?case by simp
next
  case (step t u)
  then obtain r where r: "row_of t h = Some r" "\<not> active_row r \<or> h \<in> gs_denied t" by (auto simp: silenced_def)
  obtain r' where r': "row_of u h = Some r'" "claim_evolves r r'"
    using moves_row [OF moves_change [OF step.hyps(2)] r(1)] by blast
  show ?case
  proof (cases "active_row r")
    case True
    then have "h \<in> gs_denied u \<or> \<not> active_row r'"
      using r(2) claim_change_denials [OF step.hyps(2)] row_of_in [OF r'(1)] by (auto simp: keeps_denials_def)
    with r' show ?thesis by (auto simp: silenced_def)
  next
    case False
    with r' show ?thesis by (auto simp: silenced_def claim_evolves_def)
  qed
qed

end
