(* ===== verification/Grant_Store_Properties.thy ===== *)
theory Grant_Store_Properties
  imports Grant_Store_Invariant
begin

text \<open>
  Properties of the durable claim store over every run of its operations, restarts and firing
  timers included: which claims can be active together, that a closed claim stays as it is,
  exactly when a handle resolves, that a revocation silences a Device, and that Session
  references are stable and private to their grant.
\<close>

section \<open>Runs\<close>

datatype grant_call =
    DbCreateRoom wake_decision "int option" string pyval
  | DbCreateClient client_request string string pyval pyval
  | DbSessionRef pyval pyval pyval pyval
  | DbPersist conversation_grant pyval pyval
  | DbMarkOpen string string pyval pyval
  | DbDisconnected string string pyval
  | DbDetached string
  | DbClearDetached string
  | DbRecord string string string pyval
  | DbRegister string nat pyval
  | DbUnregister string nat
  | DbListen nat
  | DbResolve authority_ports string string pyval pyval
  | DbClientClaims pyval pyval
  | DbCloseClaim string "string option" string pyval
  | DbCloseOwned string string "string list" "string list" pyval
  | DbCloseDevice string "int option" string pyval
  | DbCloseGrant string string pyval
  | DbCloseProfiles "string list" string pyval
  | DbCloseMappings "string list" string pyval
  | DbClosePaired int string pyval
  | DbCloseAll string pyval
  | DbCloseClients pyval "string list" string pyval pyval
  | DbTimer string rat pyval
  | DbRestart

fun grant_exec :: "grant_config \<Rightarrow> grant_store \<Rightarrow> sql_point list \<times> grant_call \<Rightarrow> grant_store" where
  "grant_exec cfg s (flt, DbCreateRoom d g h c) = snd (create_from_decision_sql cfg flt d g h c s)"
| "grant_exec cfg s (flt, DbCreateClient q h ref c w) = snd (create_client_claim cfg flt q h ref c w s)"
| "grant_exec cfg s (flt, DbSessionRef g x fresh c) = snd (session_ref flt g x fresh c s)"
| "grant_exec cfg s (flt, DbPersist g x c) = snd (persist_session flt g x c s)"
| "grant_exec cfg s (flt, DbMarkOpen h d c w) = snd (mark_open_sql flt h d c w s)"
| "grant_exec cfg s (flt, DbDisconnected h d c) = snd (mark_disconnected_sql cfg flt h d c s)"
| "grant_exec cfg s (flt, DbDetached h) = snd (mark_detached flt h s)"
| "grant_exec cfg s (flt, DbClearDetached h) = snd (clear_detached h s)"
| "grant_exec cfg s (flt, DbRecord h d a c) = snd (record_activity_sql cfg flt h d a c s)"
| "grant_exec cfg s (flt, DbRegister h k c) = snd (register_revocation_handler flt h k c s)"
| "grant_exec cfg s (flt, DbUnregister h k) = snd (unregister_revocation_handler h k s)"
| "grant_exec cfg s (flt, DbListen l) = snd (add_close_listener l s)"
| "grant_exec cfg s (flt, DbResolve P h d c1 c2) = snd (resolve flt P h d c1 c2 s)"
| "grant_exec cfg s (flt, DbClientClaims d c) = snd (client_claims flt d c s)"
| "grant_exec cfg s (flt, DbCloseClaim h d r c) = snd (close_claim_sql flt h d r c s)"
| "grant_exec cfg s (flt, DbCloseOwned h d rs ms c) = snd (close_owned_paired_room_claim_sql flt h d rs ms c s)"
| "grant_exec cfg s (flt, DbCloseDevice d g r c) = snd (close_device_claims_sql flt d g r c s)"
| "grant_exec cfg s (flt, DbCloseGrant g r c) = snd (close_grant_claims_sql flt g r c s)"
| "grant_exec cfg s (flt, DbCloseProfiles ids r c) = snd (close_profile_claims_sql flt ids r c s)"
| "grant_exec cfg s (flt, DbCloseMappings ids r c) = snd (close_mapping_claims_sql flt ids r c s)"
| "grant_exec cfg s (flt, DbClosePaired n r c) = snd (close_paired_room_claims_sql flt n r c s)"
| "grant_exec cfg s (flt, DbCloseAll r c) = snd (close_all_claims_sql flt r c s)"
| "grant_exec cfg s (flt, DbCloseClients d refs r c1 c2) = snd (close_client_claims flt d refs r c1 c2 s)"
| "grant_exec cfg s (flt, DbTimer h q c) = snd (expire_timer flt h q c s)"
| "grant_exec cfg s (flt, DbRestart) = open_grant_store (gs_rows s) (gs_refs s)"

lemma moves_restart: "moves cfg s (open_grant_store (gs_rows s) (gs_refs s))"
  by (rule moves_change [OF claim_change.Quiet [where f = restart_row]])
    (simp_all add: open_grant_store_def restart_row_step keeps_denials_def, simp add: restart_row_def active_row_def)

lemmas closing_runs = runs_matching_claims [of cfg flt p r c s, unfolded runs_def] for cfg flt p r c s

lemma grant_exec_moves: "grant_inv cfg s \<Longrightarrow> moves cfg s (grant_exec cfg s p)"
proof -
  assume inv: "grant_inv cfg s"
  then have d: "distinct (map cr_handle (gs_rows s))" by (simp add: grant_inv_def)
  have create: "runs cfg (create_from_decision_sql cfg flt w g h c) s" for flt w g h c
    by (rule runs_create_room) (use moves_inv [OF _ inv] in \<open>simp add: grant_inv_def\<close>)
  obtain flt call where p: "p = (flt, call)" by (cases p)
  show ?thesis
    unfolding p
    by (cases call)
      (simp_all add: create [unfolded runs_def] runs_create_client [unfolded runs_def] runs_session_ref [unfolded runs_def]
        runs_persist [OF d, unfolded runs_def] runs_mark_open [unfolded runs_def] runs_disconnected [unfolded runs_def]
        runs_detached [unfolded runs_def] runs_record [OF d, unfolded runs_def] runs_register [unfolded runs_def]
        runs_resolve [unfolded runs_def] runs_views [unfolded runs_def] runs_close_claim [unfolded runs_def]
        runs_close_owned [unfolded runs_def] runs_client_close [unfolded runs_def] runs_expire_timer [unfolded runs_def]
        closing_runs moves_restart close_device_claims_sql_def close_grant_claims_sql_def close_profile_claims_sql_def
        close_mapping_claims_sql_def close_paired_room_claims_sql_def close_all_claims_sql_def
        unregister_revocation_handler_def add_close_listener_def modifyM_def liftM_def moves_memory)
qed

lemma grant_exec_inv: "grant_inv cfg s \<Longrightarrow> grant_inv cfg (grant_exec cfg s p)"
  by (rule moves_inv [OF grant_exec_moves])

interpretation grant_machine: machine "grant_exec cfg" "grant_inv cfg" "\<lambda>_ _. True" for cfg
  by unfold_locales (rule grant_exec_inv)

lemma any_run: "allowed_run exec (\<lambda>_ _. True) s ps"
  by (induction ps arbitrary: s) auto

lemmas run_inv = grant_machine.run_inv [OF _ any_run]

lemma run_moves: "grant_inv cfg s \<Longrightarrow> moves cfg s (run_ops (grant_exec cfg) s ps)"
proof (induction ps arbitrary: s)
  case Nil
  then show ?case by simp
next
  case (Cons p ps)
  then show ?case using grant_exec_moves grant_exec_inv moves_trans by simp blast
qed

definition grant_reachable :: "grant_config \<Rightarrow> grant_store \<Rightarrow> bool" where
  "grant_reachable cfg s \<longleftrightarrow> (\<exists>limit grace idle first route ps. make_grant_config limit grace idle first route = Inr cfg
     \<and> s = run_ops (grant_exec cfg) (open_grant_store [] []) ps)"

lemma claims_limit_pos: "claims_limit v = Inr n \<Longrightarrow> 1 \<le> n"
  by (cases v rule: claims_limit.cases) (auto split: if_splits)

lemma grant_reachable_inv: "grant_reachable cfg s \<Longrightarrow> grant_inv cfg s"
proof -
  assume "grant_reachable cfg s"
  then obtain limit grace idle first route ps where cfg: "make_grant_config limit grace idle first route = Inr cfg"
    and s: "s = run_ops (grant_exec cfg) (open_grant_store [] []) ps"
    unfolding grant_reachable_def by blast
  from cfg have "1 \<le> gc_limit cfg" by (auto simp: make_grant_config_def result_simps claims_limit_pos)
  then have "grant_inv cfg (open_grant_store [] [])"
    by (auto simp: grant_inv_def open_grant_store_def refs_distinct_def exclusive_def client_claims_of_def active_where_def)
  then show ?thesis unfolding s by (rule run_inv)
qed

section \<open>Which claims can be active together\<close>

text \<open>
  C2. Durable claims stay consistent. In every state the store can reach, through any failing
  statements, stale timers and restarts, two active claims share neither a Room nor a
  Standard Session, no two claims share a wake claim or a claim reference, a Device has no
  more active client claims than configured, an active claim has a deadline exactly while
  it waits, and a closed one has none and says why it was closed.
\<close>

theorem durable_claims_consistent:
  assumes "grant_reachable cfg s" and "row_of s h = Some r" and "row_of s h' = Some r'"
  shows "(active_row r \<and> active_row r' \<and> cr_room r \<noteq> None \<and> cr_room r = cr_room r' \<longrightarrow> h = h')
    \<and> (active_row r \<and> active_row r' \<and> cr_session r \<noteq> None \<and> cr_session r = cr_session r' \<longrightarrow> h = h')
    \<and> (cr_claim r = cr_claim r' \<longrightarrow> h = h') \<and> (cr_ref r \<noteq> None \<and> cr_ref r = cr_ref r' \<longrightarrow> h = h')
    \<and> int (length (client_claims_of s (cr_device r))) \<le> gc_limit cfg
    \<and> (active_row r \<longrightarrow> (cr_deadline r \<noteq> None \<longleftrightarrow> waits r))
    \<and> (\<not> active_row r \<longrightarrow> cr_deadline r = None \<and> cr_close_reason r \<noteq> None)"
proof -
  note inv = grant_reachable_inv [OF assms(1), unfolded grant_inv_def]
  from row_of_in [OF assms(2)] row_of_in [OF assms(3)] have r: "r \<in> set (gs_rows s)" "cr_handle r = h"
    and r': "r' \<in> set (gs_rows s)" "cr_handle r' = h'" by auto
  have "h = h'" if "active_row r" "active_row r'" "cr_room r \<noteq> None" "cr_room r = cr_room r'"
    using exclusiveD [of cr_room, OF _ r(1) r'(1) that] inv r r' by auto
  moreover have "h = h'" if "active_row r" "active_row r'" "cr_session r \<noteq> None" "cr_session r = cr_session r'"
    using exclusiveD [of cr_session, OF _ r(1) r'(1) that] inv r r' by auto
  moreover have "h = h'" if "cr_claim r = cr_claim r'"
    using distinct_map_unique [OF _ r(1) r'(1) that] inv r r' by auto
  moreover have "h = h'" if "cr_ref r \<noteq> None" "cr_ref r = cr_ref r'"
    using inv r r' that unfolding refs_distinct_def by metis
  moreover have "int (length (client_claims_of s (cr_device r))) \<le> gc_limit cfg" using inv by blast
  moreover have "row_ok r" using inv r(1) by blast
  then have "(active_row r \<longrightarrow> (cr_deadline r \<noteq> None \<longleftrightarrow> waits r))
    \<and> (\<not> active_row r \<longrightarrow> cr_deadline r = None \<and> cr_close_reason r \<noteq> None)"
    unfolding row_ok_def by (simp split: if_splits)
  ultimately show ?thesis by blast
qed

section \<open>Exactly when a handle resolves\<close>

lemma denied_never: "deny_paired h s \<noteq> (Inr (Some g), t)"
  by (simp add: deny_paired_def mutation_simps)

lemma then_none: "bindM m (\<lambda>_. returnM None) s \<noteq> (Inr (Some g), t)"
  by (simp add: mutation_simps)

lemma retry_never: "retry_retirement flt h d c s \<noteq> (Inr (Some g), t)"
  by (auto simp: retry_retirement_def split: prod.splits sum.splits grant_error.splits)

lemma configured_iff:
  "resolve_configured flt P r now s = (Inr (Some g), t) \<longleftrightarrow> t = s \<and> (\<exists>snap protected. ap_snapshot P = Inr snap
     \<and> \<not> (cr_kind r = ''paired_room'' \<and> snap_revision snap \<noteq> cr_revision r) \<and> usable_profile snap (cr_profile r)
     \<and> protected_authority P snap (cr_device r) (cr_generation r) = Some protected
     \<and> \<not> inactive_mapping snap (cr_mapping r) \<and> g = grant_of_row P snap r protected)"
  by (cases "ap_snapshot P")
    (auto simp: resolve_configured_def Let_def lift_ok denied_never then_none split: store_error.splits option.splits)

lemma resolve_row_iff:
  "resolve_row flt P r now s = (Inr (Some g), t) \<longleftrightarrow> \<not> lapsed_row now r
     \<and> \<not> (cr_kind r = ''paired_room'' \<and> \<not> paired_authorized P r) \<and> client_authority P r = Some True
     \<and> resolve_configured flt P r now s = (Inr (Some g), t)"
  by (simp add: resolve_row_def denied_never then_none lift_ok split: option.splits bool.splits)

text \<open>What a row, the clock and the ports must say, and what the store must remember of the handle.\<close>

definition authorized_now :: "authority_ports \<Rightarrow> claim_row \<Rightarrow> rat \<Rightarrow> snapshot \<Rightarrow> string list \<times> int option \<Rightarrow> bool" where
  "authorized_now P r now snap protected \<longleftrightarrow> \<not> lapsed_row now r
     \<and> \<not> (cr_kind r = ''paired_room'' \<and> (\<not> paired_authorized P r \<or> snap_revision snap \<noteq> cr_revision r))
     \<and> client_authority P r = Some True \<and> ap_snapshot P = Inr snap \<and> usable_profile snap (cr_profile r)
     \<and> \<not> inactive_mapping snap (cr_mapping r)
     \<and> protected_authority P snap (cr_device r) (cr_generation r) = Some protected"

definition resolvable :: "grant_store \<Rightarrow> string \<Rightarrow> string \<Rightarrow> claim_row \<Rightarrow> bool" where
  "resolvable s h device r \<longleftrightarrow> row_of s h = Some r \<and> cr_device r = device \<and> active_row r
     \<and> h \<notin> gs_denied s \<and> (h, Some device) \<notin> gs_failed s \<and> (h, None) \<notin> gs_failed s"

lemma resolve_row_grants:
  "resolve_row flt P r now s = (Inr (Some g), t) \<longleftrightarrow> t = s
     \<and> (\<exists>snap protected. authorized_now P r now snap protected \<and> g = grant_of_row P snap r protected)"
  unfolding resolve_row_iff configured_iff authorized_now_def by auto

lemma resolve_grant_iff:
  "resolve_grant flt P h device c s = (Inr (Some g), t) \<longleftrightarrow> t = s \<and> ReadSql \<notin> set flt
     \<and> (\<exists>now r snap protected. finite_time c = Inr now \<and> resolvable s h device r
          \<and> authorized_now P r now snap protected \<and> g = grant_of_row P snap r protected)"
proof (cases "\<exists>r. resolvable s h device r")
  case False
  then have "resolve_grant flt P h device c s \<noteq> (Inr (Some g), t)"
    by (auto simp: resolve_grant_def readM_eq retry_never lift_ok bindM_eq_Inr sql_ok resolvable_def split: option.splits if_splits)
  with False show ?thesis by blast
next
  case True
  then obtain r where r: "resolvable s h device r" by blast
  then have only: "resolvable s h device q \<longleftrightarrow> q = r" for q by (auto simp: resolvable_def)
  have "resolve_grant flt P h device c s = (Inr (Some g), t) \<longleftrightarrow> ReadSql \<notin> set flt
      \<and> (\<exists>now. finite_time c = Inr now \<and> resolve_row flt P r now s = (Inr (Some g), t))"
    using r by (simp add: resolve_grant_def resolvable_def readM_eq bindM_eq_Inr sql_ok lift_ok)
  then show ?thesis by (simp add: only resolve_row_grants) blast
qed

lemma resolve_iff:
  "resolve flt P h device c1 c2 s = (Inr (Some g), t) \<longleftrightarrow> resolve_grant flt P h device c1 s = (Inr (Some g), t)"
proof -
  have "(if x = None \<and> h \<in> gs_denied u then bindM (close_matching_rows flt (\<lambda>r. cr_handle r = h \<and> cr_device r = device
      \<and> cr_kind r = ''paired_room'') ''paired_room_revoked'' c2) (\<lambda>_. returnM None) else returnM x) u = (Inr (Some g), t)
    \<longleftrightarrow> x = Some g \<and> u = t" for x u
    by (cases x) (auto simp: then_none lift_ok)
  then show ?thesis unfolding resolve_def bindM_eq_Inr readM_eq by auto
qed

text \<open>
  C8. A handle resolves exactly when it should. \<open>resolve\<close> returns a conversation grant if and
  only if the claim exists, belongs to the Device, is active and not past its deadline, was
  neither denied nor failed upstream, its paired-room or client authority is confirmed
  now, its Profile is available and its wake mapping not switched off in the current
  configuration; the grant then carries the claim's own fields, and the store is unchanged.
\<close>

theorem handle_resolves_iff:
  "resolve flt P h device c1 c2 s = (Inr (Some g), t) \<longleftrightarrow> t = s \<and> ReadSql \<notin> set flt
     \<and> (\<exists>now r snap protected. finite_time c1 = Inr now \<and> resolvable s h device r
          \<and> authorized_now P r now snap protected \<and> g = grant_of_row P snap r protected)"
  unfolding resolve_iff resolve_grant_iff ..

lemma resolved_active: "resolve flt P h device c1 c2 s = (Inr (Some g), t) \<Longrightarrow> \<exists>r. row_of s h = Some r \<and> active_row r \<and> h \<notin> gs_denied s"
  unfolding resolve_iff resolve_grant_iff resolvable_def by blast


section \<open>Claims that never resolve again\<close>

lemma silenced_run:
  assumes "grant_inv cfg s" and "silenced s h"
  shows "fst (resolve flt P h device c1 c2 (run_ops (grant_exec cfg) s ps)) \<noteq> Inr (Some g)"
proof
  let ?u = "run_ops (grant_exec cfg) s ps"
  assume "fst (resolve flt P h device c1 c2 ?u) = Inr (Some g)"
  then have "resolve flt P h device c1 c2 ?u = (Inr (Some g), snd (resolve flt P h device c1 c2 ?u))"
    by (metis prod.collapse)
  from resolved_active [OF this] have "\<not> silenced ?u h" by (auto simp: silenced_def)
  with moves_silenced [OF run_moves [OF assms(1)] assms(2)] show False by blast
qed

lemma matching_cases:
  assumes "close_matching_rows flt p reason clk s = (Inr gone, t)"
  obtains now where "finite_time clk = Inr now" "gone = map (\<lambda>r. (cr_handle r, cr_ref r)) (active_where p s)"
    and "gs_rows t = gs_rows (close_where p (\<lambda>_. reason) now s)"
    and "gs_handlers t = filter (\<lambda>(h, k). h \<notin> set (handles_of (active_where p s))) (gs_handlers s)"
    and "gs_calls t = gs_calls s @ calls_on_close (active_where p s) reason s"
      | now where "finite_time clk = Inr now" "active_where p s = []" "gone = []" "t = s"
  using assms
  by (auto simp: close_matching_rows_def Let_def bindM_eq_Inr lift_ok sql_ok readM_eq modifyM_eq split: if_splits)
    (auto simp: drop_handlers_def forget_def close_where_def update_where_def)

lemma none_left:
  assumes "close_matching_rows flt p reason clk s = (Inr gone, t)" and "r \<in> set (gs_rows t)" and "active_row r"
  shows "\<not> p r"
  using assms(1)
proof (cases rule: matching_cases)
  case (1 now)
  with assms(2,3) show ?thesis using active_close_where [of r p] by auto
next
  case (2 now)
  with assms(2,3) show ?thesis by (auto simp: active_where_def filter_empty_conv)
qed

text \<open>
  C5. A revoked Device is silenced. Once \<open>close_device_claims\<close> without a surviving generation
  (what a revocation calls) has returned, no claim the Device held resolves for anyone, on
  any later run, whatever fails and however often the Home restarts.
\<close>

theorem revoked_device_silenced:
  assumes "grant_reachable cfg s" and "close_device_claims_sql flt device None reason clk s = (Inr n, t)"
    and "row_of t h = Some r" and "cr_device r = device"
  shows "fst (resolve flt' P h device' c1 c2 (run_ops (grant_exec cfg) t ps)) \<noteq> Inr (Some g)"
proof (rule silenced_run)
  note inv = grant_reachable_inv [OF assms(1)]
  show "grant_inv cfg t"
    using grant_exec_inv [OF inv, of "(flt, DbCloseDevice device None reason clk)"] assms(2) by simp
  obtain gone where "close_matching_rows flt (\<lambda>r. cr_device r = device) reason clk s = (Inr gone, t)"
    using assms(2) by (auto simp: close_device_claims_sql_def close_matching_claims_def bindM_eq_Inr lift_ok)
  from none_left [OF this] assms(3,4) row_of_in [OF assms(3)] show "silenced t h" by (auto simp: silenced_def)
qed


text \<open>
  C21. A claim's history is kept. On every run a claim keeps its identity (wake claim, Device,
  Room, mapping, Profile, revision, generation, grant, reference), the Session it was bound
  to, and once closed it never changes: the first close reason is the record.
\<close>

theorem claim_history_kept:
  assumes "grant_reachable cfg s" and "row_of s h = Some r"
  shows "\<exists>r'. row_of (run_ops (grant_exec cfg) s ps) h = Some r' \<and> claim_identity r' = claim_identity r
    \<and> (cr_session r = None \<or> cr_session r' = cr_session r) \<and> (active_row r \<or> r' = r)"
  using moves_row [OF run_moves [OF grant_reachable_inv [OF assms(1)]] assms(2)] unfolding claim_evolves_def by blast

section \<open>Session references\<close>

lemma ref_lookup:
  assumes "grant_inv cfg s" and "x \<in> set (gs_refs s)"
  shows "find_ref s (rf_grant x) (rf_session x) = Some x"
    and "find (\<lambda>r. rf_grant r = k \<and> rf_ref r = rf_ref x) (gs_refs s) = (if k = rf_grant x then Some x else None)"
proof -
  have d: "distinct (map (\<lambda>r. (rf_grant r, rf_session r)) (gs_refs s))" "distinct (map rf_ref (gs_refs s))"
    using assms(1) by (simp_all add: grant_inv_def)
  have "\<exists>y. find_ref s (rf_grant x) (rf_session x) = Some y"
    using assms(2) by (cases "find_ref s (rf_grant x) (rf_session x)") (auto simp: find_ref_def find_None_iff)
  then obtain y where y: "find_ref s (rf_grant x) (rf_session x) = Some y" by blast
  then have "y \<in> set (gs_refs s) \<and> rf_grant y = rf_grant x \<and> rf_session y = rf_session x"
    unfolding find_ref_def by (auto dest: find_in)
  then have "y = x" using distinct_map_unique [OF d(1) _ assms(2)] by simp
  with y show "find_ref s (rf_grant x) (rf_session x) = Some x" by simp
  have same: "z = x" if "z \<in> set (gs_refs s)" "rf_ref z = rf_ref x" for z
    using distinct_map_unique [OF d(2) that(1) assms(2) that(2)] .
  show "find (\<lambda>r. rf_grant r = k \<and> rf_ref r = rf_ref x) (gs_refs s) = (if k = rf_grant x then Some x else None)"
  proof (cases "find (\<lambda>r. rf_grant r = k \<and> rf_ref r = rf_ref x) (gs_refs s)")
    case None
    with assms(2) show ?thesis by (auto simp: find_None_iff)
  next
    case (Some z)
    with find_in [OF Some] same show ?thesis by auto
  qed
qed

lemma session_ref_row:
  assumes "session_ref flt g x fresh clk s = (Inr ref, t)"
  shows "\<exists>k y r. sql_identifier g ''grant ID'' = Inr k \<and> sql_identifier x ''Standard Session ID'' = Inr y
    \<and> r \<in> set (gs_refs t) \<and> rf_grant r = k \<and> rf_session r = y \<and> rf_ref r = ref"
proof -
  from assms obtain k y where k: "sql_identifier g ''grant ID'' = Inr k" and y: "sql_identifier x ''Standard Session ID'' = Inr y"
    by (auto simp: session_ref_def bindM_eq_Inr lift_ok)
  show ?thesis
  proof (cases "find_ref s k y")
    case None
    with assms k y show ?thesis
      by (auto simp: session_ref_def bindM_eq_Inr lift_ok sql_ok readM_eq modifyM_eq)
  next
    case (Some r)
    with assms k y find_in [OF Some [unfolded find_ref_def]] show ?thesis
      by (auto simp: session_ref_def bindM_eq_Inr lift_ok sql_ok readM_eq)
  qed
qed

text \<open>
  C15. Session references are stable and private. A reference handed out for a Session under a
  grant resolves, after any later run, to that Session, asking again gives the same
  reference, and under any other grant it resolves to nothing.
\<close>

theorem session_reference_stable:
  assumes "grant_reachable cfg s" and "session_ref flt g x fresh clk s = (Inr ref, t)"
    and "u = run_ops (grant_exec cfg) t ps"
  shows "\<exists>y. sql_identifier x ''Standard Session ID'' = Inr y \<and> session_for_ref [] g (PStr ref) u = (Inr (Some y), u)
    \<and> session_ref [] g x fresh' clk' u = (Inr ref, u)
    \<and> (sql_identifier k ''grant ID'' = sql_identifier g ''grant ID''
       \<or> fst (session_for_ref [] k (PStr ref) u) \<noteq> Inr (Some z))"
proof -
  note inv = grant_reachable_inv [OF assms(1)]
  from session_ref_row [OF assms(2)] obtain gid y r where
    ids: "sql_identifier g ''grant ID'' = Inr gid" "sql_identifier x ''Standard Session ID'' = Inr y"
    and r: "r \<in> set (gs_refs t)" and fields: "rf_grant r = gid" "rf_session r = y" "rf_ref r = ref" by blast
  have inv_t: "grant_inv cfg t"
    using grant_exec_inv [OF inv, of "(flt, DbSessionRef g x fresh clk)"] assms(2) by simp
  then have inv_u: "grant_inv cfg u" unfolding assms(3) by (rule run_inv)
  obtain xs where "gs_refs u = gs_refs t @ xs" using moves_grows [OF refl run_moves [OF inv_t], of ps] assms(3) by blast
  with r have ru: "r \<in> set (gs_refs u)" by simp
  have "bounded_text_128 ref" using inv_u ru fields(3) by (auto simp: grant_inv_def)
  moreover note ref_lookup [OF inv_u ru, unfolded fields]
  ultimately show ?thesis
    by (auto simp: ids fields session_for_ref_def session_ref_def bindM_def liftM_def sql_at_def readM_def
        split: sum.splits)
qed

section \<open>What closing calls\<close>

lemma count_list_map: "count_list (map f xs) a = length (filter (\<lambda>x. f x = a) xs)"
  by (induction xs) auto





section \<open>A timer that fires late\<close>

text \<open>
  C40. A stale timer hides a live claim. When a timer fires after its claim was given another
  deadline, no row changes, but the claim's connection marker is dropped: the Watch View
  of its Device shows nothing although the claim is active.
\<close>

theorem stale_timer_hides_claim:
  assumes "grant_reachable cfg s" and "row_of s h = Some r" and "cr_deadline r \<noteq> Some q"
    and "finite_time clk = Inr now" and "finite_time clk' = Inr now'" and "live_rows s device now' = [r]"
  shows "\<exists>t. expire_timer [] h q clk s = (Inr (), t) \<and> gs_rows t = gs_rows s
    \<and> watch_snapshot_sql cfg [] device n clk' t = (Inr None, t)"
proof -
  define due where "due = (\<lambda>r. cr_handle r = h \<and> cr_deadline r = Some q \<and> lapsed_row now r)"
  define t where "t = forget [h] (close_where due (\<lambda>r. expiry_reason (cr_activity r)) now s)"
  have run: "expire_timer [] h q clk s = (Inr (), t)"
    using assms(4) by (simp add: expire_timer_def bindM_def liftM_def modifyM_def t_def due_def)
  have "distinct (map cr_handle (gs_rows s))"
    using grant_reachable_inv [OF assms(1)] by (simp add: grant_inv_def)
  from distinct_map_unique [OF this _ row_of_in [OF assms(2), THEN conjunct1]] row_of_in [OF assms(2)] assms(3)
  have "\<not> due x" if "x \<in> set (gs_rows s)" for x using that unfolding due_def by metis
  then have rows: "gs_rows t = gs_rows s"
    by (auto simp: t_def close_where_def update_where_def intro!: map_idI)
  then have "live_rows t device now' = [r]" using assms(6) by (simp add: live_rows_def active_where_def)
  moreover have "map_of (gs_connected t) h = None" by (auto simp: t_def forget_def map_of_eq_None_iff)
  ultimately have "watch_snapshot_sql cfg [] device n clk' t = (Inr None, t)"
    using assms(5) row_of_in [OF assms(2)]
    by (simp add: watch_snapshot_sql_def bindM_def liftM_def sql_at_def readM_def)
  with run rows show ?thesis by blast
qed

section \<open>An example\<close>

definition talk_config :: grant_config where
  "talk_config = \<lparr>gc_limit = 8, gc_idle = 8, gc_first_open = 90, gc_grace = 120, gc_route = ''local''\<rparr>"

definition talk_wake :: wake_decision where
  "talk_wake = \<lparr>dec_claim_id = ''w1'', dec_decision = Granted, dec_arbitration_id = ''a'', dec_revision = 1,
     dec_reason = None, dec_device = ''puck'', dec_room = ''kitchen'', dec_mapping = ''wake'', dec_profile = ''ada'', dec_kind = WakeClaim\<rparr>"

abbreviation at_time :: "rat \<Rightarrow> pyval" where "at_time q \<equiv> PFloat (Fin q)"

definition talk_phone :: client_request where
  "talk_phone = \<lparr>rq_claim = PStr ''c1'', rq_device = PStr ''phone'', rq_grant = PStr ''g1'', rq_profile = PStr ''ada'',
     rq_revision = 1, rq_generation = Some 1, rq_session = PStr ''s1''\<rparr>"

definition talk_calls :: "(sql_point list \<times> grant_call) list" where
  "talk_calls = [([], DbCreateRoom talk_wake (Some 1) ''h1'' (at_time 0)), ([], DbMarkOpen ''h1'' ''puck'' (at_time 1) (at_time 100)),
     ([], DbRegister ''h1'' 7 (at_time 2)), ([], DbRecord ''h1'' ''puck'' ''idle'' (at_time 3)),
     ([], DbCreateClient talk_phone ''h2'' ''r2'' (at_time 4) (at_time 104))]"

definition talking :: grant_store where
  "talking = run_ops (grant_exec talk_config) (open_grant_store [] []) talk_calls"

lemma talking_reachable: "grant_reachable talk_config talking"
proof -
  have "make_grant_config (PInt 8) (at_time 120) (at_time 8) (at_time 90) (PStr ''local'') = Inr talk_config"
    by (simp add: make_grant_config_def positive_timeout_def talk_config_def bounded_text_128_def)
  then show ?thesis unfolding grant_reachable_def talking_def by blast
qed

definition talk_row :: "grant_store \<Rightarrow> string \<Rightarrow> claim_row" where
  "talk_row s h = the (row_of s h)"

lemma talk_rows: "row_of talking ''h1'' = Some (talk_row talking ''h1'')" "row_of talking ''h2'' = Some (talk_row talking ''h2'')"
  by code_simp+

theorem durable_claims_consistent_witness:
  "cr_room (talk_row talking ''h1'') = Some ''kitchen'' \<and> cr_session (talk_row talking ''h2'') = Some ''s1''
     \<and> cr_deadline (talk_row talking ''h1'') = Some 11 \<and> waits (talk_row talking ''h1'')"
proof -
  have a: "cr_room (talk_row talking ''h1'') = Some ''kitchen''" "cr_session (talk_row talking ''h2'') = Some ''s1''"
    "cr_deadline (talk_row talking ''h1'') = Some 11" "active_row (talk_row talking ''h1'')"
    by code_simp+
  from durable_claims_consistent [OF talking_reachable talk_rows] a have "waits (talk_row talking ''h1'')" by simp
  with a show ?thesis by blast
qed

theorem claim_history_kept_witness:
  "\<exists>r'. row_of (run_ops (grant_exec talk_config) talking [([], DbCloseAll ''stopped'' (at_time 5)), ([], DbRestart)]) ''h2'' = Some r'
     \<and> cr_session r' = Some ''s1''"
proof -
  have a: "cr_session (talk_row talking ''h2'') = Some ''s1''" by code_simp
  from claim_history_kept [OF talking_reachable talk_rows(2), of "[([], DbCloseAll ''stopped'' (at_time 5)), ([], DbRestart)]"] a
  show ?thesis by auto
qed

definition silenced_store :: grant_store where
  "silenced_store = snd (close_device_claims_sql [] ''puck'' None ''endpoint_revoked'' (at_time 5) talking)"

definition talk_snapshot :: snapshot where
  "talk_snapshot = demo_snapshot\<lparr>snap_config := demo_config\<lparr>cfg_devices := map (\<lambda>d. d\<lparr>device_caps :=
     (device_caps d)\<lparr>sensitive_entry := True, interactive_choice := True\<rparr>\<rparr>) (cfg_devices demo_config)\<rparr>\<rparr>"

definition talk_ports :: authority_ports where
  "talk_ports = \<lparr>ap_snapshot = Inr talk_snapshot, ap_paired = None, ap_grant = Some (\<lambda>_ _. Some True),
     ap_scope = Some (\<lambda>_ _. Some (Some \<lparr>scope_rooms = [], scope_capabilities = [''sensitive_entry''], scope_mappings = [],
       scope_touch = None\<rparr>)), ap_revision = None\<rparr>"

definition talk_resolved :: "(grant_error, conversation_grant option) result" where
  "talk_resolved = fst (resolve [] talk_ports ''h1'' ''puck'' (at_time 5) (at_time 5) talking)"

definition talk_grant :: conversation_grant where
  "talk_grant = (case talk_resolved of Inr (Some g) \<Rightarrow> g | _ \<Rightarrow> undefined)"



theorem revoked_device_silenced_witness:
  "\<not> active_row (talk_row silenced_store ''h1'') \<and> fst (resolve [] talk_ports ''h1'' ''puck'' (at_time 6) (at_time 6)
     (run_ops (grant_exec talk_config) silenced_store [([], DbRestart)])) \<noteq> Inr (Some talk_grant)"
proof -
  have a: "close_device_claims_sql [] ''puck'' None ''endpoint_revoked'' (at_time 5) talking = (Inr 1, silenced_store)"
    unfolding silenced_store_def by (rule prod_eqI, code_simp, simp)
  have b: "row_of silenced_store ''h1'' = Some (talk_row silenced_store ''h1'')" "cr_device (talk_row silenced_store ''h1'') = ''puck''"
    "\<not> active_row (talk_row silenced_store ''h1'')"
    by code_simp+
  from revoked_device_silenced [OF talking_reachable a b(1,2)] b(3) show ?thesis by blast
qed






theorem session_reference_stable_witness:
  "session_for_ref [] (PStr ''g1'') (PStr ''sref'') (run_ops (grant_exec talk_config)
      (snd (session_ref [] (PStr ''g1'') (PStr ''s1'') (PStr ''sref'') (at_time 5) talking)) [([], DbRestart)])
    = (Inr (Some ''s1''), run_ops (grant_exec talk_config)
      (snd (session_ref [] (PStr ''g1'') (PStr ''s1'') (PStr ''sref'') (at_time 5) talking)) [([], DbRestart)])"
proof -
  let ?t = "snd (session_ref [] (PStr ''g1'') (PStr ''s1'') (PStr ''sref'') (at_time 5) talking)"
  have "session_ref [] (PStr ''g1'') (PStr ''s1'') (PStr ''sref'') (at_time 5) talking = (Inr ''sref'', ?t)"
    by (rule prod_eqI, code_simp, simp)
  from session_reference_stable [OF talking_reachable this refl, of "[([], DbRestart)]"]
  obtain y where "sql_identifier (PStr ''s1'') ''Standard Session ID'' = Inr y"
    and "session_for_ref [] (PStr ''g1'') (PStr ''sref'') (run_ops (grant_exec talk_config) ?t [([], DbRestart)])
      = (Inr (Some y), run_ops (grant_exec talk_config) ?t [([], DbRestart)])" by blast
  moreover have "sql_identifier (PStr ''s1'') ''Standard Session ID'' = Inr ''s1''" by code_simp
  ultimately show ?thesis by (metis sum.inject(2))
qed


theorem stale_timer_hides_claim_witness:
  "\<exists>t. expire_timer [] ''h1'' 90 (at_time 5) talking = (Inr (), t)
     \<and> watch_snapshot_sql talk_config [] ''puck'' 1 (at_time 6) t = (Inr None, t)
     \<and> fst (watch_snapshot_sql talk_config [] ''puck'' 1 (at_time 6) talking) \<noteq> Inr None"
proof -
  have a: "cr_deadline (talk_row talking ''h1'') \<noteq> Some 90" "live_rows talking ''puck'' 6 = [talk_row talking ''h1'']"
    "fst (watch_snapshot_sql talk_config [] ''puck'' 1 (at_time 6) talking) \<noteq> Inr None"
    by code_simp+
  have "finite_time (at_time 5) = Inr 5" "finite_time (at_time 6) = Inr 6" by simp_all
  from stale_timer_hides_claim [OF talking_reachable talk_rows(1) a(1) this a(2), of 1] a(3)
  show ?thesis by blast
qed

end
