(* ===== verification/Spec2Isabelle.thy ===== *)
theory Spec2Isabelle
  imports Arbitration Configuration_Store Credential_Lifecycle Grant_Properties Conversation_Properties
    Paired_Room Authenticators Choice_Properties Routes
    Grant_Store_Properties
begin

text \<open>
  The Hermes Relay Home service, modelled from \<open>src/src/hermes_home\<close>.

  The program. The Home keeps one canonical configuration of a household: Rooms, Profiles,
  Devices, wake mappings (\<open>domain/configuration.py\<close>, stored by \<open>storage/sqlite.py\<close>). Endpoints
  enrol and receive credentials whose scope an administrator approves
  (\<open>domain/credentials.py\<close>, stored by \<open>storage/credentials.py\<close>); the authenticators of
  \<open>auth/\<close> recognise them in a request. A wake word heard by several Devices of a Room is
  arbitrated to one winner (\<open>domain/arbitration.py\<close>), whose decision opens a conversation
  claim (\<open>domain/conversations.py\<close>); a Device of a paired Room may open one without
  arbitration (\<open>domain/paired_room.py\<close>). While a conversation runs, typed choices are offered
  and answered through \<open>bridge/choice_authority.py\<close>, an endpoint picks its way to the
  Home with \<open>bridge/routes.py\<close>, a Device's Watch View shows its activity
  (\<open>domain/watch.py\<close>) and the health of an endpoint is reported by \<open>domain/health.py\<close>.

  Conventions (\<open>Home_Prelude\<close>). Fallible code returns \<open>Inl\<close> of the exception or \<open>Inr\<close> of
  the value. Values of unknown Python type are \<open>pyval\<close> trees, with the loops of the source
  over lists and dicts written as recursion; Python's numbers are \<open>int\<close> and a \<open>pyfloat\<close>
  with rationals and the three special values, so float arithmetic is exact here (rounding
  is not modelled). Strings are lists of characters of HOL, which are octets. What the
  source takes from outside, the clock, drawn tokens, cryptographic primitives, Unicode
  normal form and case folding, URL parsing, provider ports, is an argument or a record of
  functions; hypotheses on them are stated in the theorems that need them.

  The theories, in the order of the program:

  \<^item> \<open>Home_Prelude\<close>, \<open>Transactions\<close>: results, loops, lists and maps; record lists that only
    grow; the contract of a store that runs code as one transaction.
  \<^item> \<open>Configuration\<close>: \<open>validate_configuration\<close> and every validator below it, the canonical
    records, the errors. Lemmas: what an accepted configuration satisfies, and that
    exactly the well-formed documents are accepted. \<open>Configuration_Store\<close>: the row, its
    checks when read, \<open>publish\<close> with its revision condition. Lemmas: atomicity and no lost
    update.
  \<^item> \<open>Arbitration\<close>: the arbiter state (rounds, reservations, consumed decisions) and each
    method. Lemmas: the state invariant over all runs, one winner, accepted claims are
    authorised, no claim ID twice.
  \<^item> \<open>Credential_Types\<close>, \<open>Credential_Protector\<close>, \<open>Credential_Store\<close>: scopes, endpoint
    kinds, bindings and codes; the digest and material derivation; the stores.
    \<open>Credential_Service\<close> and \<open>Client_Grants\<close>: one definition per method of
    \<open>CredentialService\<close>. \<open>Credential_Evolution\<close> shows that records only move forward,
    \<open>Credential_Invariants\<close> the invariants of the state under every operation;
    \<open>Credential_Properties\<close>, \<open>Credential_Lifecycle\<close> and \<open>Grant_Properties\<close> hold the
    properties and \<open>Credential_Demo\<close> the concrete household of their witnesses.
  \<^item> \<open>Authenticators\<close>: both authenticators over the request headers.
  \<^item> \<open>Conversations\<close>, \<open>Conversation_Properties\<close>: the claim store and its timer,
    closing, activity and delivery operations; \<open>Watch\<close>: the snapshot it shows.
  \<^item> \<open>Paired_Room\<close>: the admission decision over a snapshot and the live wake contexts.
  \<^item> \<open>Choice_Authority\<close>, \<open>Choice_Properties\<close>: an explicit heap of choice objects, because
    the tables of the source share them and mutate them; every method, the invariant of
    heap and tables, and which responses are accepted, each at most once.
  \<^item> \<open>Health\<close>: probes, stages and reports, the run bounded by a deadline over four-way
    provider outcomes, and the body bounded in size.
  \<^item> \<open>Routes\<close>: approved routes, the selection loop with its remaining-time computation,
    verification, the redacted diagnostics.

  Loops. All loops of the modelled code run over finite lists, so the definitions are
  structurally recursive or total functions with a measure; no definition uses fuel.
  What can stay without an answer in the source, a provider call, is a value of the
  model (\<open>StillRunning\<close>, \<open>ThreadDied\<close>), and the callers are shown to answer anyway.
  Locks of the source make each method one atomic step; interleavings are the
  sequences of steps, over which the invariants are proved by rule induction.

  Interfaces. Stores are locales with the laws of a transaction, interpreted on the
  configuration store and on the credential store; the credential operations share
  the locales of \<open>Credential_Evolution\<close> (a preorder kept by each operation).

  Not modelled: the HTTP transport and the HTML page (\<open>api/server.py\<close>, \<open>api/responses.py\<close>,
  \<open>api/pairing_page.py\<close>), the asynchronous WebSocket sessions (\<open>bridge/standard.py\<close>,
  \<open>bridge/endpoint.py\<close>), sockets and signals of the process (\<open>runtime.py\<close>), operator
  scripts and the patched speech server: they are input/output around the domain logic.
\<close>

end
